(* ===== verification/Prelude.thy ===== *)
theory Prelude
  imports Main "HOL-Library.Word"
begin

unbundle bit_operations_syntax

section \<open>Shared types, outcomes and word lemmas\<close>

text \<open>
  The vocabulary of the development: Rust's machine integers on the 64-bit target, results with
  \<open>Ok\<close> and \<open>Err\<close>, \<open>Poll\<close>, the outcome of a call that may panic or may not have returned yet,
  the calls a component makes on the wait queues of \<open>maitake_sync\<close>, and the lemmas about
  words, lists and positions modulo a lap that the component theories share.
\<close>

subsection \<open>Types\<close>

type_synonym u8 = "8 word"
type_synonym u16 = "16 word"
type_synonym usize = "64 word"
type_synonym bytes = "u8 list"

abbreviation Ok :: "'a \<Rightarrow> 'e + 'a" where "Ok \<equiv> Inr"
abbreviation Err :: "'e \<Rightarrow> 'e + 'a" where "Err \<equiv> Inl"

text \<open>
  A call of Rust code returns (\<open>Done\<close>), panics (\<open>Panic\<close>), has not returned yet (\<open>Running\<close>: a
  future that is still pending, or a retry loop whose schedule has been used up), or has done
  what \<open>unsafe\<close> code must never do (\<open>UB\<close>: read or drop a value that is not initialised, or
  touch memory that has been freed).
\<close>

datatype 'a outcome = Done 'a | Panic | Running | UB

datatype 'a poll = Pending | Ready 'a

fun outcome_bind :: "'a outcome \<Rightarrow> ('a \<Rightarrow> 'b outcome) \<Rightarrow> 'b outcome" where
  "outcome_bind (Done x) f = f x"
| "outcome_bind Panic f = Panic"
| "outcome_bind Running f = Running"
| "outcome_bind UB f = UB"

definition outcome_map :: "('a \<Rightarrow> 'b) \<Rightarrow> 'a outcome \<Rightarrow> 'b outcome" where
  "outcome_map f x = outcome_bind x (\<lambda>y. Done (f y))"

lemma outcome_map_simps [simp]:
  "outcome_map f (Done x) = Done (f x)"
  "outcome_map f Panic = Panic"
  "outcome_map f Running = Running"
  "outcome_map f UB = UB"
  by (simp_all add: outcome_map_def)

lemma outcome_map_eq_Done_iff: "outcome_map f x = Done y \<longleftrightarrow> (\<exists>z. x = Done z \<and> y = f z)"
  by (cases x) auto

lemma outcome_bind_eq_Done_iff: "outcome_bind x f = Done y \<longleftrightarrow> (\<exists>z. x = Done z \<and> f z = Done y)"
  by (cases x) auto

text \<open>Rust's \<open>Option::ok_or\<close> and \<open>Result::map\<close>.\<close>

definition ok_or :: "'a option \<Rightarrow> 'e \<Rightarrow> 'e + 'a" where
  "ok_or x e = (case x of None \<Rightarrow> Err e | Some y \<Rightarrow> Ok y)"

lemma ok_or_simps [simp]: "ok_or None e = Err e" "ok_or (Some y) e = Ok y"
  by (simp_all add: ok_or_def)

text \<open>
  \<open>WaitCell\<close> and \<open>WaitQueue\<close> belong to \<open>maitake_sync\<close>. A component that owns one keeps the
  list of the calls it has made on it, oldest first: waking and closing return nothing the
  callers use. What a wait returns to the caller is an argument of the waiting function.
\<close>

datatype wait_call = Wake | Wake_Close

subsection \<open>Collections of facts\<close>

named_theorems pos_consts \<open>the values of the position-word constants\<close>
named_theorems layout_simps \<open>bit layouts unfolded to arithmetic\<close>
named_theorems op_defs \<open>the operations of a component, for unfolding in a case analysis\<close>

subsection \<open>Words as numbers\<close>

lemma unat_u16_less: "unat (w :: u16) < 65536"
  using unsigned_less [of w, where ?'a = nat] by simp

lemma unat_u8_less: "unat (w :: u8) < 256"
  using unsigned_less [of w, where ?'a = nat] by simp

lemma unat_and_mask: "unat (w AND mask n :: 'a::len word) = unat w mod 2 ^ n"
  by (metis take_bit_eq_mask take_bit_eq_mod unsigned_take_bit_eq)

lemma unat_drop: "unat (drop_bit n w :: 'a::len word) = unat w div 2 ^ n"
  by (metis unat_drop_bit_eq drop_bit_eq_div)

lemma nat_or_one: "(n :: nat) OR 1 = n + of_bool (even n)"
  by (rule or_one_eq)

lemma unat_or_one: "unat (w OR 1 :: 'a::len word) = unat w + of_bool (even (unat w))"
  by (simp only: unsigned_or_eq unat_1 nat_or_one)

lemma unat_add_u16: "unat (a + b :: u16) = (unat a + unat b) mod 65536"
  by (simp add: unat_word_ariths)

lemma unat_ucast_u8: "unat (ucast (w :: u16) :: u8) = unat w mod 256"
  by (simp add: unsigned_ucast_eq unsigned_take_bit_eq) (simp add: take_bit_eq_mod)

lemma unat_ucast_u16: "unat (ucast (w :: u8) :: u16) = unat w"
  using unat_u8_less [of w] by (simp add: unsigned_ucast_eq take_bit_eq_mod)

text \<open>
  The signed difference \<open>(a as i16).wrapping_sub(b as i16)\<close> of two values below \<open>2 ^ 15\<close> is
  their difference.
\<close>

lemma sint_dif:
  assumes "unat (a :: u16) < 32768" and "unat (b :: u16) < 32768"
  shows "sint (a - b) = int (unat a) - int (unat b)"
proof -
  have e: "a - b = word_of_int (int (unat a) - int (unat b))" by simp
  have "sint (a - b) = signed_take_bit 15 (int (unat a) - int (unat b))"
    unfolding e sint_sbintrunc' by simp
  also have "\<dots> = int (unat a) - int (unat b)"
  proof (rule signed_take_bit_int_eq_self)
    have p: "(2 :: int) ^ 15 = 32768" by simp
    show "- (2 ^ 15) \<le> int (unat a) - int (unat b)" and "int (unat a) - int (unat b) < 2 ^ 15"
      unfolding p using assms by linarith+
  qed
  finally show ?thesis .
qed

subsection \<open>Positions and laps\<close>

lemma same_residue_le:
  assumes "(d + a) mod n = (d + b) mod (n :: nat)" and "a \<le> b" and "b < n"
  shows "a = b"
proof -
  from assms(1,2) have "n dvd b - a"
    using mod_eq_dvd_iff_nat [of "d + a" "d + b" n] by simp
  moreover have "b - a < n" using assms(3) by simp
  ultimately have "b - a = 0" by (auto dest: nat_dvd_not_less)
  then show ?thesis using assms(2) by simp
qed

lemma same_residue_iff:
  assumes "a < n" and "b < n"
  shows "(d + a) mod n = (d + b) mod (n :: nat) \<longleftrightarrow> a = b"
  using assms same_residue_le [of d a n b] same_residue_le [of d b n a] by (metis nat_le_linear)

text \<open>A ten-bit sequence number above six index bits, wrapped to a 16-bit word.\<close>

lemma lap_word: "r < 64 \<Longrightarrow> (64 * x + r) mod 65536 = 64 * (x mod 1024) + (r :: nat)"
  using mod_mult2_eq [of "64 * x + r" 64 1024] by simp

lemma nat_or_disjoint:
  assumes "(r :: nat) < 2 ^ n"
  shows "r OR 2 ^ n * x = r + 2 ^ n * x"
proof -
  have "r AND push_bit n x = 0"
    by (rule bit_eqI)
      (metis assms bit_0_eq bit_and_iff bit_push_bit_iff bit_take_bit_iff bot_apply bot_bool_def
        linorder_not_less take_bit_nat_eq_self)
  then show ?thesis
    using disjunctive_add_eq_or [of r "push_bit n x"] by (simp add: push_bit_eq_mult mult.commute)
qed

lemma unat_push6: "unat (push_bit 6 (w :: u16)) = (64 * unat w) mod 65536"
  by (simp add: push_bit_eq_mult unat_word_ariths mult.commute)

end
