(* ===== verification/Mpsc_Error.thy ===== *)
theory Mpsc_Error
  imports Prelude
begin

section \<open>Error types of the channels (\<open>mpsc/error.rs\<close>)\<close>

text \<open>
  The six error enums that senders and receivers return, with their conversions and the texts
  their \<open>Display\<close> implementations write. The texts of \<open>E\<close> and of \<open>postcard::Error\<close>, which
  are not part of this file, are arguments of the display functions.
\<close>

datatype ('e, 't) SendError = SendError_Disconnected 't | SendError_Error 't 'e

datatype ('e, 't) TrySendError =
    TrySendError_Full 't
  | TrySendError_Disconnected 't
  | TrySendError_Error 't 'e

datatype 'e TryRecvError = TryRecvError_Empty | TryRecvError_Disconnected | TryRecvError_Error 'e

datatype 'e RecvError = RecvError_Disconnected | RecvError_Error 'e

datatype ('p, 'e) SerSendError =
    SerSendError_Disconnected
  | SerSendError_Deserialize 'p
  | SerSendError_Error 'e

datatype ('p, 'e) SerTrySendError =
    SerTrySendError_Disconnected
  | SerTrySendError_Full
  | SerTrySendError_Deserialize 'p
  | SerTrySendError_Error 'e

subsection \<open>Conversions\<close>

fun SendError_into_inner :: "('e, 't) SendError \<Rightarrow> 't" where
  "SendError_into_inner (SendError_Disconnected msg) = msg"
| "SendError_into_inner (SendError_Error msg _) = msg"

fun SendError_with_message :: "('e, 't) SendError \<Rightarrow> 'm \<Rightarrow> ('e, 'm) SendError" where
  "SendError_with_message (SendError_Disconnected _) m = SendError_Disconnected m"
| "SendError_with_message (SendError_Error _ e) m = SendError_Error m e"

fun TrySendError_into_inner :: "('e, 't) TrySendError \<Rightarrow> 't" where
  "TrySendError_into_inner (TrySendError_Disconnected inner) = inner"
| "TrySendError_into_inner (TrySendError_Full t) = t"
| "TrySendError_into_inner (TrySendError_Error msg _) = msg"

fun TrySendError_with_message :: "('e, 't) TrySendError \<Rightarrow> 'm \<Rightarrow> ('e, 'm) TrySendError" where
  "TrySendError_with_message (TrySendError_Disconnected _) m = TrySendError_Disconnected m"
| "TrySendError_with_message (TrySendError_Full _) m = TrySendError_Full m"
| "TrySendError_with_message (TrySendError_Error _ e) m = TrySendError_Error m e"

fun SerSendError_from_send_error :: "('e, unit) SendError \<Rightarrow> ('p, 'e) SerSendError" where
  "SerSendError_from_send_error (SendError_Disconnected _) = SerSendError_Disconnected"
| "SerSendError_from_send_error (SendError_Error _ e) = SerSendError_Error e"

fun SerTrySendError_from_try_send_error :: "('e, unit) TrySendError \<Rightarrow> ('p, 'e) SerTrySendError" where
  "SerTrySendError_from_try_send_error (TrySendError_Disconnected _) = SerTrySendError_Disconnected"
| "SerTrySendError_from_try_send_error (TrySendError_Error _ e) = SerTrySendError_Error e"
| "SerTrySendError_from_try_send_error (TrySendError_Full _) = SerTrySendError_Full"

fun SerTrySendError_from_ser_send_error :: "('p, 'e) SerSendError \<Rightarrow> ('p, 'e) SerTrySendError" where
  "SerTrySendError_from_ser_send_error SerSendError_Disconnected = SerTrySendError_Disconnected"
| "SerTrySendError_from_ser_send_error (SerSendError_Error e) = SerTrySendError_Error e"
| "SerTrySendError_from_ser_send_error (SerSendError_Deserialize p) = SerTrySendError_Deserialize p"

subsection \<open>Display\<close>

fun SendError_display :: "('e \<Rightarrow> string) \<Rightarrow> ('e, 't) SendError \<Rightarrow> string" where
  "SendError_display show_e (SendError_Disconnected _) = ''the receiver has been dropped''"
| "SendError_display show_e (SendError_Error _ e) = show_e e"

fun TrySendError_display :: "('e \<Rightarrow> string) \<Rightarrow> ('e, 't) TrySendError \<Rightarrow> string" where
  "TrySendError_display show_e (TrySendError_Disconnected _) = ''the receiver has been dropped''"
| "TrySendError_display show_e (TrySendError_Full _) = ''the channel is currently at capacity''"
| "TrySendError_display show_e (TrySendError_Error _ e) = show_e e"

fun SerSendError_display :: "('e \<Rightarrow> string) \<Rightarrow> ('p \<Rightarrow> string) \<Rightarrow> ('p, 'e) SerSendError \<Rightarrow> string" where
  "SerSendError_display show_e show_p SerSendError_Disconnected = ''the receiver has been dropped''"
| "SerSendError_display show_e show_p (SerSendError_Error e) = show_e e"
| "SerSendError_display show_e show_p (SerSendError_Deserialize p) =
     ''error deserializing message: '' @ show_p p"

fun SerTrySendError_display ::
  "('e \<Rightarrow> string) \<Rightarrow> ('p \<Rightarrow> string) \<Rightarrow> ('p, 'e) SerTrySendError \<Rightarrow> string" where
  "SerTrySendError_display show_e show_p SerTrySendError_Disconnected =
     ''the receiver has been dropped''"
| "SerTrySendError_display show_e show_p (SerTrySendError_Error e) = show_e e"
| "SerTrySendError_display show_e show_p SerTrySendError_Full =
     ''the channel is currently at capacity''"
| "SerTrySendError_display show_e show_p (SerTrySendError_Deserialize p) =
     ''error deserializing message: '' @ show_p p"

text \<open>\<open>Debug\<close>, on one line; \<open>{:?}\<close> of the error is an argument. The message is not shown.\<close>

fun SendError_debug :: "('e \<Rightarrow> string) \<Rightarrow> ('e, 't) SendError \<Rightarrow> string" where
  "SendError_debug show_e (SendError_Disconnected _) = ''SendError::Closed''"
| "SendError_debug show_e (SendError_Error _ e) = ''SendError::Error { error: '' @ show_e e @ '', .. }''"

fun TrySendError_debug :: "('e \<Rightarrow> string) \<Rightarrow> ('e, 't) TrySendError \<Rightarrow> string" where
  "TrySendError_debug show_e (TrySendError_Disconnected _) = ''TrySendError::Closed''"
| "TrySendError_debug show_e (TrySendError_Full _) = ''TrySendError::Full''"
| "TrySendError_debug show_e (TrySendError_Error _ e) =
     ''TrySendError::Error { error: '' @ show_e e @ '', .. }''"

subsection \<open>Conversions keep what they convert\<close>

lemma SendError_into_inner_with_message [simp]:
  "SendError_into_inner (SendError_with_message e m) = m"
  by (cases e) simp_all

lemma TrySendError_into_inner_with_message [simp]:
  "TrySendError_into_inner (TrySendError_with_message e m) = m"
  by (cases e) simp_all

lemma SendError_with_message_twice [simp]:
  "SendError_with_message (SendError_with_message e m) m' = SendError_with_message e m'"
  by (cases e) simp_all

lemma TrySendError_with_message_twice [simp]:
  "TrySendError_with_message (TrySendError_with_message e m) m' = TrySendError_with_message e m'"
  by (cases e) simp_all

lemma SerSendError_display_from_send_error:
  "SerSendError_display show_e show_p (SerSendError_from_send_error e) = SendError_display show_e e"
  by (cases e) simp_all

lemma SerTrySendError_display_from_try_send_error:
  "SerTrySendError_display show_e show_p (SerTrySendError_from_try_send_error e) =
     TrySendError_display show_e e"
  by (cases e) simp_all

lemma SendError_debug_with_message:
  "SendError_debug show_e (SendError_with_message e m) = SendError_debug show_e e"
  by (cases e) simp_all

lemma TrySendError_debug_with_message:
  "TrySendError_debug show_e (TrySendError_with_message e m) = TrySendError_debug show_e e"
  by (cases e) simp_all

end
