(* ===== verification/Channel_Core.thy ===== *)
theory Channel_Core
  imports Mpsc_Error
begin

section \<open>The channel core (\<open>mpsc/channel_core.rs\<close>)\<close>

text \<open>
  \<open>Core\<close> is the ring buffer behind every MPSC channel: two 16-bit position words, an array of
  64 slot words and a word of sender/receiver state. This theory has its constants, its fields
  and its operations; the invariant and the theorems are in \<open>Core_Invariant\<close>.

  One call of an operation runs without interference from other threads, except that
  \<open>compare_exchange_weak\<close> may fail spuriously: a retry loop takes a schedule, a list of booleans,
  and its n-th iteration may complete its compare-exchange only if the n-th element is \<open>True\<close>.
  A loop whose schedule is used up is \<open>Running\<close>. The places where a future waits take a list of
  resumptions, each with the state of the channel when the task goes on.

  The index allocator \<open>IndexAllocWord\<close> is a type of \<open>mnemos_bitslab\<close>: its state is the type
  variable \<open>'ia\<close> and its operations are the record \<open>index_ops\<close>.
\<close>

subsection \<open>Constants\<close>

definition MAX_CAPACITY :: nat where
  "MAX_CAPACITY = 64" \<comment> \<open>\<open>IndexAllocWord::MAX_CAPACITY\<close>: the bits of a \<open>usize\<close>\<close>

fun trailing_ones_from :: "u16 \<Rightarrow> nat \<Rightarrow> nat \<Rightarrow> nat" where
  "trailing_ones_from w i 0 = i"
| "trailing_ones_from w i (Suc n) = (if bit w i then trailing_ones_from w (Suc i) n else i)"

definition trailing_ones :: "u16 \<Rightarrow> nat" where
  "trailing_ones w = trailing_ones_from w 0 16"

definition CLOSED :: u16 where "CLOSED = push_bit 0 1"
definition MASK :: u16 where "MASK = of_nat MAX_CAPACITY - 1"
definition POS_SHIFT :: nat where "POS_SHIFT = trailing_ones MASK"
definition POS_ONE :: u16 where "POS_ONE = push_bit POS_SHIFT 1"
definition LAP_ONE :: u16 where "LAP_ONE = push_bit POS_SHIFT MASK"

definition RX_CLAIMED :: usize where "RX_CLAIMED = push_bit 0 1"
definition ERRORING :: usize where "ERRORING = push_bit 1 1"
definition ERRORED :: usize where "ERRORED = push_bit 2 1"
definition TX_SHIFT :: nat where "TX_SHIFT = 3"
definition TX_ONE :: usize where "TX_ONE = push_bit TX_SHIFT 1"

subsection \<open>The core\<close>

record 'ia index_ops =
  ia_with_capacity :: "u8 \<Rightarrow> 'ia"
  ia_allocate :: "'ia \<Rightarrow> u8 option \<times> 'ia"
  ia_free :: "u8 \<Rightarrow> 'ia \<Rightarrow> 'ia"

record ('e, 'ia) core =
  dequeue_pos :: u16
  cons_wait :: "wait_call list"
  enqueue_pos :: u16
  prod_wait :: "wait_call list"
  indices :: 'ia
  queue :: "u16 list"
  state :: usize
  capacity :: u8
  error :: "'e option" \<comment> \<open>\<open>None\<close> while the \<open>MaybeUninit\<close> is uninitialised\<close>

definition Core_new :: "'ia index_ops \<Rightarrow> u8 \<Rightarrow> ('e, 'ia) core outcome" where
  "Core_new io cap =
     (if unat cap \<le> MAX_CAPACITY then
        Done \<lparr>dequeue_pos = 0, cons_wait = [], enqueue_pos = 0, prod_wait = [],
              indices = ia_with_capacity io cap,
              queue = map (\<lambda>i. push_bit POS_SHIFT (of_nat i)) [0..<MAX_CAPACITY],
              state = TX_ONE, capacity = cap, error = None\<rparr>
      else Panic)"

definition Core_uncommit :: "'ia index_ops \<Rightarrow> ('e, 'ia, 'z) core_scheme \<Rightarrow> u8 \<Rightarrow> ('e, 'ia, 'z) core_scheme" where
  "Core_uncommit io c idx =
     c\<lparr>indices := ia_free io idx (indices c), prod_wait := prod_wait c @ [Wake]\<rparr>"

definition Core_try_claim_rx :: "('e, 'ia, 'z) core_scheme \<Rightarrow> ('e, 'ia, 'z) core_scheme \<times> unit option" where
  "Core_try_claim_rx c =
     (let old = state c; c' = c\<lparr>state := old OR RX_CLAIMED\<rparr>;
          claimed = (old AND RX_CLAIMED = 0)
      in (c', if claimed then Some () else None))"

definition Core_close_rx :: "('e, 'ia, 'z) core_scheme \<Rightarrow> ('e, 'ia, 'z) core_scheme" where
  "Core_close_rx c =
     c\<lparr>enqueue_pos := enqueue_pos c OR CLOSED, prod_wait := prod_wait c @ [Wake_Close]\<rparr>"

definition Core_close_tx :: "('e, 'ia, 'z) core_scheme \<Rightarrow> ('e, 'ia, 'z) core_scheme" where
  "Core_close_tx c =
     c\<lparr>dequeue_pos := dequeue_pos c OR CLOSED, cons_wait := cons_wait c @ [Wake_Close]\<rparr>"

definition Core_close_with_error :: "('e, 'ia, 'z) core_scheme \<Rightarrow> 'e \<Rightarrow> ('e, 'ia, 'z) core_scheme \<times> bool" where
  "Core_close_with_error c e =
     (let old = state c; c1 = c\<lparr>state := old OR ERRORING\<rparr>
      in if old AND (ERRORING OR ERRORED) \<noteq> 0 then (c1, False)
         else (let c2 = c1\<lparr>error := Some e\<rparr>; c3 = c2\<lparr>state := state c2 OR ERRORED\<rparr>
               in (Core_close_tx (Core_close_rx c3), True)))"

definition Core_add_tx :: "('e, 'ia, 'z) core_scheme \<Rightarrow> ('e, 'ia, 'z) core_scheme" where
  "Core_add_tx c = c\<lparr>state := state c + TX_ONE\<rparr>"

definition Core_drop_tx :: "('e, 'ia, 'z) core_scheme \<Rightarrow> ('e, 'ia, 'z) core_scheme" where
  "Core_drop_tx c =
     (let refs = drop_bit TX_SHIFT (state c); c1 = c\<lparr>state := state c - TX_ONE\<rparr>
      in if refs = 1 then Core_close_tx (c1\<lparr>state := state c1 OR 0\<rparr>) else c1)"

definition Core_is_empty :: "('e, 'ia, 'z) core_scheme \<Rightarrow> bool" where
  "Core_is_empty c = (enqueue_pos c = dequeue_pos c)"

definition Core_is_full :: "('e, 'ia, 'z) core_scheme \<Rightarrow> bool" where
  "Core_is_full c = (dequeue_pos c + POS_ONE = enqueue_pos c)"

text \<open>
  \<open>Core::len\<close> loads \<open>enqueue_pos\<close>, \<open>dequeue_pos\<close> and \<open>enqueue_pos\<close> again until the first and
  the last agree; the argument lists the three loads of every iteration.
\<close>

fun Core_len_loop :: "u8 \<Rightarrow> (u16 \<times> u16 \<times> u16) list \<Rightarrow> nat outcome" where
  "Core_len_loop cap [] = Running"
| "Core_len_loop cap ((enq, deq, enq') # loads) =
     (if enq' = enq then
        (let head = drop_bit POS_SHIFT deq AND MASK;
             tail = drop_bit POS_SHIFT deq AND MASK
         in if head < tail then Done (unat (tail - head))
            else if head = tail then Done 0
            else if unat cap < unat (head + tail) then Panic
            else Done (unat cap - unat (head + tail)))
      else Core_len_loop cap loads)"

definition Core_len :: "('e, 'ia, 'z) core_scheme \<Rightarrow> nat outcome" where
  "Core_len c = Core_len_loop (capacity c) [(enqueue_pos c, dequeue_pos c, enqueue_pos c)]"

definition Core_close_reason :: "('e, 'ia, 'z) core_scheme \<Rightarrow> 'e option" where
  "Core_close_reason c = (if state c AND ERRORED \<noteq> 0 then error c else None)"

definition Core_try_reserve ::
  "'ia index_ops \<Rightarrow> ('e, 'ia, 'z) core_scheme \<Rightarrow> ('e, 'ia, 'z) core_scheme \<times> (('e, unit) TrySendError + u8)" where
  "Core_try_reserve io c =
     (if enqueue_pos c AND CLOSED = CLOSED then
        (c, Err (case Core_close_reason c of
                   Some e \<Rightarrow> TrySendError_Error () e
                 | None \<Rightarrow> TrySendError_Disconnected ()))
      else (let (i, ia) = ia_allocate io (indices c)
            in (c\<lparr>indices := ia\<rparr>, ok_or i (TrySendError_Full ()))))"

text \<open>
  \<open>Core::reserve\<close>: every resumption is the core as the woken task finds it, with what
  \<open>prod_wait.wait()\<close> returned (\<open>Err\<close> when the queue was closed).
\<close>

fun Core_reserve ::
  "'ia index_ops \<Rightarrow> (('e, 'ia, 'z) core_scheme \<times> (unit + unit)) list \<Rightarrow> ('e, 'ia, 'z) core_scheme
    \<Rightarrow> (('e, 'ia, 'z) core_scheme \<times> (('e, unit) SendError + u8)) outcome" where
  "Core_reserve io resumes c =
     (case Core_try_reserve io c of
        (c', Ok idx) \<Rightarrow> Done (c', Ok idx)
      | (c', Err (TrySendError_Disconnected _)) \<Rightarrow> Done (c', Err (SendError_Disconnected ()))
      | (c', Err (TrySendError_Error _ e)) \<Rightarrow> Done (c', Err (SendError_Error () e))
      | (c', Err (TrySendError_Full _)) \<Rightarrow>
          (case resumes of
             [] \<Rightarrow> Running
           | (c2, Ok _) # rest \<Rightarrow> Core_reserve io rest c2
           | (c2, Err _) # _ \<Rightarrow>
               Done (c2, Err (case Core_close_reason c2 of
                                Some e \<Rightarrow> SendError_Error () e
                              | None \<Rightarrow> SendError_Disconnected ()))))"

fun Core_try_dequeue_loop ::
  "bool list \<Rightarrow> ('e, 'ia, 'z) core_scheme \<Rightarrow> u16 \<Rightarrow> (('e, 'ia, 'z) core_scheme \<times> ('e TryRecvError + u8)) outcome" where
  "Core_try_dequeue_loop [] c head = Running"
| "Core_try_dequeue_loop (cas_ok # sched) c head =
     (let pos = drop_bit POS_SHIFT head;
          slot = unat (pos AND MASK);
          val = queue c ! slot;
          seq = drop_bit POS_SHIFT val;
          dif = seq - (pos + 1)
      in if sint dif < 0 \<and> head AND CLOSED \<noteq> 0 then
           Done (c, Err (case Core_close_reason c of
                           Some e \<Rightarrow> TryRecvError_Error e
                         | None \<Rightarrow> TryRecvError_Disconnected))
         else if sint dif < 0 then Done (c, Err TryRecvError_Empty)
         else if dif = 0 then
           (if cas_ok \<and> dequeue_pos c = head then
              Done (c\<lparr>dequeue_pos := head + POS_ONE, queue := (queue c)[slot := val + LAP_ONE]\<rparr>,
                    Ok (ucast (val AND MASK)))
            else Core_try_dequeue_loop sched c (dequeue_pos c))
         else Core_try_dequeue_loop sched c (dequeue_pos c))"

definition Core_try_dequeue ::
  "bool list \<Rightarrow> ('e, 'ia, 'z) core_scheme \<Rightarrow> (('e, 'ia, 'z) core_scheme \<times> ('e TryRecvError + u8)) outcome" where
  "Core_try_dequeue sched c = Core_try_dequeue_loop sched c (dequeue_pos c)"

text \<open>
  \<open>Core::poll_dequeue\<close>: every element of the second argument is what \<open>cons_wait.poll_wait\<close>
  answered in one iteration, and when it was ready, the core as the next iteration finds it.
\<close>

fun Core_poll_dequeue ::
  "bool list \<Rightarrow> ('e, 'ia, 'z) core_scheme poll list \<Rightarrow> ('e, 'ia, 'z) core_scheme
    \<Rightarrow> (('e, 'ia, 'z) core_scheme \<times> ('e RecvError + u8) poll) outcome" where
  "Core_poll_dequeue sched polls c =
     (case Core_try_dequeue sched c of
        Panic \<Rightarrow> Panic
      | Running \<Rightarrow> Running
      | UB \<Rightarrow> UB
      | Done (c', Ok idx) \<Rightarrow> Done (c', Ready (Ok idx))
      | Done (c', Err TryRecvError_Disconnected) \<Rightarrow> Done (c', Ready (Err RecvError_Disconnected))
      | Done (c', Err (TryRecvError_Error e)) \<Rightarrow> Done (c', Ready (Err (RecvError_Error e)))
      | Done (c', Err TryRecvError_Empty) \<Rightarrow>
          (case polls of
             [] \<Rightarrow> Running
           | Pending # _ \<Rightarrow> Done (c', Pending)
           | Ready c2 # rest \<Rightarrow> Core_poll_dequeue sched rest c2))"

fun Core_commit_send_loop ::
  "bool list \<Rightarrow> ('e, 'ia, 'z) core_scheme \<Rightarrow> u8 \<Rightarrow> u16
    \<Rightarrow> (('e, 'ia, 'z) core_scheme \<times> (('e, unit) SendError + unit)) outcome" where
  "Core_commit_send_loop [] c idx tail = Running"
| "Core_commit_send_loop (cas_ok # sched) c idx tail =
     (if tail AND CLOSED = CLOSED then
        Done (c, Err (case Core_close_reason c of
                        Some e \<Rightarrow> SendError_Error () e
                      | None \<Rightarrow> SendError_Disconnected ()))
      else
        (let pos = drop_bit POS_SHIFT tail;
             slot = unat (pos AND MASK);
             seq = drop_bit POS_SHIFT (queue c ! slot);
             dif = seq - pos
         in if sint dif < 0 then Panic
            else if dif = 0 then
              (if cas_ok \<and> enqueue_pos c = tail then
                 (let new = push_bit POS_SHIFT (pos + 1)
                  in Done (c\<lparr>enqueue_pos := tail + POS_ONE,
                             queue := (queue c)[slot := ucast idx OR new],
                             cons_wait := cons_wait c @ [Wake]\<rparr>, Ok ()))
               else Core_commit_send_loop sched c idx (enqueue_pos c))
            else Core_commit_send_loop sched c idx (enqueue_pos c)))"

definition Core_commit_send ::
  "bool list \<Rightarrow> ('e, 'ia, 'z) core_scheme \<Rightarrow> u8 \<Rightarrow> (('e, 'ia, 'z) core_scheme \<times> (('e, unit) SendError + unit)) outcome" where
  "Core_commit_send sched c idx =
     (if ucast idx \<le> MASK then Core_commit_send_loop sched c idx (enqueue_pos c) else Panic)"

text \<open>
  A \<open>Reservation\<close> is an index that its holder owns. Committing it forgets the destructor; any
  other end of the reservation runs it and frees the index.
\<close>

definition Reservation_commit_send ::
  "bool list \<Rightarrow> ('e, 'ia, 'z) core_scheme \<Rightarrow> u8 \<Rightarrow> (('e, 'ia, 'z) core_scheme \<times> (('e, unit) SendError + unit)) outcome" where
  "Reservation_commit_send sched c idx = Core_commit_send sched c idx"

definition Reservation_drop :: "'ia index_ops \<Rightarrow> ('e, 'ia, 'z) core_scheme \<Rightarrow> u8 \<Rightarrow> ('e, 'ia, 'z) core_scheme" where
  "Reservation_drop io c idx = Core_uncommit io c idx"

end
