(* ===== verification/Core_Invariant.thy ===== *)
theory Core_Invariant
  imports Channel_Core
begin

section \<open>The channel core as a bounded FIFO\<close>

text \<open>
  The representation predicate of the ring buffer, and what each operation of
  \<open>Channel_Core\<close> does to it. A position word holds a 10-bit position above a CLOSED bit; the
  slot at position \<open>p\<close> holds the 10-bit sequence number \<open>p\<close> while it is free and \<open>p + 1\<close>,
  with the message's index below it, once a message is committed there.
\<close>

subsection \<open>Bit layout\<close>

lemma trailing_ones_63: "trailing_ones 63 = 6"
  by code_simp

lemma MASK_value [pos_consts]: "MASK = 63"
  by (simp add: MASK_def MAX_CAPACITY_def)

lemma POS_SHIFT_value [pos_consts]: "POS_SHIFT = 6"
  by (simp add: POS_SHIFT_def MASK_value trailing_ones_63)

lemma POS_ONE_value [pos_consts]: "POS_ONE = 64"
  by (simp add: POS_ONE_def POS_SHIFT_value push_bit_eq_mult)

lemma LAP_ONE_value [pos_consts]: "LAP_ONE = 4032"
  by (simp add: LAP_ONE_def POS_SHIFT_value MASK_value push_bit_eq_mult)

lemma CLOSED_value [pos_consts]: "CLOSED = 1"
  by (simp add: CLOSED_def)

lemma unat_pos [layout_simps]: "unat (drop_bit POS_SHIFT (w :: u16)) = unat w div 64"
  by (simp add: POS_SHIFT_value unat_drop)

lemma MASK_mask: "MASK = mask 6"
  by (simp add: MASK_value mask_eq_exp_minus_1)

lemma unat_index [layout_simps]: "unat (w AND MASK) = unat w mod 64"
  unfolding MASK_mask unat_and_mask by simp

lemma unat_closed_bit: "unat (w AND CLOSED) = unat w mod 2"
  unfolding CLOSED_value using unat_and_mask [of w 1] by simp

lemma closed_iff [layout_simps]: "(w AND CLOSED = CLOSED) \<longleftrightarrow> odd (unat w)"
  using unat_closed_bit [of w] by (metis CLOSED_value odd_iff_mod_2_eq_one unat_1 word_unat_eq_iff)

lemma closed_iff' [layout_simps]: "(w AND CLOSED = 0) \<longleftrightarrow> even (unat w)"
  using unat_closed_bit [of w] by (metis even_iff_mod_2_eq_zero unat_eq_zero)

lemma unat_close [layout_simps]: "unat (w OR CLOSED) = unat w + of_bool (even (unat w))"
  by (simp only: CLOSED_value unat_or_one)

subsection \<open>The representation predicate\<close>

text \<open>
  \<open>slot_holds v p None\<close>: the slot word \<open>v\<close> is free for position \<open>p\<close>;
  \<open>slot_holds v p (Some i)\<close>: it holds the message index \<open>i\<close> committed at \<open>p\<close>.
\<close>

fun slot_holds :: "nat \<Rightarrow> nat \<Rightarrow> u8 option \<Rightarrow> bool" where
  "slot_holds v p None = (v div 64 = p mod 1024)"
| "slot_holds v p (Some i) = (v = 64 * ((p + 1) mod 1024) + unat i)"

definition queued_at :: "u8 list \<Rightarrow> nat \<Rightarrow> u8 option" where
  "queued_at q k = (if k < length q then Some (q ! k) else None)"

definition core_rep :: "('e, 'ia, 'z) core_scheme \<Rightarrow> nat \<Rightarrow> u8 list \<Rightarrow> bool \<Rightarrow> bool \<Rightarrow> bool" where
  "core_rep c d q tx_closed rx_closed \<longleftrightarrow>
     d < 1024 \<and> length q \<le> 64 \<and> length (queue c) = 64 \<and> (\<forall>i \<in> set q. unat i < 64) \<and>
     unat (dequeue_pos c) = 64 * d + of_bool tx_closed \<and>
     unat (enqueue_pos c) = 64 * ((d + length q) mod 1024) + of_bool rx_closed \<and>
     (\<forall>k < 64. slot_holds (unat (queue c ! ((d + k) mod 64))) (d + k) (queued_at q k))"

lemma core_repD:
  assumes "core_rep c d q tx rx"
  shows "d < 1024" "length q \<le> 64" "length (queue c) = 64" "\<And>i. i \<in> set q \<Longrightarrow> unat i < 64"
    "unat (dequeue_pos c) = 64 * d + of_bool tx"
    "unat (enqueue_pos c) = 64 * ((d + length q) mod 1024) + of_bool rx"
    "\<And>k. k < 64 \<Longrightarrow> slot_holds (unat (queue c ! ((d + k) mod 64))) (d + k) (queued_at q k)"
  using assms by (simp_all add: core_rep_def)

text \<open>The word arithmetic of one iteration of the dequeue loop.\<close>

lemma rep_dequeue_pos:
  assumes "core_rep c d q tx rx"
  shows "unat (drop_bit POS_SHIFT (dequeue_pos c)) = d"
    and "unat (drop_bit POS_SHIFT (dequeue_pos c) AND MASK) = d mod 64"
    and "(dequeue_pos c AND CLOSED = 0) \<longleftrightarrow> \<not> tx"
  using core_repD(1,5) [OF assms] by (auto simp: layout_simps)

lemma rep_head_slot:
  assumes "core_rep c d q tx rx"
  shows "slot_holds (unat (queue c ! (d mod 64))) d (queued_at q 0)"
  using core_repD(7) [OF assms, of 0] by simp

lemma pos_succ: "unat (p :: u16) < 1024 \<Longrightarrow> unat (p + 1) = unat p + 1"
  by (simp add: unat_word_ariths)

text \<open>
  The sequence number a dequeue compares with: \<open>pos + 1\<close> is computed without wrapping at the
  ten bits a slot has for it.
\<close>

lemma rep_dequeue_dif:
  assumes "core_rep c d q tx rx"
  defines "pos \<equiv> drop_bit POS_SHIFT (dequeue_pos c)"
  defines "dif \<equiv> drop_bit POS_SHIFT (queue c ! unat (pos AND MASK)) - (pos + 1)"
  shows "sint dif = (if q = [] then -1 else if d = 1023 then -1024 else 0)"
proof -
  have d: "d < 1024" and pos: "unat pos = d" and slot: "unat (pos AND MASK) = d mod 64"
    using assms(1) by (auto simp: pos_def core_repD rep_dequeue_pos)
  have succ: "unat (pos + 1) = d + 1" using d pos by (simp add: pos_succ)
  let ?v = "queue c ! (d mod 64)"
  have small: "unat (drop_bit POS_SHIFT ?v) < 32768"
    using unat_u16_less [of ?v] by (simp add: layout_simps)
  have "sint dif = int (unat ?v div 64) - int (d + 1)"
    unfolding dif_def slot using small succ d
    by (subst sint_dif) (simp_all add: layout_simps)
  moreover have "unat ?v div 64 = (if q = [] then d else if d = 1023 then 0 else d + 1)"
  proof (cases q)
    case Nil
    then show ?thesis using rep_head_slot [OF assms(1)] d by (simp add: queued_at_def)
  next
    case (Cons i q')
    then have "unat ?v = 64 * ((d + 1) mod 1024) + unat i"
      using rep_head_slot [OF assms(1)] by (simp add: queued_at_def)
    moreover have "unat i < 64" using assms(1) Cons by (auto dest: core_repD(4))
    ultimately have "unat ?v div 64 = (d + 1) mod 1024" by simp
    with Cons d show ?thesis by (auto simp: mod_Suc)
  qed
  ultimately show ?thesis by auto
qed

subsection \<open>Dequeuing\<close>

definition recv_closed_error :: "('e, 'ia, 'z) core_scheme \<Rightarrow> 'e TryRecvError" where
  "recv_closed_error c =
     (case Core_close_reason c of
        Some e \<Rightarrow> TryRecvError_Error e | None \<Rightarrow> TryRecvError_Disconnected)"

text \<open>An empty queue, and any queue once the receiver has reached position 1023.\<close>

lemma try_dequeue_nothing:
  assumes rep: "core_rep c d q tx rx" and "q = [] \<or> d = 1023" and "sched \<noteq> []"
  shows "Core_try_dequeue sched c =
     Done (c, Err (if tx then recv_closed_error c else TryRecvError_Empty))"
proof -
  from \<open>sched \<noteq> []\<close> obtain ok rest where [simp]: "sched = ok # rest" by (cases sched) auto
  show ?thesis
    using rep_dequeue_dif [OF rep] rep_dequeue_pos(3) [OF rep] assms(2)
    by (auto simp: Core_try_dequeue_def Let_def recv_closed_error_def)
qed

definition Core_dequeued :: "('e, 'ia, 'z) core_scheme \<Rightarrow> ('e, 'ia, 'z) core_scheme" where
  "Core_dequeued c =
     (let slot = unat (drop_bit POS_SHIFT (dequeue_pos c) AND MASK)
      in c\<lparr>dequeue_pos := dequeue_pos c + POS_ONE,
           queue := (queue c)[slot := queue c ! slot + LAP_ONE]\<rparr>)"

lemma try_dequeue_loop_head:
  assumes rep: "core_rep c d (i # q) tx rx" and d: "d \<noteq> 1023" and "True \<in> set sched"
  shows "Core_try_dequeue_loop sched c (dequeue_pos c) = Done (Core_dequeued c, Ok i)"
  using \<open>True \<in> set sched\<close>
proof (induction sched)
  case Nil
  then show ?case by simp
next
  case (Cons ok sched)
  let ?slot = "unat (drop_bit POS_SHIFT (dequeue_pos c) AND MASK)"
  have zero: "drop_bit POS_SHIFT (queue c ! ?slot) - (drop_bit POS_SHIFT (dequeue_pos c) + 1) = 0"
    using rep_dequeue_dif [OF rep] d by (metis list.distinct(1) signed_eq_0_iff)
  have idx: "ucast (queue c ! ?slot AND MASK) = i"
  proof -
    have "unat (queue c ! ?slot) = 64 * ((d + 1) mod 1024) + unat i"
      using rep_head_slot [OF rep] rep_dequeue_pos(2) [OF rep] by (simp add: queued_at_def)
    moreover have "unat i < 64" using rep by (auto dest: core_repD(4))
    ultimately have "unat (queue c ! ?slot AND MASK) = unat i" by (simp add: layout_simps)
    with unat_u8_less [of i] have "unat (ucast (queue c ! ?slot AND MASK) :: u8) = unat i"
      by (simp only: unat_ucast_u8 mod_less)
    then show ?thesis by (rule word_unat_eq_iff [THEN iffD2])
  qed
  show ?case
    using Cons zero idx by (cases ok) (auto simp: Let_def Core_dequeued_def)
qed

lemma Core_dequeued_rep:
  assumes rep: "core_rep c d (i # q) tx rx" and d: "d \<noteq> 1023"
  shows "core_rep (Core_dequeued c) (d + 1) q tx rx"
proof -
  note R = core_repD [OF rep]
  have slot: "unat (drop_bit POS_SHIFT (dequeue_pos c) AND MASK) = d mod 64"
    by (rule rep_dequeue_pos(2) [OF rep])
  have deq: "unat (dequeue_pos c + POS_ONE) = 64 * (d + 1) + of_bool tx"
    using R(1,5) d by (simp add: POS_ONE_value unat_word_ariths)
  have holds: "slot_holds (unat ((queue c)[d mod 64 := queue c ! (d mod 64) + LAP_ONE] !
        ((d + 1 + k) mod 64))) (d + 1 + k) (queued_at q k)" if k: "k < 64" for k
  proof (cases "k = 63")
    case True
    have "unat (queue c ! (d mod 64)) = 64 * (d + 1) + unat i"
      using R(1) d rep_head_slot [OF rep] by (simp add: queued_at_def)
    then have "unat (queue c ! (d mod 64)) + unat LAP_ONE = 64 * (d + 64) + unat i"
      by (simp add: LAP_ONE_value)
    then have "unat (queue c ! (d mod 64) + LAP_ONE) = (64 * (d + 64) + unat i) mod 65536"
      by (simp only: unat_add_u16)
    moreover have "unat i < 64" using R(4) by simp
    ultimately have "unat (queue c ! (d mod 64) + LAP_ONE) div 64 = (d + 64) mod 1024"
      by (simp only: lap_word)
    moreover have "queued_at q k = None" using R(2) True by (simp add: queued_at_def)
    moreover have "(d + 1 + k) mod 64 = d mod 64" using True by simp
    ultimately show ?thesis using True R(3) by (simp add: add.commute)
  next
    case False
    with k have k': "Suc k < 64" by simp
    have "(d + 1 + k) mod 64 \<noteq> d mod 64"
      using same_residue_iff [of "Suc k" 64 0 d] k' by simp
    moreover have "queued_at (i # q) (Suc k) = queued_at q k" by (simp add: queued_at_def)
    ultimately show ?thesis using R(7) [OF k'] by simp
  qed
  have "\<forall>k < 64. slot_holds (unat (queue (Core_dequeued c) ! ((d + 1 + k) mod 64))) (d + 1 + k)
      (queued_at q k)"
    using holds by (simp only: Core_dequeued_def Let_def slot) simp
  with R(1-4,6) deq d show ?thesis
    unfolding core_rep_def by (simp add: Core_dequeued_def Let_def)
qed

lemma Core_dequeued_frame [simp]:
  "cons_wait (Core_dequeued c) = cons_wait c" "prod_wait (Core_dequeued c) = prod_wait c"
  "enqueue_pos (Core_dequeued c) = enqueue_pos c" "indices (Core_dequeued c) = indices c"
  "state (Core_dequeued c) = state c" "capacity (Core_dequeued c) = capacity c"
  "error (Core_dequeued c) = error c"
  by (simp_all add: Core_dequeued_def Let_def)

lemma try_dequeue_some:
  assumes "core_rep c d (i # q) tx rx" and "d \<noteq> 1023" and "True \<in> set sched"
  shows "Core_try_dequeue sched c = Done (Core_dequeued c, Ok i)"
  unfolding Core_try_dequeue_def using assms by (rule try_dequeue_loop_head)

subsection \<open>Committing a send\<close>

definition send_closed_error :: "('e, 'ia, 'z) core_scheme \<Rightarrow> ('e, unit) SendError" where
  "send_closed_error c =
     (case Core_close_reason c of
        Some e \<Rightarrow> SendError_Error () e | None \<Rightarrow> SendError_Disconnected ())"

lemma rep_enqueue_pos:
  assumes "core_rep c d q tx rx"
  shows "unat (drop_bit POS_SHIFT (enqueue_pos c)) = (d + length q) mod 1024"
    and "unat (drop_bit POS_SHIFT (enqueue_pos c) AND MASK) = (d + length q) mod 64"
    and "(enqueue_pos c AND CLOSED = CLOSED) \<longleftrightarrow> rx"
  using core_repD(6) [OF assms] by (auto simp: layout_simps mod_mod_cancel)

lemma commit_send_closed:
  assumes rep: "core_rep c d q tx True" and "unat idx < 64" and "sched \<noteq> []"
  shows "Core_commit_send sched c idx = Done (c, Err (send_closed_error c))"
proof -
  from \<open>sched \<noteq> []\<close> obtain ok rest where "sched = ok # rest" by (cases sched) auto
  moreover have "ucast idx \<le> MASK"
    using assms(2) by (simp add: word_le_nat_alt unat_ucast_u16 MASK_value)
  ultimately show ?thesis
    using rep_enqueue_pos(3) [OF rep] by (simp add: Core_commit_send_def send_closed_error_def)
qed

definition Core_committed :: "('e, 'ia, 'z) core_scheme \<Rightarrow> u8 \<Rightarrow> ('e, 'ia, 'z) core_scheme" where
  "Core_committed c idx =
     (let pos = drop_bit POS_SHIFT (enqueue_pos c); slot = unat (pos AND MASK)
      in c\<lparr>enqueue_pos := enqueue_pos c + POS_ONE,
           queue := (queue c)[slot := ucast idx OR push_bit POS_SHIFT (pos + 1)],
           cons_wait := cons_wait c @ [Wake]\<rparr>)"

lemma rep_tail_free:
  assumes rep: "core_rep c d q tx rx" and "length q < 64"
  shows "drop_bit POS_SHIFT (queue c ! unat (drop_bit POS_SHIFT (enqueue_pos c) AND MASK)) =
     drop_bit POS_SHIFT (enqueue_pos c)"
proof -
  have "slot_holds (unat (queue c ! ((d + length q) mod 64))) (d + length q) None"
    using core_repD(7) [OF rep \<open>length q < 64\<close>] by (simp add: queued_at_def)
  then have "unat (drop_bit POS_SHIFT (queue c ! ((d + length q) mod 64))) = (d + length q) mod 1024"
    by (simp add: unat_pos)
  then show ?thesis
    unfolding rep_enqueue_pos(2) [OF rep] word_unat_eq_iff rep_enqueue_pos(1) [OF rep] .
qed

lemma commit_send_open:
  assumes rep: "core_rep c d q tx False" and "length q < 64" and idx: "unat idx < 64"
    and "True \<in> set sched"
  shows "Core_commit_send sched c idx = Done (Core_committed c idx, Ok ())"
proof -
  have "Core_commit_send_loop sched c idx (enqueue_pos c) = Done (Core_committed c idx, Ok ())"
    using \<open>True \<in> set sched\<close>
  proof (induction sched)
    case Nil
    then show ?case by simp
  next
    case (Cons ok sched)
    then show ?case
      using rep_enqueue_pos(3) [OF rep] rep_tail_free [OF rep \<open>length q < 64\<close>]
      by (cases ok) (auto simp: Let_def Core_committed_def)
  qed
  moreover have "ucast idx \<le> MASK"
    using idx by (simp add: word_le_nat_alt unat_ucast_u16 MASK_value)
  ultimately show ?thesis by (simp add: Core_commit_send_def)
qed

text \<open>The slot word a commit stores: the index below the next sequence number.\<close>

lemma unat_commit_word:
  assumes "unat (idx :: u8) < 64" and "unat (pos :: u16) < 1024"
  shows "unat (ucast idx OR push_bit POS_SHIFT (pos + 1) :: u16) =
     64 * ((unat pos + 1) mod 1024) + unat idx"
proof -
  have "unat (push_bit 6 (pos + 1)) = 64 * ((unat pos + 1) mod 1024)"
    using lap_word [of 0 "unat pos + 1"] assms(2) by (simp only: unat_push6 pos_succ) simp
  then show ?thesis
    using nat_or_disjoint [of "unat idx" 6 "(unat pos + 1) mod 1024"] assms(1)
    by (simp only: unsigned_or_eq unat_ucast_u16 POS_SHIFT_value) simp
qed

lemma Core_committed_rep:
  assumes rep: "core_rep c d q tx False" and len: "length q < 64" and idx: "unat idx < 64"
  shows "core_rep (Core_committed c idx) d (q @ [idx]) tx False"
proof -
  note R = core_repD [OF rep]
  let ?p = "d + length q"
  let ?w = "ucast idx OR push_bit POS_SHIFT (drop_bit POS_SHIFT (enqueue_pos c) + 1) :: u16"
  have w: "unat ?w = 64 * ((?p + 1) mod 1024) + unat idx"
    using unat_commit_word [OF idx, of "drop_bit POS_SHIFT (enqueue_pos c)"]
    by (simp only: rep_enqueue_pos(1) [OF rep] mod_less_divisor) (simp add: mod_simps)
  have "unat (enqueue_pos c) + unat POS_ONE = 64 * (?p mod 1024 + 1) + 0"
    using R(6) by (simp add: POS_ONE_value)
  then have "unat (enqueue_pos c + POS_ONE) = (64 * (?p mod 1024 + 1) + 0) mod 65536"
    by (simp only: unat_add_u16)
  then have enq: "unat (enqueue_pos c + POS_ONE) = 64 * ((?p + 1) mod 1024)"
    by (simp only: lap_word) (simp add: mod_Suc_eq)
  have holds: "slot_holds (unat ((queue c)[?p mod 64 := ?w] ! ((d + k) mod 64))) (d + k)
      (queued_at (q @ [idx]) k)" if k: "k < 64" for k
  proof (cases "k = length q")
    case True
    then show ?thesis using R(3) w by (simp add: queued_at_def)
  next
    case False
    then have "(d + k) mod 64 \<noteq> ?p mod 64" using same_residue_iff [OF k len, of d] by simp
    moreover have "queued_at (q @ [idx]) k = queued_at q k"
      using False by (auto simp: queued_at_def nth_append)
    ultimately show ?thesis using R(7) [OF k] by simp
  qed
  with R enq len idx show ?thesis
    by (auto simp: core_rep_def Core_committed_def Let_def rep_enqueue_pos(2) [OF rep])
qed

lemma Core_committed_frame [simp]:
  "dequeue_pos (Core_committed c idx) = dequeue_pos c" "indices (Core_committed c idx) = indices c"
  "cons_wait (Core_committed c idx) = cons_wait c @ [Wake]"
  "prod_wait (Core_committed c idx) = prod_wait c" "state (Core_committed c idx) = state c"
  "capacity (Core_committed c idx) = capacity c" "error (Core_committed c idx) = error c"
  by (simp_all add: Core_committed_def Let_def)

subsection \<open>What the words of a core say\<close>

text \<open>The abstraction functions: the receiver's position, the queued indices, the closed bits.\<close>

definition Core_head :: "('e, 'ia, 'z) core_scheme \<Rightarrow> nat" where
  "Core_head c = unat (dequeue_pos c) div 64"

definition Core_tail :: "('e, 'ia, 'z) core_scheme \<Rightarrow> nat" where
  "Core_tail c = unat (enqueue_pos c) div 64"

definition Core_queued :: "('e, 'ia, 'z) core_scheme \<Rightarrow> u8 list" where
  "Core_queued c =
     map (\<lambda>k. ucast (queue c ! ((Core_head c + k) mod 64) AND MASK))
       [0..<(Core_tail c + 1024 - Core_head c) mod 1024]"

definition tx_closed :: "('e, 'ia, 'z) core_scheme \<Rightarrow> bool" where
  "tx_closed c = odd (unat (dequeue_pos c))"

definition rx_closed :: "('e, 'ia, 'z) core_scheme \<Rightarrow> bool" where
  "rx_closed c = odd (unat (enqueue_pos c))"

definition core_wf :: "('e, 'ia, 'z) core_scheme \<Rightarrow> bool" where
  "core_wf c \<longleftrightarrow> core_rep c (Core_head c) (Core_queued c) (tx_closed c) (rx_closed c)"

lemma ring_distance: "d < 1024 \<Longrightarrow> n \<le> 64 \<Longrightarrow> ((d + n) mod 1024 + 1024 - d) mod 1024 = (n :: nat)"
  by (cases "d + n < 1024") (simp_all add: mod_if)

lemma core_rep_abs:
  assumes "core_rep c d q tx rx"
  shows "Core_head c = d" "Core_queued c = q" "tx_closed c = tx" "rx_closed c = rx"
proof -
  note R = core_repD [OF assms]
  show head: "Core_head c = d" using R(5) by (simp add: Core_head_def)
  have tail: "Core_tail c = (d + length q) mod 1024" using R(6) by (simp add: Core_tail_def)
  have n: "(Core_tail c + 1024 - d) mod 1024 = length q"
    unfolding tail using R(1,2) by (rule ring_distance)
  have "ucast (queue c ! ((d + k) mod 64) AND MASK) = q ! k" if k: "k < length q" for k
  proof -
    have "unat (queue c ! ((d + k) mod 64)) = 64 * ((d + k + 1) mod 1024) + unat (q ! k)"
      using R(2) R(7) [of k] k by (simp add: queued_at_def)
    moreover have "unat (q ! k) < 64" using R(4) k by simp
    ultimately have "unat (ucast (queue c ! ((d + k) mod 64) AND MASK) :: u8) = unat (q ! k)"
      by (simp add: layout_simps unat_ucast_u8)
    then show ?thesis by (rule word_unat_eq_iff [THEN iffD2])
  qed
  then show "Core_queued c = q"
    unfolding Core_queued_def head n by (intro nth_equalityI) simp_all
  show "tx_closed c = tx" "rx_closed c = rx"
    using R(5,6) by (simp_all add: tx_closed_def rx_closed_def)
qed

lemma core_rep_wf: "core_rep c d q tx rx \<Longrightarrow> core_wf c"
  by (simp add: core_wf_def core_rep_abs)

lemma core_wf_rep: "core_wf c \<Longrightarrow> core_rep c (Core_head c) (Core_queued c) (tx_closed c) (rx_closed c)"
  by (simp add: core_wf_def)

text \<open>The predicate looks at the positions and the slots only.\<close>

lemma core_rep_cong:
  assumes "dequeue_pos c' = dequeue_pos c" "enqueue_pos c' = enqueue_pos c" "queue c' = queue c"
  shows "core_rep c' d q tx rx = core_rep c d q tx rx"
  using assms by (simp add: core_rep_def)

lemma core_rep_close:
  assumes "core_rep c d q tx rx"
  shows "core_rep (Core_close_rx c) d q tx True" and "core_rep (Core_close_tx c) d q True rx"
  using assms
  by (auto simp: core_rep_def Core_close_rx_def Core_close_tx_def unat_close split: if_splits)

lemma Core_new_rep:
  assumes "Core_new io cap = Done c"
  shows "core_rep c 0 [] False False"
proof -
  have "unat (push_bit POS_SHIFT (of_nat k) :: u16) = 64 * k" if "k < 64" for k
    using that by (simp add: POS_SHIFT_value unat_push6 unat_of_nat)
  with assms show ?thesis
    by (auto simp: Core_new_def core_rep_def queued_at_def MAX_CAPACITY_def split: if_splits)
qed

end
