(* ===== verification/Core_State.thy ===== *)
theory Core_State
  imports Core_Invariant
begin

section \<open>The sender count, the closed bits and the error of a core\<close>

text \<open>
  The state word of a core: the receiver-claimed bit, the two error bits and, above them, the
  number of sender handles. The invariant \<open>core_inv\<close> ties it to the CLOSED bits and to the error
  cell, and every operation keeps it.
\<close>

subsection \<open>Layout of the state word\<close>

definition st_count :: "usize \<Rightarrow> nat" where
  "st_count w = unat (drop_bit TX_SHIFT w)"

definition tx_count :: "('e, 'ia, 'z) core_scheme \<Rightarrow> nat" where
  "tx_count c = st_count (state c)"

definition rx_claimed :: "('e, 'ia, 'z) core_scheme \<Rightarrow> bool" where
  "rx_claimed c = bit (state c) 0"

definition erroring :: "('e, 'ia, 'z) core_scheme \<Rightarrow> bool" where
  "erroring c = bit (state c) 1"

definition errored :: "('e, 'ia, 'z) core_scheme \<Rightarrow> bool" where
  "errored c = bit (state c) 2"

lemmas state_bits = tx_count_def rx_claimed_def erroring_def errored_def

lemma TX_ONE_value [pos_consts]: "TX_ONE = 8"
  by (simp add: TX_ONE_def TX_SHIFT_def push_bit_eq_mult)

lemma flag_bit: "bit (push_bit n 1 :: usize) m \<longleftrightarrow> m = n \<and> n < 64"
  by (auto simp: bit_exp_iff)

lemma and_flag_zero: "n < 64 \<Longrightarrow> (w AND push_bit n 1 = (0 :: usize)) \<longleftrightarrow> \<not> bit w n"
  by (metis and_exp_eq_0_iff_not_bit push_bit_of_1)

lemma flag_clear_iff [layout_simps]:
  "(w AND RX_CLAIMED = 0) \<longleftrightarrow> \<not> bit w 0"
  "(w AND ERRORED = 0) \<longleftrightarrow> \<not> bit w 2"
  "(w AND (ERRORING OR ERRORED) = 0) \<longleftrightarrow> \<not> bit w 1 \<and> \<not> bit w 2"
proof -
  show "(w AND RX_CLAIMED = 0) \<longleftrightarrow> \<not> bit w 0" "(w AND ERRORED = 0) \<longleftrightarrow> \<not> bit w 2"
    unfolding RX_CLAIMED_def ERRORED_def by (rule and_flag_zero; simp)+
  have "(w AND (ERRORING OR ERRORED) = 0) \<longleftrightarrow> w AND ERRORING = 0 \<and> w AND ERRORED = 0"
    unfolding bit.conj_disj_distrib by (simp add: or_eq_0_iff)
  then show "(w AND (ERRORING OR ERRORED) = 0) \<longleftrightarrow> \<not> bit w 1 \<and> \<not> bit w 2"
    unfolding ERRORING_def ERRORED_def by (simp only: and_flag_zero)
qed

lemma bit_set_flag [layout_simps]:
  "bit (w OR RX_CLAIMED) n = (bit w n \<or> n = 0)"
  "bit (w OR ERRORING) n = (bit w n \<or> n = 1)"
  "bit (w OR ERRORED) n = (bit w n \<or> n = 2)"
  unfolding RX_CLAIMED_def ERRORING_def ERRORED_def bit_or_iff flag_bit by auto

lemma drop_set_flag:
  "drop_bit TX_SHIFT (w OR RX_CLAIMED) = drop_bit TX_SHIFT w"
  "drop_bit TX_SHIFT (w OR ERRORING) = drop_bit TX_SHIFT w"
  "drop_bit TX_SHIFT (w OR ERRORED) = drop_bit TX_SHIFT w"
  unfolding TX_SHIFT_def by (rule bit_word_eqI, simp only: bit_drop_bit_eq o_apply bit_set_flag, simp)+

lemma st_count_set_flag [layout_simps]:
  "st_count (w OR RX_CLAIMED) = st_count w"
  "st_count (w OR ERRORING) = st_count w"
  "st_count (w OR ERRORED) = st_count w"
  unfolding st_count_def drop_set_flag by (rule refl)+

lemma low_bits_add_tx: "n < 3 \<Longrightarrow> bit (w + 8 :: usize) n = bit w n"
proof -
  assume n: "n < 3"
  have "unat (w + 8) mod 8 = unat w mod 8"
    by (simp add: unat_word_ariths mod_mod_cancel)
  then have "unat (take_bit 3 (w + 8)) = unat (take_bit 3 w)"
    by (simp add: take_bit_eq_mod unat_mod)
  then have "take_bit 3 (w + 8) = take_bit 3 w" by (rule word_unat_eq_iff [THEN iffD2])
  with n show ?thesis by (metis bit_take_bit_iff)
qed

lemma low_bits_sub_tx: "n < 3 \<Longrightarrow> bit (w - 8 :: usize) n = bit w n"
  using low_bits_add_tx [of n "w - 8"] by simp

lemma count_add_tx:
  assumes "st_count w < 2 ^ 61 - 1"
  shows "st_count (w + 8) = st_count w + 1"
proof -
  have "unat w div 8 < 2 ^ 61 - 1" using assms by (simp add: st_count_def TX_SHIFT_def unat_drop)
  then have "unat w + 8 < 2 ^ 64" by simp
  then have "unat (w + 8) = unat w + 8" by (simp add: unat_word_ariths)
  then show ?thesis by (simp add: st_count_def TX_SHIFT_def unat_drop)
qed

lemma count_sub_tx:
  assumes "0 < st_count w"
  shows "st_count (w - 8) = st_count w - 1"
proof -
  have "8 \<le> unat w" using assms by (simp add: st_count_def TX_SHIFT_def unat_drop)
  then have "unat (w - 8) = unat w - 8" by (simp add: unat_sub word_le_nat_alt)
  then show ?thesis by (simp add: st_count_def TX_SHIFT_def unat_drop)
qed

lemma last_sender_iff: "(drop_bit TX_SHIFT w = (1 :: usize)) \<longleftrightarrow> st_count w = 1"
  by (simp add: st_count_def word_unat_eq_iff)

text \<open>The constants as literals, for evaluation.\<close>

declare POS_SHIFT_value [code] MASK_value [code] POS_ONE_value [code] LAP_ONE_value [code]
  CLOSED_value [code] TX_ONE_value [code]

subsection \<open>The invariant\<close>

definition core_inv :: "('e, 'ia, 'z) core_scheme \<Rightarrow> bool" where
  "core_inv c \<longleftrightarrow>
     core_wf c \<and> (erroring c \<longleftrightarrow> errored c) \<and>
     (errored c \<longrightarrow> error c \<noteq> None \<and> tx_closed c \<and> rx_closed c) \<and>
     (tx_closed c \<longleftrightarrow> tx_count c = 0 \<or> errored c)"

lemma core_inv_wf: "core_inv c \<Longrightarrow> core_wf c"
  by (simp add: core_inv_def)

text \<open>What the operations on the state word leave alone.\<close>

lemma core_abs_cong:
  assumes "dequeue_pos c' = dequeue_pos c" "enqueue_pos c' = enqueue_pos c" "queue c' = queue c"
  shows "Core_head c' = Core_head c" "Core_queued c' = Core_queued c"
    "tx_closed c' = tx_closed c" "rx_closed c' = rx_closed c" "core_wf c' = core_wf c"
  using assms
  by (simp_all add: Core_head_def Core_tail_def Core_queued_def tx_closed_def rx_closed_def
      core_wf_def core_rep_def)

lemma close_rx_abs:
  assumes "core_wf c"
  shows "Core_head (Core_close_rx c) = Core_head c" "Core_queued (Core_close_rx c) = Core_queued c"
    "tx_closed (Core_close_rx c) = tx_closed c" "rx_closed (Core_close_rx c)"
    "core_wf (Core_close_rx c)"
  using core_rep_close(1) [OF core_wf_rep [OF assms]]
  by (simp_all add: core_rep_abs core_rep_wf)

lemma close_tx_abs:
  assumes "core_wf c"
  shows "Core_head (Core_close_tx c) = Core_head c" "Core_queued (Core_close_tx c) = Core_queued c"
    "tx_closed (Core_close_tx c)" "rx_closed (Core_close_tx c) = rx_closed c"
    "core_wf (Core_close_tx c)"
  using core_rep_close(2) [OF core_wf_rep [OF assms]]
  by (simp_all add: core_rep_abs core_rep_wf)

lemma close_frame [simp]:
  "state (Core_close_rx c) = state c" "state (Core_close_tx c) = state c"
  "error (Core_close_rx c) = error c" "error (Core_close_tx c) = error c"
  "indices (Core_close_rx c) = indices c" "indices (Core_close_tx c) = indices c"
  "capacity (Core_close_rx c) = capacity c" "capacity (Core_close_tx c) = capacity c"
  by (simp_all add: Core_close_rx_def Core_close_tx_def)

lemma Core_new_abs:
  assumes "Core_new io cap = Done c"
  shows "core_inv c" "Core_queued c = []" "Core_head c = 0" "tx_count c = 1"
    "\<not> tx_closed c" "\<not> rx_closed c" "\<not> rx_claimed c" "\<not> errored c"
    "indices c = ia_with_capacity io cap" "capacity c = cap"
proof -
  note abs = core_rep_abs [OF Core_new_rep [OF assms]]
  show q: "Core_queued c = []" "Core_head c = 0" "\<not> tx_closed c" "\<not> rx_closed c"
    using abs by simp_all
  have st: "state c = 8" and "indices c = ia_with_capacity io cap" "capacity c = cap"
    using assms by (auto simp: Core_new_def TX_ONE_value split: if_splits)
  then show "indices c = ia_with_capacity io cap" "capacity c = cap" by simp_all
  have "st_count 8 = 1" "\<not> bit (8 :: usize) 0" "\<not> bit (8 :: usize) 1" "\<not> bit (8 :: usize) 2"
    by (simp_all add: st_count_def TX_SHIFT_def)
  then show "tx_count c = 1" "\<not> rx_claimed c" "\<not> errored c" and "core_inv c"
    using st q core_rep_wf [OF Core_new_rep [OF assms]] by (simp_all add: core_inv_def state_bits)
qed

lemma core_abs_update [simp]:
  "Core_head (c\<lparr>state := w\<rparr>) = Core_head c" "Core_queued (c\<lparr>state := w\<rparr>) = Core_queued c"
  "tx_closed (c\<lparr>state := w\<rparr>) = tx_closed c" "rx_closed (c\<lparr>state := w\<rparr>) = rx_closed c"
  "core_wf (c\<lparr>state := w\<rparr>) = core_wf c"
  "Core_head (c\<lparr>error := e\<rparr>) = Core_head c" "Core_queued (c\<lparr>error := e\<rparr>) = Core_queued c"
  "tx_closed (c\<lparr>error := e\<rparr>) = tx_closed c" "rx_closed (c\<lparr>error := e\<rparr>) = rx_closed c"
  "core_wf (c\<lparr>error := e\<rparr>) = core_wf c"
  "Core_head (c\<lparr>indices := ia\<rparr>) = Core_head c" "Core_queued (c\<lparr>indices := ia\<rparr>) = Core_queued c"
  "tx_closed (c\<lparr>indices := ia\<rparr>) = tx_closed c" "rx_closed (c\<lparr>indices := ia\<rparr>) = rx_closed c"
  "core_wf (c\<lparr>indices := ia\<rparr>) = core_wf c"
  "Core_head (c\<lparr>prod_wait := l\<rparr>) = Core_head c" "Core_queued (c\<lparr>prod_wait := l\<rparr>) = Core_queued c"
  "tx_closed (c\<lparr>prod_wait := l\<rparr>) = tx_closed c" "rx_closed (c\<lparr>prod_wait := l\<rparr>) = rx_closed c"
  "core_wf (c\<lparr>prod_wait := l\<rparr>) = core_wf c"
  by (rule core_abs_cong; simp)+

subsection \<open>Every operation keeps the invariant\<close>

lemma Core_try_claim_rx_inv: "core_inv c \<Longrightarrow> core_inv (fst (Core_try_claim_rx c))"
  by (simp add: Core_try_claim_rx_def Let_def core_inv_def state_bits layout_simps)

lemma Core_close_rx_inv: "core_inv c \<Longrightarrow> core_inv (Core_close_rx c)"
  by (simp add: core_inv_def close_rx_abs state_bits)

lemma Core_close_with_error_inv: "core_inv c \<Longrightarrow> core_inv (fst (Core_close_with_error c e))"
  by (auto simp: Core_close_with_error_def Let_def core_inv_def state_bits layout_simps
      close_rx_abs close_tx_abs)

lemma Core_add_tx_inv:
  assumes "core_inv c" and "0 < tx_count c" and "tx_count c < 2 ^ 61 - 1"
  shows "core_inv (Core_add_tx c)" and "tx_count (Core_add_tx c) = tx_count c + 1"
  using assms by (simp_all add: Core_add_tx_def TX_ONE_value low_bits_add_tx count_add_tx
      state_bits core_inv_def)

lemma Core_drop_tx_state:
  "state (Core_drop_tx c) = state c - 8"
  by (simp add: Core_drop_tx_def Let_def TX_ONE_value)

lemma Core_drop_tx_inv:
  assumes "core_inv c" and "0 < tx_count c"
  shows "core_inv (Core_drop_tx c)" and "tx_count (Core_drop_tx c) = tx_count c - 1"
proof -
  show "tx_count (Core_drop_tx c) = tx_count c - 1"
    using assms(2) by (simp add: tx_count_def Core_drop_tx_state count_sub_tx)
  show "core_inv (Core_drop_tx c)"
    using assms
    by (auto simp: Core_drop_tx_def Let_def TX_ONE_value last_sender_iff core_inv_def state_bits
        low_bits_sub_tx count_sub_tx close_tx_abs)
qed

text \<open>The operations on the ring buffer leave the state word and the error cell alone.\<close>

lemma core_inv_frame:
  assumes "core_inv c" "core_wf c'" "state c' = state c" "error c' = error c"
    "tx_closed c' = tx_closed c" "rx_closed c' = rx_closed c"
  shows "core_inv c'"
  using assms by (simp add: core_inv_def state_bits)

lemma core_inv_update [simp]:
  "core_inv (c\<lparr>indices := ia\<rparr>) = core_inv c" "core_inv (c\<lparr>prod_wait := l\<rparr>) = core_inv c"
  by (simp_all add: core_inv_def state_bits)

lemma Core_uncommit_abs [simp]:
  "core_inv (Core_uncommit io c i) = core_inv c" "core_wf (Core_uncommit io c i) = core_wf c"
  "Core_queued (Core_uncommit io c i) = Core_queued c"
  "Core_head (Core_uncommit io c i) = Core_head c"
  "tx_closed (Core_uncommit io c i) = tx_closed c" "rx_closed (Core_uncommit io c i) = rx_closed c"
  "state (Core_uncommit io c i) = state c" "error (Core_uncommit io c i) = error c"
  "capacity (Core_uncommit io c i) = capacity c"
  "indices (Core_uncommit io c i) = ia_free io i (indices c)"
  by (simp_all add: Core_uncommit_def)

lemma Core_dequeued_abs:
  assumes "core_wf c" "Core_queued c = i # q" "Core_head c \<noteq> 1023"
  shows "core_wf (Core_dequeued c)" "Core_queued (Core_dequeued c) = q"
    "Core_head (Core_dequeued c) = Core_head c + 1" "tx_closed (Core_dequeued c) = tx_closed c"
    "rx_closed (Core_dequeued c) = rx_closed c" "core_inv c \<Longrightarrow> core_inv (Core_dequeued c)"
proof -
  have "core_rep (Core_dequeued c) (Core_head c + 1) q (tx_closed c) (rx_closed c)"
    using core_wf_rep [OF assms(1)] assms(2,3) by (intro Core_dequeued_rep) simp_all
  note abs = core_rep_abs [OF this] core_rep_wf [OF this]
  show "core_wf (Core_dequeued c)" "Core_queued (Core_dequeued c) = q"
    "Core_head (Core_dequeued c) = Core_head c + 1" "tx_closed (Core_dequeued c) = tx_closed c"
    "rx_closed (Core_dequeued c) = rx_closed c"
    by (rule abs)+
  show "core_inv c \<Longrightarrow> core_inv (Core_dequeued c)"
    using abs by (auto intro: core_inv_frame)
qed

lemma Core_committed_abs:
  assumes "core_wf c" "\<not> rx_closed c" "length (Core_queued c) < 64" "unat i < 64"
  shows "core_wf (Core_committed c i)" "Core_queued (Core_committed c i) = Core_queued c @ [i]"
    "Core_head (Core_committed c i) = Core_head c" "tx_closed (Core_committed c i) = tx_closed c"
    "rx_closed (Core_committed c i) = rx_closed c" "core_inv c \<Longrightarrow> core_inv (Core_committed c i)"
proof -
  have "core_rep (Core_committed c i) (Core_head c) (Core_queued c @ [i]) (tx_closed c) False"
    using core_wf_rep [OF assms(1)] assms(2-) by (intro Core_committed_rep) simp_all
  note abs = core_rep_abs [OF this] core_rep_wf [OF this]
  show "core_wf (Core_committed c i)" "Core_queued (Core_committed c i) = Core_queued c @ [i]"
    "Core_head (Core_committed c i) = Core_head c" "tx_closed (Core_committed c i) = tx_closed c"
    by (rule abs)+
  show rx: "rx_closed (Core_committed c i) = rx_closed c"
    using abs(4) assms(2) by simp
  show "core_inv c \<Longrightarrow> core_inv (Core_committed c i)"
    using abs rx by (auto intro: core_inv_frame)
qed

text \<open>Each operation in terms of the abstraction, on every branch.\<close>

lemma try_dequeue_cases:
  assumes "core_wf c" and "True \<in> set sched"
  shows "Core_try_dequeue sched c =
     (case Core_queued c of
        i # q \<Rightarrow> if Core_head c \<noteq> 1023 then Done (Core_dequeued c, Ok i)
                 else Done (c, Err (if tx_closed c then recv_closed_error c else TryRecvError_Empty))
      | [] \<Rightarrow> Done (c, Err (if tx_closed c then recv_closed_error c else TryRecvError_Empty)))"
proof -
  have "sched \<noteq> []" using assms(2) by auto
  with core_wf_rep [OF assms(1)] show ?thesis
    using assms(2) try_dequeue_nothing [of c _ _ _ _ sched] try_dequeue_some [of c _ _ _ _ _ sched]
    by (auto split: list.split)
qed

lemma commit_send_cases:
  assumes "core_wf c" and "True \<in> set sched" and "length (Core_queued c) < 64" and "unat i < 64"
  shows "Core_commit_send sched c i =
     Done (if rx_closed c then (c, Err (send_closed_error c)) else (Core_committed c i, Ok ()))"
proof -
  have "sched \<noteq> []" using assms(2) by auto
  with core_wf_rep [OF assms(1)] show ?thesis
    using assms(2-) commit_send_closed [of c _ _ _ i sched] commit_send_open [of c _ _ _ i sched]
    by (cases "rx_closed c") auto
qed

lemma try_reserve_cases:
  "Core_try_reserve io c =
     (if rx_closed c then
        (c, Err (case Core_close_reason c of
                   Some e \<Rightarrow> TrySendError_Error () e | None \<Rightarrow> TrySendError_Disconnected ()))
      else (c\<lparr>indices := snd (ia_allocate io (indices c))\<rparr>,
            case fst (ia_allocate io (indices c)) of
              None \<Rightarrow> Err (TrySendError_Full ()) | Some i \<Rightarrow> Ok i))"
  by (simp add: Core_try_reserve_def rx_closed_def layout_simps ok_or_def split_beta)

lemma close_reason_iff:
  assumes "core_inv c"
  shows "Core_close_reason c = (if errored c then error c else None)"
  by (simp add: Core_close_reason_def errored_def layout_simps)

lemma close_with_error_first:
  assumes "core_inv c" "\<not> errored c"
  shows "snd (Core_close_with_error c e)"
    and "tx_closed (fst (Core_close_with_error c e))" "rx_closed (fst (Core_close_with_error c e))"
    and "errored (fst (Core_close_with_error c e))"
    and "error (fst (Core_close_with_error c e)) = Some e"
    and "Core_queued (fst (Core_close_with_error c e)) = Core_queued c"
    and "Core_head (fst (Core_close_with_error c e)) = Core_head c"
    and "tx_count (fst (Core_close_with_error c e)) = tx_count c"
  using assms
  by (simp_all add: Core_close_with_error_def Let_def core_inv_def state_bits layout_simps
      close_rx_abs close_tx_abs)

lemma close_with_error_again:
  assumes "core_inv c" "errored c"
  shows "Core_close_with_error c e = (c, False)"
proof -
  have "state c OR ERRORING = state c"
    using assms by (intro bit_word_eqI) (auto simp: layout_simps core_inv_def state_bits)
  then show ?thesis
    using assms by (simp add: Core_close_with_error_def Let_def core_inv_def state_bits layout_simps)
qed

end
