(* ===== verification/Mpsc.thy ===== *)
theory Mpsc
  imports Core_State
begin

section \<open>Channels and their handles (\<open>mpsc/mod.rs\<close>, \<open>arc_impl.rs\<close>, \<open>static_impl.rs\<close>)\<close>

text \<open>
  A pipe is a core together with the array of message cells, so the record extends that of the
  core and every operation of \<open>Channel_Core\<close> acts on the pipe itself. The handles (\<open>Sender\<close>,
  \<open>Receiver\<close>, their serialising variants, permits) are views of one pipe: an operation takes the
  pipe and returns it updated, next to its result. A permit or a received reference is the index
  it owns. This theory holds the definitions; \<open>Mpsc_Spec\<close> has the invariant and the theorems.

  Message types are erased: \<open>'m\<close> is the type of all messages, \<open>elem_type\<close> the \<open>TypeId\<close> the pipe
  was made with, and an operation of a handle for type \<open>T\<close> takes \<open>T\<close>'s id. The functions of
  \<open>postcard\<close> are the record \<open>postcard\<close>.
\<close>

subsection \<open>Pipes\<close>

type_synonym type_id = nat

text \<open>The memory of a pipe: an \<open>Arc\<close> with its strong count (0 once freed), or a static.\<close>

datatype storage = Arc nat | Static

record ('e, 'ia, 'm) pipe = "('e, 'ia) core" +
  elements :: "'m option list" \<comment> \<open>\<open>None\<close>: the \<open>MaybeUninit\<close> cell holds no value\<close>
  elem_type :: type_id
  elem_type_name :: string
  storage :: storage
  dropped :: "'m list" \<comment> \<open>the messages whose destructor the pipe has run, oldest first\<close>

record ('m, 'x) postcard =
  pc_to_slice :: "'m \<Rightarrow> bytes \<Rightarrow> 'x + bytes"
  pc_to_slice_cobs :: "'m \<Rightarrow> bytes \<Rightarrow> 'x + bytes"
  pc_to_allocvec :: "'m \<Rightarrow> 'x + bytes"
  pc_to_allocvec_cobs :: "'m \<Rightarrow> 'x + bytes"
  pc_from_bytes :: "bytes \<Rightarrow> 'x + 'm"
  pc_from_bytes_cobs :: "bytes \<Rightarrow> 'x + 'm"

text \<open>Indexing a slice panics out of bounds; reading a cell that holds no value is undefined.\<close>

definition cell_ref :: "'m option list \<Rightarrow> u8 \<Rightarrow> 'm outcome" where
  "cell_ref elems idx =
     (if unat idx < length elems
      then (case elems ! unat idx of Some v \<Rightarrow> Done v | None \<Rightarrow> UB)
      else Panic)"

definition cell_at :: "'m option list \<Rightarrow> u8 \<Rightarrow> unit outcome" where
  "cell_at elems idx = (if unat idx < length elems then Done () else Panic)"

definition ErasedSlice_unerase :: "('e, 'ia, 'm) pipe \<Rightarrow> type_id \<Rightarrow> 'm option list outcome" where
  "ErasedSlice_unerase p t = (if elem_type p = t then Done (elements p) else Panic)"

definition TypedPipe_elems :: "type_id \<Rightarrow> ('e, 'ia, 'm) pipe \<Rightarrow> 'm option list outcome" where
  "TypedPipe_elems t p = ErasedSlice_unerase p t"

subsection \<open>Reference counts of the shared allocation\<close>

text \<open>
  \<open>SharedState::drop\<close> empties the channel; each element of the list is the schedule of one call
  of \<open>try_dequeue\<close>.
\<close>

fun SharedState_drop ::
  "'ia index_ops \<Rightarrow> bool list list \<Rightarrow> ('e, 'ia, 'm) pipe \<Rightarrow> ('e, 'ia, 'm) pipe outcome" where
  "SharedState_drop io [] p = Running"
| "SharedState_drop io (sched # scheds) p =
     (case Core_try_dequeue sched p of
        Done (p1, Ok idx) \<Rightarrow>
          (case cell_ref (elements p1) idx of
             Done v \<Rightarrow>
               SharedState_drop io scheds
                 (Reservation_drop io
                    (p1\<lparr>elements := (elements p1)[unat idx := None], dropped := dropped p1 @ [v]\<rparr>) idx)
           | Panic \<Rightarrow> Panic | Running \<Rightarrow> Running | UB \<Rightarrow> UB)
      | Done (p1, Err _) \<Rightarrow> Done p1
      | Panic \<Rightarrow> Panic | Running \<Rightarrow> Running | UB \<Rightarrow> UB)"

definition ErasedPipe_clone :: "('e, 'ia, 'm) pipe \<Rightarrow> ('e, 'ia, 'm) pipe outcome" where
  "ErasedPipe_clone p =
     (case storage p of
        Arc n \<Rightarrow> if n = 0 then UB else Done (p\<lparr>storage := Arc (n + 1)\<rparr>)
      | Static \<Rightarrow> Done p)"

definition ErasedPipe_drop ::
  "'ia index_ops \<Rightarrow> bool list list \<Rightarrow> ('e, 'ia, 'm) pipe \<Rightarrow> ('e, 'ia, 'm) pipe outcome" where
  "ErasedPipe_drop io scheds p =
     (case storage p of
        Arc n \<Rightarrow>
          if n = 0 then UB
          else if n = 1 then SharedState_drop io scheds (p\<lparr>storage := Arc 0\<rparr>)
          else Done (p\<lparr>storage := Arc (n - 1)\<rparr>)
      | Static \<Rightarrow> Done p)"

text \<open>
  \<open>ErasedPipe::typed\<close> takes the handle by value: when the type differs, the handle it was given
  is dropped.
\<close>

definition ErasedPipe_typed ::
  "'ia index_ops \<Rightarrow> bool list list \<Rightarrow> type_id \<Rightarrow> ('e, 'ia, 'm) pipe
    \<Rightarrow> (('e, 'ia, 'm) pipe \<times> bool) outcome" where
  "ErasedPipe_typed io scheds t p =
     (if t = elem_type p then Done (p, True)
      else outcome_map (\<lambda>p'. (p', False)) (ErasedPipe_drop io scheds p))"

subsection \<open>\<open>TrickyPipe\<close> and \<open>StaticTrickyPipe\<close>\<close>

definition TrickyPipe_new ::
  "'ia index_ops \<Rightarrow> type_id \<Rightarrow> string \<Rightarrow> u8 \<Rightarrow> ('e, 'ia, 'm) pipe outcome" where
  "TrickyPipe_new io t name cap =
     outcome_map (\<lambda>c. core.extend c \<lparr>elements = replicate (unat cap) None, elem_type = t,
                         elem_type_name = name, storage = Arc 1, dropped = []\<rparr>)
       (Core_new io cap)"

definition SharedState_new ::
  "'ia index_ops \<Rightarrow> type_id \<Rightarrow> string \<Rightarrow> 'm option list \<Rightarrow> ('e, 'ia, 'm) pipe outcome" where
  "SharedState_new io t name elems =
     (if length elems \<le> MAX_CAPACITY then
        outcome_map (\<lambda>c. core.extend c \<lparr>elements = elems, elem_type = t, elem_type_name = name,
                            storage = Arc 1, dropped = []\<rparr>)
          (Core_new io (of_nat (length elems)))
      else Panic)"

definition is_power_of_two :: "nat \<Rightarrow> bool" where
  "is_power_of_two n = (n \<noteq> 0 \<and> n AND (n - 1) = 0)"

definition StaticTrickyPipe_new ::
  "'ia index_ops \<Rightarrow> type_id \<Rightarrow> string \<Rightarrow> nat \<Rightarrow> ('e, 'ia, 'm) pipe outcome" where
  "StaticTrickyPipe_new io t name CAPACITY =
     (if \<not> is_power_of_two CAPACITY then Panic
      else if \<not> CAPACITY \<le> MAX_CAPACITY then Panic
      else outcome_map (\<lambda>c. core.extend c \<lparr>elements = replicate CAPACITY None, elem_type = t,
                               elem_type_name = name, storage = Static, dropped = []\<rparr>)
             (Core_new io (of_nat CAPACITY)))"

definition TrickyPipe_pipe :: "('e, 'ia, 'm) pipe \<Rightarrow> ('e, 'ia, 'm) pipe outcome" where
  "TrickyPipe_pipe p = ErasedPipe_clone p"

definition TrickyPipe_receiver ::
  "('e, 'ia, 'm) pipe \<Rightarrow> (('e, 'ia, 'm) pipe \<times> unit option) outcome" where
  "TrickyPipe_receiver p =
     (case Core_try_claim_rx p of
        (p1, None) \<Rightarrow> Done (p1, None)
      | (p1, Some _) \<Rightarrow> outcome_map (\<lambda>p2. (p2, Some ())) (TrickyPipe_pipe p1))"

definition TrickyPipe_sender :: "('e, 'ia, 'm) pipe \<Rightarrow> ('e, 'ia, 'm) pipe outcome" where
  "TrickyPipe_sender p = TrickyPipe_pipe (Core_add_tx p)"

definition TrickyPipe_ser_receiver ::
  "('e, 'ia, 'm) pipe \<Rightarrow> (('e, 'ia, 'm) pipe \<times> unit option) outcome" where
  "TrickyPipe_ser_receiver p =
     (case Core_try_claim_rx p of
        (p1, None) \<Rightarrow> Done (p1, None)
      | (p1, Some _) \<Rightarrow> outcome_map (\<lambda>p2. (p2, Some ())) (TrickyPipe_pipe p1))"

definition TrickyPipe_deser_sender :: "('e, 'ia, 'm) pipe \<Rightarrow> ('e, 'ia, 'm) pipe outcome" where
  "TrickyPipe_deser_sender p = TrickyPipe_pipe (Core_add_tx p)"

definition TrickyPipe_clone :: "('e, 'ia, 'm) pipe \<Rightarrow> ('e, 'ia, 'm) pipe outcome" where
  "TrickyPipe_clone p = ErasedPipe_clone (Core_add_tx p)"

definition TrickyPipe_drop ::
  "'ia index_ops \<Rightarrow> bool list list \<Rightarrow> ('e, 'ia, 'm) pipe \<Rightarrow> ('e, 'ia, 'm) pipe outcome" where
  "TrickyPipe_drop io scheds p = ErasedPipe_drop io scheds (Core_drop_tx p)"

text \<open>The handles of a static pipe: a pointer to the static, nothing to count.\<close>

definition StaticTrickyPipe_receiver ::
  "('e, 'ia, 'm) pipe \<Rightarrow> ('e, 'ia, 'm) pipe \<times> unit option" where
  "StaticTrickyPipe_receiver p = Core_try_claim_rx p"

definition StaticTrickyPipe_sender :: "('e, 'ia, 'm) pipe \<Rightarrow> ('e, 'ia, 'm) pipe" where
  "StaticTrickyPipe_sender p = Core_add_tx p"

definition StaticTrickyPipe_ser_receiver ::
  "('e, 'ia, 'm) pipe \<Rightarrow> ('e, 'ia, 'm) pipe \<times> unit option" where
  "StaticTrickyPipe_ser_receiver p = Core_try_claim_rx p"

definition StaticTrickyPipe_deser_sender :: "('e, 'ia, 'm) pipe \<Rightarrow> ('e, 'ia, 'm) pipe" where
  "StaticTrickyPipe_deser_sender p = p"

subsection \<open>\<open>Receiver\<close>\<close>

text \<open>\<open>take_value\<close> moves the message out of its cell and drops the reservation.\<close>

definition Receiver_take_value ::
  "'ia index_ops \<Rightarrow> type_id \<Rightarrow> ('e, 'ia, 'm) pipe \<Rightarrow> u8 \<Rightarrow> (('e, 'ia, 'm) pipe \<times> 'm) outcome" where
  "Receiver_take_value io t p idx =
     outcome_bind (TypedPipe_elems t p) (\<lambda>elems.
       outcome_map
         (\<lambda>v. (Reservation_drop io (p\<lparr>elements := (elements p)[unat idx := None]\<rparr>) idx, v))
         (cell_ref elems idx))"

definition Receiver_try_recv ::
  "'ia index_ops \<Rightarrow> type_id \<Rightarrow> bool list \<Rightarrow> ('e, 'ia, 'm) pipe
    \<Rightarrow> (('e, 'ia, 'm) pipe \<times> ('e TryRecvError + 'm)) outcome" where
  "Receiver_try_recv io t sched p =
     outcome_bind (Core_try_dequeue sched p) (\<lambda>(p1, r).
       case r of
         Err e \<Rightarrow> Done (p1, Err e)
       | Ok idx \<Rightarrow> outcome_map (\<lambda>(p2, v). (p2, Ok v)) (Receiver_take_value io t p1 idx))"

definition Receiver_poll_recv ::
  "'ia index_ops \<Rightarrow> type_id \<Rightarrow> bool list \<Rightarrow> ('e, 'ia, 'm) pipe poll list \<Rightarrow> ('e, 'ia, 'm) pipe
    \<Rightarrow> (('e, 'ia, 'm) pipe \<times> ('e RecvError + 'm) poll) outcome" where
  "Receiver_poll_recv io t sched polls p =
     outcome_bind (Core_poll_dequeue sched polls p) (\<lambda>(p1, r).
       case r of
         Pending \<Rightarrow> Done (p1, Pending)
       | Ready (Err e) \<Rightarrow> Done (p1, Ready (Err e))
       | Ready (Ok idx) \<Rightarrow>
           outcome_map (\<lambda>(p2, v). (p2, Ready (Ok v))) (Receiver_take_value io t p1 idx))"

definition Recv_poll ::
  "'ia index_ops \<Rightarrow> type_id \<Rightarrow> bool list \<Rightarrow> ('e, 'ia, 'm) pipe poll list \<Rightarrow> ('e, 'ia, 'm) pipe
    \<Rightarrow> (('e, 'ia, 'm) pipe \<times> ('e RecvError + 'm) poll) outcome" where
  "Recv_poll io t sched polls p = Receiver_poll_recv io t sched polls p"

fun recv_item :: "('e RecvError + 'r) poll \<Rightarrow> ('e + 'r) option poll" where
  "recv_item Pending = Pending"
| "recv_item (Ready (Ok res)) = Ready (Some (Ok res))"
| "recv_item (Ready (Err RecvError_Disconnected)) = Ready None"
| "recv_item (Ready (Err (RecvError_Error e))) = Ready (Some (Err e))"

definition Receiver_poll_next ::
  "'ia index_ops \<Rightarrow> type_id \<Rightarrow> bool list \<Rightarrow> ('e, 'ia, 'm) pipe poll list \<Rightarrow> ('e, 'ia, 'm) pipe
    \<Rightarrow> (('e, 'ia, 'm) pipe \<times> ('e + 'm) option poll) outcome" where
  "Receiver_poll_next io t sched polls p =
     outcome_map (\<lambda>(p1, r). (p1, recv_item r)) (Receiver_poll_recv io t sched polls p)"

definition Receiver_into_serde :: "('e, 'ia, 'm) pipe \<Rightarrow> ('e, 'ia, 'm) pipe" where
  "Receiver_into_serde p = p"

definition Receiver_drop ::
  "'ia index_ops \<Rightarrow> bool list list \<Rightarrow> ('e, 'ia, 'm) pipe \<Rightarrow> ('e, 'ia, 'm) pipe outcome" where
  "Receiver_drop io scheds p = ErasedPipe_drop io scheds (Core_close_rx p)"

text \<open>\<open>self.len() - self.capacity()\<close> on \<open>usize\<close>: an overflow panics.\<close>

definition usize_sub :: "nat outcome \<Rightarrow> nat \<Rightarrow> nat outcome" where
  "usize_sub x n = outcome_bind x (\<lambda>m. if m < n then Panic else Done (m - n))"

definition Receiver_close_with_error :: "('e, 'ia, 'm) pipe \<Rightarrow> 'e \<Rightarrow> ('e, 'ia, 'm) pipe \<times> bool" where
  "Receiver_close_with_error p e = Core_close_with_error p e"
definition Receiver_is_empty :: "('e, 'ia, 'm) pipe \<Rightarrow> bool" where
  "Receiver_is_empty p = Core_is_empty p"
definition Receiver_is_full :: "('e, 'ia, 'm) pipe \<Rightarrow> bool" where
  "Receiver_is_full p = Core_is_full p"
definition Receiver_len :: "('e, 'ia, 'm) pipe \<Rightarrow> nat outcome" where
  "Receiver_len p = Core_len p"
definition Receiver_capacity :: "('e, 'ia, 'm) pipe \<Rightarrow> nat" where
  "Receiver_capacity p = unat (capacity p)"
definition Receiver_remaining :: "('e, 'ia, 'm) pipe \<Rightarrow> nat outcome" where
  "Receiver_remaining p = usize_sub (Receiver_len p) (Receiver_capacity p)"

subsection \<open>\<open>SerReceiver\<close> and \<open>SerRecvRef\<close>\<close>

definition SerReceiver_try_recv ::
  "bool list \<Rightarrow> ('e, 'ia, 'm) pipe \<Rightarrow> (('e, 'ia, 'm) pipe \<times> ('e TryRecvError + u8)) outcome" where
  "SerReceiver_try_recv sched p = Core_try_dequeue sched p"

definition SerReceiver_poll_recv ::
  "bool list \<Rightarrow> ('e, 'ia, 'm) pipe poll list \<Rightarrow> ('e, 'ia, 'm) pipe \<Rightarrow> (('e, 'ia, 'm) pipe \<times> ('e RecvError + u8) poll) outcome" where
  "SerReceiver_poll_recv sched polls p = Core_poll_dequeue sched polls p"

definition SerRecv_poll ::
  "bool list \<Rightarrow> ('e, 'ia, 'm) pipe poll list \<Rightarrow> ('e, 'ia, 'm) pipe \<Rightarrow> (('e, 'ia, 'm) pipe \<times> ('e RecvError + u8) poll) outcome" where
  "SerRecv_poll sched polls p = SerReceiver_poll_recv sched polls p"

definition SerReceiver_poll_next ::
  "bool list \<Rightarrow> ('e, 'ia, 'm) pipe poll list \<Rightarrow> ('e, 'ia, 'm) pipe \<Rightarrow> (('e, 'ia, 'm) pipe \<times> ('e + u8) option poll) outcome" where
  "SerReceiver_poll_next sched polls p =
     outcome_map (\<lambda>(p1, r). (p1, recv_item r)) (SerReceiver_poll_recv sched polls p)"

text \<open>\<open>downcast\<close> gives back a typed receiver (\<open>True\<close>) or the receiver itself (\<open>False\<close>).\<close>

definition SerReceiver_downcast ::
  "'ia index_ops \<Rightarrow> bool list list \<Rightarrow> type_id \<Rightarrow> ('e, 'ia, 'm) pipe \<Rightarrow> (('e, 'ia, 'm) pipe \<times> bool) outcome" where
  "SerReceiver_downcast io scheds t p = ErasedPipe_typed io scheds t p"

definition SerReceiver_drop ::
  "'ia index_ops \<Rightarrow> bool list list \<Rightarrow> ('e, 'ia, 'm) pipe \<Rightarrow> ('e, 'ia, 'm) pipe outcome" where
  "SerReceiver_drop io scheds p = ErasedPipe_drop io scheds (Core_close_rx p)"

definition SerReceiver_close_with_error :: "('e, 'ia, 'm) pipe \<Rightarrow> 'e \<Rightarrow> ('e, 'ia, 'm) pipe \<times> bool" where
  "SerReceiver_close_with_error p e = Core_close_with_error p e"
definition SerReceiver_is_empty :: "('e, 'ia, 'm) pipe \<Rightarrow> bool" where
  "SerReceiver_is_empty p = Core_is_empty p"
definition SerReceiver_is_full :: "('e, 'ia, 'm) pipe \<Rightarrow> bool" where
  "SerReceiver_is_full p = Core_is_full p"
definition SerReceiver_len :: "('e, 'ia, 'm) pipe \<Rightarrow> nat outcome" where
  "SerReceiver_len p = Core_len p"
definition SerReceiver_capacity :: "('e, 'ia, 'm) pipe \<Rightarrow> nat" where
  "SerReceiver_capacity p = unat (capacity p)"
definition SerReceiver_remaining :: "('e, 'ia, 'm) pipe \<Rightarrow> nat outcome" where
  "SerReceiver_remaining p = usize_sub (SerReceiver_len p) (SerReceiver_capacity p)"

text \<open>The functions of the serialising vtable for the type with id \<open>t\<close>.\<close>

definition SerVtable_elem :: "type_id \<Rightarrow> ('e, 'ia, 'm) pipe \<Rightarrow> u8 \<Rightarrow> 'm outcome" where
  "SerVtable_elem t p idx =
     outcome_bind (ErasedSlice_unerase p t) (\<lambda>elems. cell_ref elems idx)"

definition SerVtable_to_slice ::
  "('m, 'x) postcard \<Rightarrow> type_id \<Rightarrow> ('e, 'ia, 'm) pipe \<Rightarrow> u8 \<Rightarrow> bytes \<Rightarrow> ('x + bytes) outcome" where
  "SerVtable_to_slice pc t p idx buf =
     outcome_map (\<lambda>elem. pc_to_slice pc elem buf) (SerVtable_elem t p idx)"

definition SerVtable_to_slice_framed ::
  "('m, 'x) postcard \<Rightarrow> type_id \<Rightarrow> ('e, 'ia, 'm) pipe \<Rightarrow> u8 \<Rightarrow> bytes \<Rightarrow> ('x + bytes) outcome" where
  "SerVtable_to_slice_framed pc t p idx buf =
     outcome_map (\<lambda>elem. pc_to_slice_cobs pc elem buf) (SerVtable_elem t p idx)"

definition SerVtable_to_vec ::
  "('m, 'x) postcard \<Rightarrow> type_id \<Rightarrow> ('e, 'ia, 'm) pipe \<Rightarrow> u8 \<Rightarrow> ('x + bytes) outcome" where
  "SerVtable_to_vec pc t p idx = outcome_map (pc_to_allocvec pc) (SerVtable_elem t p idx)"

definition SerVtable_to_vec_framed ::
  "('m, 'x) postcard \<Rightarrow> type_id \<Rightarrow> ('e, 'ia, 'm) pipe \<Rightarrow> u8 \<Rightarrow> ('x + bytes) outcome" where
  "SerVtable_to_vec_framed pc t p idx =
     outcome_map (pc_to_allocvec_cobs pc) (SerVtable_elem t p idx)"

definition SerVtable_drop_elem :: "type_id \<Rightarrow> ('e, 'ia, 'm) pipe \<Rightarrow> u8 \<Rightarrow> ('e, 'ia, 'm) pipe outcome" where
  "SerVtable_drop_elem t p idx =
     outcome_map (\<lambda>v. p\<lparr>elements := (elements p)[unat idx := None], dropped := dropped p @ [v]\<rparr>)
       (SerVtable_elem t p idx)"

definition SerRecvRef_to_slice ::
  "('m, 'x) postcard \<Rightarrow> type_id \<Rightarrow> ('e, 'ia, 'm) pipe \<Rightarrow> u8 \<Rightarrow> bytes \<Rightarrow> ('x + bytes) outcome" where
  "SerRecvRef_to_slice pc t p idx buf = SerVtable_to_slice pc t p idx buf"

definition SerRecvRef_to_slice_framed ::
  "('m, 'x) postcard \<Rightarrow> type_id \<Rightarrow> ('e, 'ia, 'm) pipe \<Rightarrow> u8 \<Rightarrow> bytes \<Rightarrow> ('x + bytes) outcome" where
  "SerRecvRef_to_slice_framed pc t p idx buf = SerVtable_to_slice_framed pc t p idx buf"

definition SerRecvRef_to_vec ::
  "('m, 'x) postcard \<Rightarrow> type_id \<Rightarrow> ('e, 'ia, 'm) pipe \<Rightarrow> u8 \<Rightarrow> ('x + bytes) outcome" where
  "SerRecvRef_to_vec pc t p idx = SerVtable_to_vec pc t p idx"

definition SerRecvRef_to_vec_framed ::
  "('m, 'x) postcard \<Rightarrow> type_id \<Rightarrow> ('e, 'ia, 'm) pipe \<Rightarrow> u8 \<Rightarrow> ('x + bytes) outcome" where
  "SerRecvRef_to_vec_framed pc t p idx = SerVtable_to_vec_framed pc t p idx"

definition SerRecvRef_drop :: "'ia index_ops \<Rightarrow> type_id \<Rightarrow> ('e, 'ia, 'm) pipe \<Rightarrow> u8 \<Rightarrow> ('e, 'ia, 'm) pipe outcome" where
  "SerRecvRef_drop io t p idx =
     outcome_map (\<lambda>p1. Reservation_drop io p1 idx) (SerVtable_drop_elem t p idx)"

subsection \<open>\<open>DeserSender\<close> and \<open>SerPermit\<close>\<close>

definition DeserVtable_from_bytes ::
  "('m, 'x) postcard \<Rightarrow> type_id \<Rightarrow> ('e, 'ia, 'm) pipe \<Rightarrow> u8 \<Rightarrow> bytes \<Rightarrow> (('e, 'ia, 'm) pipe \<times> ('x + unit)) outcome" where
  "DeserVtable_from_bytes pc t p idx buf =
     (case pc_from_bytes pc buf of
        Err x \<Rightarrow> Done (p, Err x)
      | Ok val \<Rightarrow>
          outcome_bind (ErasedSlice_unerase p t) (\<lambda>elems.
            outcome_map (\<lambda>_. (p\<lparr>elements := elems[unat idx := Some val]\<rparr>, Ok ()))
              (cell_at elems idx)))"

definition DeserVtable_from_bytes_framed ::
  "('m, 'x) postcard \<Rightarrow> type_id \<Rightarrow> ('e, 'ia, 'm) pipe \<Rightarrow> u8 \<Rightarrow> bytes \<Rightarrow> (('e, 'ia, 'm) pipe \<times> ('x + unit)) outcome" where
  "DeserVtable_from_bytes_framed pc t p idx buf =
     (case pc_from_bytes pc buf of
        Err x \<Rightarrow> Done (p, Err x)
      | Ok val \<Rightarrow>
          outcome_bind (ErasedSlice_unerase p t) (\<lambda>elems.
            outcome_map (\<lambda>_. (p\<lparr>elements := elems[unat idx := Some val]\<rparr>, Ok ()))
              (cell_at elems idx)))"

definition SerPermit_send ::
  "'ia index_ops \<Rightarrow> ('m, 'x) postcard \<Rightarrow> type_id \<Rightarrow> bool list \<Rightarrow> ('e, 'ia, 'm) pipe \<Rightarrow> u8 \<Rightarrow> bytes
    \<Rightarrow> (('e, 'ia, 'm) pipe \<times> (('x, 'e) SerSendError + unit)) outcome" where
  "SerPermit_send io pc t sched p idx bs =
     outcome_bind (DeserVtable_from_bytes pc t p idx bs) (\<lambda>(p1, r).
       case r of
         Err x \<Rightarrow> Done (Reservation_drop io p1 idx, Err (SerSendError_Deserialize x))
       | Ok _ \<Rightarrow> outcome_map (\<lambda>(p2, r2). (p2, map_sum SerSendError_from_send_error id r2))
                  (Reservation_commit_send sched p1 idx))"

definition SerPermit_send_framed ::
  "'ia index_ops \<Rightarrow> ('m, 'x) postcard \<Rightarrow> type_id \<Rightarrow> bool list \<Rightarrow> ('e, 'ia, 'm) pipe \<Rightarrow> u8 \<Rightarrow> bytes
    \<Rightarrow> (('e, 'ia, 'm) pipe \<times> (('x, 'e) SerSendError + unit)) outcome" where
  "SerPermit_send_framed io pc t sched p idx bs =
     outcome_bind (DeserVtable_from_bytes_framed pc t p idx bs) (\<lambda>(p1, r).
       case r of
         Err x \<Rightarrow> Done (Reservation_drop io p1 idx, Err (SerSendError_Deserialize x))
       | Ok _ \<Rightarrow> outcome_map (\<lambda>(p2, r2). (p2, map_sum SerSendError_from_send_error id r2))
                  (Reservation_commit_send sched p1 idx))"

definition DeserSender_reserve ::
  "'ia index_ops \<Rightarrow> (('e, 'ia, 'm) pipe \<times> (unit + unit)) list \<Rightarrow> ('e, 'ia, 'm) pipe
    \<Rightarrow> (('e, 'ia, 'm) pipe \<times> (('e, unit) SendError + u8)) outcome" where
  "DeserSender_reserve io resumes p = Core_reserve io resumes p"

definition DeserSender_try_reserve ::
  "'ia index_ops \<Rightarrow> ('e, 'ia, 'm) pipe \<Rightarrow> ('e, 'ia, 'm) pipe \<times> (('e, unit) TrySendError + u8)" where
  "DeserSender_try_reserve io p = Core_try_reserve io p"

definition DeserSender_try_send ::
  "'ia index_ops \<Rightarrow> ('m, 'x) postcard \<Rightarrow> type_id \<Rightarrow> bool list \<Rightarrow> ('e, 'ia, 'm) pipe \<Rightarrow> bytes
    \<Rightarrow> (('e, 'ia, 'm) pipe \<times> (('x, 'e) SerTrySendError + unit)) outcome" where
  "DeserSender_try_send io pc t sched p bs =
     (case DeserSender_try_reserve io p of
        (p1, Err e) \<Rightarrow> Done (p1, Err (SerTrySendError_from_try_send_error e))
      | (p1, Ok idx) \<Rightarrow>
          outcome_map (\<lambda>(p2, r). (p2, map_sum SerTrySendError_from_ser_send_error id r))
            (SerPermit_send io pc t sched p1 idx bs))"

definition DeserSender_try_send_framed ::
  "'ia index_ops \<Rightarrow> ('m, 'x) postcard \<Rightarrow> type_id \<Rightarrow> bool list \<Rightarrow> ('e, 'ia, 'm) pipe \<Rightarrow> bytes
    \<Rightarrow> (('e, 'ia, 'm) pipe \<times> (('x, 'e) SerTrySendError + unit)) outcome" where
  "DeserSender_try_send_framed io pc t sched p bs =
     (case DeserSender_try_reserve io p of
        (p1, Err e) \<Rightarrow> Done (p1, Err (SerTrySendError_from_try_send_error e))
      | (p1, Ok idx) \<Rightarrow>
          outcome_map (\<lambda>(p2, r). (p2, map_sum SerTrySendError_from_ser_send_error id r))
            (SerPermit_send_framed io pc t sched p1 idx bs))"

definition DeserSender_send ::
  "'ia index_ops \<Rightarrow> ('m, 'x) postcard \<Rightarrow> type_id \<Rightarrow> bool list \<Rightarrow> (('e, 'ia, 'm) pipe \<times> (unit + unit)) list
    \<Rightarrow> ('e, 'ia, 'm) pipe \<Rightarrow> bytes \<Rightarrow> (('e, 'ia, 'm) pipe \<times> (('x, 'e) SerSendError + unit)) outcome" where
  "DeserSender_send io pc t sched resumes p bs =
     outcome_bind (DeserSender_reserve io resumes p) (\<lambda>(p1, r).
       case r of
         Err e \<Rightarrow> Done (p1, Err (SerSendError_from_send_error e))
       | Ok idx \<Rightarrow> SerPermit_send io pc t sched p1 idx bs)"

definition DeserSender_send_framed ::
  "'ia index_ops \<Rightarrow> ('m, 'x) postcard \<Rightarrow> type_id \<Rightarrow> bool list \<Rightarrow> (('e, 'ia, 'm) pipe \<times> (unit + unit)) list
    \<Rightarrow> ('e, 'ia, 'm) pipe \<Rightarrow> bytes \<Rightarrow> (('e, 'ia, 'm) pipe \<times> (('x, 'e) SerSendError + unit)) outcome" where
  "DeserSender_send_framed io pc t sched resumes p bs =
     outcome_bind (DeserSender_reserve io resumes p) (\<lambda>(p1, r).
       case r of
         Err e \<Rightarrow> Done (p1, Err (SerSendError_from_send_error e))
       | Ok idx \<Rightarrow> SerPermit_send_framed io pc t sched p1 idx bs)"

definition DeserSender_downcast ::
  "'ia index_ops \<Rightarrow> bool list list \<Rightarrow> type_id \<Rightarrow> ('e, 'ia, 'm) pipe \<Rightarrow> (('e, 'ia, 'm) pipe \<times> bool) outcome" where
  "DeserSender_downcast io scheds t p = ErasedPipe_typed io scheds t p"

definition DeserSender_clone :: "('e, 'ia, 'm) pipe \<Rightarrow> ('e, 'ia, 'm) pipe outcome" where
  "DeserSender_clone p = ErasedPipe_clone (Core_add_tx p)"

definition DeserSender_drop :: "'ia index_ops \<Rightarrow> bool list list \<Rightarrow> ('e, 'ia, 'm) pipe \<Rightarrow> ('e, 'ia, 'm) pipe outcome" where
  "DeserSender_drop io scheds p = ErasedPipe_drop io scheds (Core_drop_tx p)"

definition DeserSender_close_with_error :: "('e, 'ia, 'm) pipe \<Rightarrow> 'e \<Rightarrow> ('e, 'ia, 'm) pipe \<times> bool" where
  "DeserSender_close_with_error p e = Core_close_with_error p e"
definition DeserSender_is_empty :: "('e, 'ia, 'm) pipe \<Rightarrow> bool" where
  "DeserSender_is_empty p = Core_is_empty p"
definition DeserSender_is_full :: "('e, 'ia, 'm) pipe \<Rightarrow> bool" where
  "DeserSender_is_full p = Core_is_full p"
definition DeserSender_len :: "('e, 'ia, 'm) pipe \<Rightarrow> nat outcome" where
  "DeserSender_len p = Core_len p"
definition DeserSender_capacity :: "('e, 'ia, 'm) pipe \<Rightarrow> nat" where
  "DeserSender_capacity p = unat (capacity p)"
definition DeserSender_remaining :: "('e, 'ia, 'm) pipe \<Rightarrow> nat outcome" where
  "DeserSender_remaining p = usize_sub (DeserSender_len p) (DeserSender_capacity p)"

subsection \<open>\<open>Sender\<close> and \<open>Permit\<close>\<close>

text \<open>
  A typed reservation looks its cell up at once (and panics if the index is outside the array);
  sending writes the cell and commits, and ignores what the commit answers.
\<close>

definition Sender_try_reserve ::
  "'ia index_ops \<Rightarrow> type_id \<Rightarrow> ('e, 'ia, 'm) pipe \<Rightarrow> (('e, 'ia, 'm) pipe \<times> (('e, unit) TrySendError + u8)) outcome" where
  "Sender_try_reserve io t p =
     (case Core_try_reserve io p of
        (p1, Err e) \<Rightarrow> Done (p1, Err e)
      | (p1, Ok idx) \<Rightarrow>
          outcome_bind (TypedPipe_elems t p1) (\<lambda>elems.
            outcome_map (\<lambda>_. (p1, Ok idx)) (cell_at elems idx)))"

definition Sender_reserve ::
  "'ia index_ops \<Rightarrow> type_id \<Rightarrow> (('e, 'ia, 'm) pipe \<times> (unit + unit)) list \<Rightarrow> ('e, 'ia, 'm) pipe
    \<Rightarrow> (('e, 'ia, 'm) pipe \<times> (('e, unit) SendError + u8)) outcome" where
  "Sender_reserve io t resumes p =
     outcome_bind (Core_reserve io resumes p) (\<lambda>(p1, r).
       case r of
         Err e \<Rightarrow> Done (p1, Err e)
       | Ok idx \<Rightarrow>
           outcome_bind (TypedPipe_elems t p1) (\<lambda>elems.
             outcome_map (\<lambda>_. (p1, Ok idx)) (cell_at elems idx)))"

definition Permit_commit :: "bool list \<Rightarrow> ('e, 'ia, 'm) pipe \<Rightarrow> u8 \<Rightarrow> ('e, 'ia, 'm) pipe outcome" where
  "Permit_commit sched p idx = outcome_map fst (Reservation_commit_send sched p idx)"

definition Permit_send :: "bool list \<Rightarrow> ('e, 'ia, 'm) pipe \<Rightarrow> u8 \<Rightarrow> 'm \<Rightarrow> ('e, 'ia, 'm) pipe outcome" where
  "Permit_send sched p idx val =
     Permit_commit sched (p\<lparr>elements := (elements p)[unat idx := Some val]\<rparr>) idx"

definition Permit_drop :: "'ia index_ops \<Rightarrow> ('e, 'ia, 'm) pipe \<Rightarrow> u8 \<Rightarrow> ('e, 'ia, 'm) pipe" where
  "Permit_drop io p idx = Reservation_drop io p idx"

definition Sender_try_send ::
  "'ia index_ops \<Rightarrow> type_id \<Rightarrow> bool list \<Rightarrow> ('e, 'ia, 'm) pipe \<Rightarrow> 'm
    \<Rightarrow> (('e, 'ia, 'm) pipe \<times> (('e, 'm) TrySendError + unit)) outcome" where
  "Sender_try_send io t sched p message =
     outcome_bind (Sender_try_reserve io t p) (\<lambda>(p1, r).
       case r of
         Ok idx \<Rightarrow> outcome_map (\<lambda>p2. (p2, Ok ())) (Permit_send sched p1 idx message)
       | Err e \<Rightarrow> Done (p1, Err (TrySendError_with_message e message)))"

definition Sender_send ::
  "'ia index_ops \<Rightarrow> type_id \<Rightarrow> bool list \<Rightarrow> (('e, 'ia, 'm) pipe \<times> (unit + unit)) list \<Rightarrow> ('e, 'ia, 'm) pipe \<Rightarrow> 'm
    \<Rightarrow> (('e, 'ia, 'm) pipe \<times> (('e, 'm) SendError + unit)) outcome" where
  "Sender_send io t sched resumes p message =
     outcome_bind (Sender_reserve io t resumes p) (\<lambda>(p1, r).
       case r of
         Ok idx \<Rightarrow> outcome_map (\<lambda>p2. (p2, Ok ())) (Permit_send sched p1 idx message)
       | Err e \<Rightarrow> Done (p1, Err (SendError_with_message e message)))"

definition Sender_into_serde :: "('e, 'ia, 'm) pipe \<Rightarrow> ('e, 'ia, 'm) pipe" where
  "Sender_into_serde p = p"

definition Sender_into_erased :: "('e, 'ia, 'm) pipe \<Rightarrow> ('e, 'ia, 'm) pipe" where
  "Sender_into_erased p = p"

definition Sender_clone :: "('e, 'ia, 'm) pipe \<Rightarrow> ('e, 'ia, 'm) pipe outcome" where
  "Sender_clone p = ErasedPipe_clone (Core_add_tx p)"

definition Sender_drop :: "'ia index_ops \<Rightarrow> bool list list \<Rightarrow> ('e, 'ia, 'm) pipe \<Rightarrow> ('e, 'ia, 'm) pipe outcome" where
  "Sender_drop io scheds p = ErasedPipe_drop io scheds (Core_drop_tx p)"

definition Sender_close_with_error :: "('e, 'ia, 'm) pipe \<Rightarrow> 'e \<Rightarrow> ('e, 'ia, 'm) pipe \<times> bool" where
  "Sender_close_with_error p e = Core_close_with_error p e"
definition Sender_is_empty :: "('e, 'ia, 'm) pipe \<Rightarrow> bool" where
  "Sender_is_empty p = Core_is_empty p"
definition Sender_is_full :: "('e, 'ia, 'm) pipe \<Rightarrow> bool" where
  "Sender_is_full p = Core_is_full p"
definition Sender_len :: "('e, 'ia, 'm) pipe \<Rightarrow> nat outcome" where
  "Sender_len p = Core_len p"
definition Sender_capacity :: "('e, 'ia, 'm) pipe \<Rightarrow> nat" where
  "Sender_capacity p = unat (capacity p)"
definition Sender_remaining :: "('e, 'ia, 'm) pipe \<Rightarrow> nat outcome" where
  "Sender_remaining p = usize_sub (Sender_len p) (Sender_capacity p)"

subsection \<open>\<open>ErasedSender\<close> and \<open>ErasedPermit\<close>\<close>

definition ErasedSender_reserve ::
  "'ia index_ops \<Rightarrow> (('e, 'ia, 'm) pipe \<times> (unit + unit)) list \<Rightarrow> ('e, 'ia, 'm) pipe
    \<Rightarrow> (('e, 'ia, 'm) pipe \<times> (('e, unit) SendError + u8)) outcome" where
  "ErasedSender_reserve io resumes p = Core_reserve io resumes p"

definition ErasedSender_try_reserve ::
  "'ia index_ops \<Rightarrow> ('e, 'ia, 'm) pipe \<Rightarrow> ('e, 'ia, 'm) pipe \<times> (('e, unit) TrySendError + u8)" where
  "ErasedSender_try_reserve io p = Core_try_reserve io p"

definition ErasedSender_type_id :: "('e, 'ia, 'm) pipe \<Rightarrow> type_id" where
  "ErasedSender_type_id p = elem_type p"
definition ErasedSender_type_name :: "('e, 'ia, 'm) pipe \<Rightarrow> string" where
  "ErasedSender_type_name p = elem_type_name p"
definition ErasedSender_is :: "type_id \<Rightarrow> ('e, 'ia, 'm) pipe \<Rightarrow> bool" where
  "ErasedSender_is t p = (ErasedSender_type_id p = t)"

definition ErasedSender_clone :: "('e, 'ia, 'm) pipe \<Rightarrow> ('e, 'ia, 'm) pipe outcome" where
  "ErasedSender_clone p = ErasedPipe_clone (Core_add_tx p)"

definition ErasedSender_drop :: "'ia index_ops \<Rightarrow> bool list list \<Rightarrow> ('e, 'ia, 'm) pipe \<Rightarrow> ('e, 'ia, 'm) pipe outcome" where
  "ErasedSender_drop io scheds p = ErasedPipe_drop io scheds (Core_drop_tx p)"

definition ErasedSender_close_with_error :: "('e, 'ia, 'm) pipe \<Rightarrow> 'e \<Rightarrow> ('e, 'ia, 'm) pipe \<times> bool" where
  "ErasedSender_close_with_error p e = Core_close_with_error p e"
definition ErasedSender_is_empty :: "('e, 'ia, 'm) pipe \<Rightarrow> bool" where
  "ErasedSender_is_empty p = Core_is_empty p"
definition ErasedSender_is_full :: "('e, 'ia, 'm) pipe \<Rightarrow> bool" where
  "ErasedSender_is_full p = Core_is_full p"
definition ErasedSender_len :: "('e, 'ia, 'm) pipe \<Rightarrow> nat outcome" where
  "ErasedSender_len p = Core_len p"
definition ErasedSender_capacity :: "('e, 'ia, 'm) pipe \<Rightarrow> nat" where
  "ErasedSender_capacity p = unat (capacity p)"
definition ErasedSender_remaining :: "('e, 'ia, 'm) pipe \<Rightarrow> nat outcome" where
  "ErasedSender_remaining p = usize_sub (ErasedSender_len p) (ErasedSender_capacity p)"

definition ErasedPermit_type_id :: "('e, 'ia, 'm) pipe \<Rightarrow> type_id" where
  "ErasedPermit_type_id p = elem_type p"
definition ErasedPermit_type_name :: "('e, 'ia, 'm) pipe \<Rightarrow> string" where
  "ErasedPermit_type_name p = elem_type_name p"
definition ErasedPermit_is :: "type_id \<Rightarrow> ('e, 'ia, 'm) pipe \<Rightarrow> bool" where
  "ErasedPermit_is t p = (ErasedPermit_type_id p = t)"

text \<open>\<open>Ok\<close> is a typed permit for the same index, \<open>Err\<close> the erased permit back.\<close>

definition ErasedPermit_downcast :: "type_id \<Rightarrow> ('e, 'ia, 'm) pipe \<Rightarrow> u8 \<Rightarrow> (u8 + u8) outcome" where
  "ErasedPermit_downcast t p idx =
     (if \<not> ErasedPermit_is t p then Done (Err idx)
      else outcome_bind (ErasedSlice_unerase p t) (\<lambda>elems.
             outcome_map (\<lambda>_. Ok idx) (cell_at elems idx)))"

end
