(* ===== verification/Fifo.thy ===== *)
theory Fifo
  imports Prelude
begin

section \<open>The contract of a channel\<close>

text \<open>
  What every queue of the program promises its users, stated once: an accepted message goes to
  the end, a received one comes from the front, and anything else that happens to the channel
  leaves the queued messages alone. The consequences for whole histories are proved here, in the
  locale; each channel of the program interprets it.
\<close>

datatype ('m, 'x) fifo_op = Push 'm | Pop | Control 'x

text \<open>
  A history of calls. \<open>push\<close> says whether it accepted the message, \<open>pop\<close> returns at most one.
  The result is the final state, the accepted and the received messages.
\<close>

fun fifo_run ::
  "('s \<Rightarrow> 'm \<Rightarrow> ('s \<times> bool) outcome) \<Rightarrow> ('s \<Rightarrow> ('s \<times> 'm option) outcome)
    \<Rightarrow> ('s \<Rightarrow> 'x \<Rightarrow> 's outcome) \<Rightarrow> ('m, 'x) fifo_op list \<Rightarrow> 's
    \<Rightarrow> ('s \<times> 'm list \<times> 'm list) outcome" where
  "fifo_run push pop ctl [] s = Done (s, [], [])"
| "fifo_run push pop ctl (Push m # ops) s =
     outcome_bind (push s m) (\<lambda>(s1, accepted).
       outcome_map (\<lambda>(s2, sent, got). (s2, if accepted then m # sent else sent, got))
         (fifo_run push pop ctl ops s1))"
| "fifo_run push pop ctl (Pop # ops) s =
     outcome_bind (pop s) (\<lambda>(s1, r).
       outcome_map (\<lambda>(s2, sent, got). (s2, sent, case r of Some m \<Rightarrow> m # got | None \<Rightarrow> got))
         (fifo_run push pop ctl ops s1))"
| "fifo_run push pop ctl (Control x # ops) s =
     outcome_bind (ctl s x) (fifo_run push pop ctl ops)"

locale fifo =
  fixes wf :: "'s \<Rightarrow> bool" and content :: "'s \<Rightarrow> 'm list"
    and push :: "'s \<Rightarrow> 'm \<Rightarrow> ('s \<times> bool) outcome"
    and pop :: "'s \<Rightarrow> ('s \<times> 'm option) outcome"
    and ctl :: "'s \<Rightarrow> 'x \<Rightarrow> 's outcome"
  assumes push_law: "wf s \<Longrightarrow>
      \<exists>s' b. push s m = Done (s', b) \<and> wf s' \<and> content s' = content s @ (if b then [m] else [])"
    and pop_law: "wf s \<Longrightarrow>
      \<exists>s' r. pop s = Done (s', r) \<and> wf s' \<and>
        content s = (case r of Some m \<Rightarrow> [m] | None \<Rightarrow> []) @ content s'"
    and ctl_law: "wf s \<Longrightarrow> \<exists>s'. ctl s x = Done s' \<and> wf s' \<and> content s' = content s"
begin

text \<open>
  No history panics, blocks or goes wrong, and what has been received followed by what is still
  queued is what was queued at the start followed by what has been accepted.
\<close>

lemma run_ordered:
  assumes "wf s"
  shows "\<exists>s' sent got. fifo_run push pop ctl ops s = Done (s', sent, got) \<and> wf s' \<and>
    content s @ sent = got @ content s'"
  using assms
proof (induction ops arbitrary: s)
  case Nil
  then show ?case by simp
next
  case (Cons op ops)
  show ?case
  proof (cases op)
    case (Push m)
    obtain s1 b where "push s m = Done (s1, b)" "wf s1"
      "content s1 = content s @ (if b then [m] else [])"
      using push_law [OF \<open>wf s\<close>] by blast
    with Cons.IH [OF \<open>wf s1\<close>] Push show ?thesis by (auto split: if_splits)
  next
    case Pop
    obtain s1 r where "pop s = Done (s1, r)" "wf s1"
      "content s = (case r of Some m \<Rightarrow> [m] | None \<Rightarrow> []) @ content s1"
      using pop_law [OF \<open>wf s\<close>] by blast
    with Cons.IH [OF \<open>wf s1\<close>] Pop show ?thesis by (auto split: option.splits)
  next
    case (Control x)
    obtain s1 where "ctl s x = Done s1" "wf s1" "content s1 = content s"
      using ctl_law [OF \<open>wf s\<close>] by blast
    with Cons.IH [OF \<open>wf s1\<close>] Control show ?thesis by auto
  qed
qed

lemma run_from_empty:
  assumes "wf s" and "content s = []" and "fifo_run push pop ctl ops s = Done (s', sent, got)"
  shows "sent = got @ content s'"
  using run_ordered [OF assms(1), of ops] assms(2,3) by simp

end

text \<open>
  A channel is live while it is not stalled: a non-empty channel gives a message to every
  receive, so as many receives as there are messages empty it.
\<close>

locale live_fifo = fifo +
  fixes stalled :: "'s \<Rightarrow> nat \<Rightarrow> bool" \<comment> \<open>the channel stalls before that many more receives\<close>
  assumes pop_live: "wf s \<Longrightarrow> content s \<noteq> [] \<Longrightarrow> \<not> stalled s (Suc n) \<Longrightarrow>
      \<exists>s' m. pop s = Done (s', Some m) \<and> \<not> stalled s' n"
begin

lemma drain:
  assumes "wf s" and "\<not> stalled s (length (content s))"
  shows "\<exists>s'. fifo_run push pop ctl (replicate (length (content s)) Pop) s =
    Done (s', [], content s) \<and> wf s' \<and> content s' = []"
  using assms
proof (induction "content s" arbitrary: s)
  case Nil
  then show ?case by (metis fifo_run.simps(1) length_0_conv replicate_0)
next
  case (Cons m ms)
  have "content s \<noteq> []" "\<not> stalled s (Suc (length ms))"
    using Cons.prems(2) Cons.hyps(2) by (metis list.distinct(1), metis length_Cons)
  then obtain s1 m' where pop: "pop s = Done (s1, Some m')" and live: "\<not> stalled s1 (length ms)"
    using pop_live Cons.prems(1) by blast
  with pop_law [OF Cons.prems(1)] have "wf s1" and c: "content s = m' # content s1" by auto
  then have "ms = content s1" "m' = m" using Cons.hyps(2) by simp_all
  with Cons.hyps(1) [OF _ \<open>wf s1\<close>] live obtain s' where
    "fifo_run push pop ctl (replicate (length ms) Pop) s1 = Done (s', [], ms)" "wf s'" "content s' = []"
    by auto
  with pop \<open>m' = m\<close> Cons.hyps(2) [symmetric] show ?case by simp
qed

end

end
