(* ===== verification/Mpsc_Spec.thy ===== *)
theory Mpsc_Spec
  imports Mpsc Fifo
begin

section \<open>Channels are lossless, ordered and memory safe\<close>

text \<open>
  The invariant of a pipe: every index below the capacity is in exactly one of three places, the
  allocator's free set, the queue, or the set \<open>H\<close> of the indices that permits, received
  references or interrupted sends hold; and the cell of every queued index is initialised. From
  it: a commit never meets the \<open>unreachable!()\<close>, a receiver never reads an uninitialised cell,
  and messages come out in the order they went in.
\<close>

subsection \<open>The index allocator\<close>

text \<open>
  What the channel relies on of \<open>IndexAllocWord\<close>: \<open>fr a\<close> is the set of free indices; a fresh
  allocator of capacity \<open>n\<close> has the indices below \<open>n\<close>, \<open>allocate\<close> takes a free one and fails only
  if there is none, \<open>free\<close> puts an index back.
\<close>

definition index_alloc :: "'ia index_ops \<Rightarrow> ('ia \<Rightarrow> nat set) \<Rightarrow> bool" where
  "index_alloc io fr \<longleftrightarrow>
     (\<forall>n. unat n \<le> 64 \<longrightarrow> fr (ia_with_capacity io n) = {..<unat n}) \<and>
     (\<forall>a. case ia_allocate io a of
            (None, a') \<Rightarrow> fr a = {} \<and> fr a' = {}
          | (Some i, a') \<Rightarrow> unat i \<in> fr a \<and> fr a' = fr a - {unat i}) \<and>
     (\<forall>a i. unat i < 64 \<longrightarrow> unat i \<notin> fr a \<longrightarrow> fr (ia_free io i a) = insert (unat i) (fr a))"

lemma index_allocD:
  assumes "index_alloc io fr"
  shows "unat n \<le> 64 \<Longrightarrow> fr (ia_with_capacity io n) = {..<unat n}"
    and "ia_allocate io a = (None, a') \<Longrightarrow> fr a = {} \<and> fr a' = {}"
    and "ia_allocate io a = (Some i, a') \<Longrightarrow> unat i \<in> fr a \<and> fr a' = fr a - {unat i}"
    and "unat i < 64 \<Longrightarrow> unat i \<notin> fr a \<Longrightarrow> fr (ia_free io i a) = insert (unat i) (fr a)"
proof -
  have a: "case ia_allocate io a of
        (None, a') \<Rightarrow> fr a = {} \<and> fr a' = {}
      | (Some i, a') \<Rightarrow> unat i \<in> fr a \<and> fr a' = fr a - {unat i}"
    using assms unfolding index_alloc_def by (elim conjE) (erule spec)
  show "ia_allocate io a = (None, a') \<Longrightarrow> fr a = {} \<and> fr a' = {}"
    "ia_allocate io a = (Some i, a') \<Longrightarrow> unat i \<in> fr a \<and> fr a' = fr a - {unat i}"
    using a by simp_all
qed (use assms in \<open>simp_all add: index_alloc_def\<close>)

text \<open>A bitmap of the indices in use satisfies the contract.\<close>

definition bitmap_free :: "usize \<Rightarrow> nat set" where
  "bitmap_free w = set (filter (\<lambda>i. \<not> bit w i) [0..<64])"

definition bitmap_ops :: "usize index_ops" where
  "bitmap_ops = \<lparr>
     ia_with_capacity = (\<lambda>n. NOT (mask (unat n))),
     ia_allocate = (\<lambda>w. case find (\<lambda>i. \<not> bit w i) [0..<64] of
                          None \<Rightarrow> (None, w) | Some i \<Rightarrow> (Some (of_nat i), set_bit i w)),
     ia_free = (\<lambda>i w. unset_bit (unat i) w)\<rparr>"

lemma bitmap_index_alloc: "index_alloc bitmap_ops bitmap_free"
proof -
  have cap: "bitmap_free (NOT (mask (unat (n :: u8)))) = {..<unat n}" if "unat n \<le> 64" for n
    using that by (auto simp: bitmap_free_def bit_not_iff bit_mask_iff)
  have alloc: "case ia_allocate bitmap_ops a of
      (None, a') \<Rightarrow> bitmap_free a = {} \<and> bitmap_free a' = {}
    | (Some i, a') \<Rightarrow> unat i \<in> bitmap_free a \<and> bitmap_free a' = bitmap_free a - {unat i}" for a
  proof (cases "find (\<lambda>i. \<not> bit a i) [0..<64]")
    case None
    then have "bitmap_free a = {}" by (auto simp: find_None_iff bitmap_free_def)
    with None show ?thesis by (simp add: bitmap_ops_def)
  next
    case (Some i)
    then have i: "i < 64" "\<not> bit a i" by (auto simp: find_Some_iff)
    then have "unat (of_nat i :: u8) = i" by (simp add: unat_of_nat)
    with i Some show ?thesis
      by (auto simp: bitmap_ops_def bitmap_free_def bit_set_bit_iff)
  qed
  have free: "bitmap_free (unset_bit (unat (i :: u8)) a) = insert (unat i) (bitmap_free a)"
    if "unat i < 64" for a i
    using that by (auto simp: bitmap_free_def bit_unset_bit_iff)
  show ?thesis
    unfolding index_alloc_def using cap alloc free by (simp add: bitmap_ops_def)
qed

subsection \<open>The invariant\<close>

definition pipe_messages :: "('e, 'ia, 'm) pipe \<Rightarrow> 'm list" where
  "pipe_messages p = map (\<lambda>i. the (elements p ! unat i)) (Core_queued p)"

definition pipe_inv :: "('ia \<Rightarrow> nat set) \<Rightarrow> nat set \<Rightarrow> ('e, 'ia, 'm) pipe \<Rightarrow> bool" where
  "pipe_inv fr H p \<longleftrightarrow>
     core_inv p \<and> unat (capacity p) \<le> 64 \<and> length (elements p) = unat (capacity p) \<and>
     distinct (Core_queued p) \<and>
     fr (indices p) \<union> unat ` set (Core_queued p) \<union> H = {..<unat (capacity p)} \<and>
     fr (indices p) \<inter> unat ` set (Core_queued p) = {} \<and>
     (fr (indices p) \<union> unat ` set (Core_queued p)) \<inter> H = {} \<and>
     (\<forall>i \<in> set (Core_queued p). elements p ! unat i \<noteq> None)"

lemma pipe_invD:
  assumes "pipe_inv fr H p"
  shows "core_inv p" "core_wf p" "unat (capacity p) \<le> 64"
    "length (elements p) = unat (capacity p)" "distinct (Core_queued p)"
    "i \<in> H \<Longrightarrow> i < unat (capacity p)" "i \<in> fr (indices p) \<Longrightarrow> i < unat (capacity p)"
    "j \<in> set (Core_queued p) \<Longrightarrow> unat j < unat (capacity p) \<and> unat j \<notin> H"
    "j \<in> set (Core_queued p) \<Longrightarrow> elements p ! unat j \<noteq> None"
  using assms by (auto simp: pipe_inv_def core_inv_wf)

text \<open>Updates of the fields a core does not have leave the core's abstraction alone.\<close>

lemma pipe_update_abs [simp]:
  "core_inv (p\<lparr>elements := xs\<rparr>) = core_inv p" "core_inv (p\<lparr>dropped := ms\<rparr>) = core_inv p"
  "core_inv (p\<lparr>storage := st\<rparr>) = core_inv p"
  "core_wf (p\<lparr>elements := xs\<rparr>) = core_wf p" "core_wf (p\<lparr>dropped := ms\<rparr>) = core_wf p"
  "core_wf (p\<lparr>storage := st\<rparr>) = core_wf p"
  "Core_queued (p\<lparr>elements := xs\<rparr>) = Core_queued p" "Core_queued (p\<lparr>dropped := ms\<rparr>) = Core_queued p"
  "Core_queued (p\<lparr>storage := st\<rparr>) = Core_queued p"
  "Core_head (p\<lparr>elements := xs\<rparr>) = Core_head p" "Core_head (p\<lparr>dropped := ms\<rparr>) = Core_head p"
  "Core_head (p\<lparr>storage := st\<rparr>) = Core_head p"
  "tx_closed (p\<lparr>elements := xs\<rparr>) = tx_closed p" "tx_closed (p\<lparr>dropped := ms\<rparr>) = tx_closed p"
  "tx_closed (p\<lparr>storage := st\<rparr>) = tx_closed p"
  "rx_closed (p\<lparr>elements := xs\<rparr>) = rx_closed p" "rx_closed (p\<lparr>dropped := ms\<rparr>) = rx_closed p"
  "rx_closed (p\<lparr>storage := st\<rparr>) = rx_closed p"
  by (simp_all add: core_inv_def core_wf_def core_rep_def Core_queued_def Core_head_def Core_tail_def
      tx_closed_def rx_closed_def state_bits)

lemma pipe_messages_update [simp]:
  "pipe_messages (p\<lparr>indices := ia\<rparr>) = pipe_messages p"
  "pipe_messages (p\<lparr>dropped := ms\<rparr>) = pipe_messages p"
  "pipe_messages (p\<lparr>storage := st\<rparr>) = pipe_messages p"
  by (simp_all add: pipe_messages_def)

lemma pipe_inv_update [simp]:
  "pipe_inv fr H (p\<lparr>dropped := ms\<rparr>) = pipe_inv fr H p"
  "pipe_inv fr H (p\<lparr>storage := st\<rparr>) = pipe_inv fr H p"
  by (simp_all add: pipe_inv_def)

text \<open>What sending and receiving leave alone: the state word, the error, the closed bits, the memory.\<close>

definition pipe_same :: "('e, 'ia, 'm) pipe \<Rightarrow> ('e, 'ia, 'm) pipe \<Rightarrow> bool" where
  "pipe_same p p' \<longleftrightarrow>
     state p' = state p \<and> error p' = error p \<and> rx_closed p' = rx_closed p \<and>
     tx_closed p' = tx_closed p \<and> storage p' = storage p \<and> elem_type p' = elem_type p \<and>
     dropped p' = dropped p \<and> capacity p' = capacity p"

lemma pipe_same_trans: "pipe_same p p' \<Longrightarrow> pipe_same p' p'' \<Longrightarrow> pipe_same p p''"
  by (simp add: pipe_same_def)

lemma pipe_same_simps [simp]:
  "pipe_same p p" "pipe_same p (p\<lparr>indices := ia\<rparr>)" "pipe_same p (p\<lparr>elements := xs\<rparr>)"
  by (simp_all add: pipe_same_def)

text \<open>The invariant depends on the queue, the free indices, the cells and the core's invariant.\<close>

lemma pipe_inv_frame:
  assumes "pipe_inv fr H p" "core_inv p'" "Core_queued p' = Core_queued p"
    "indices p' = indices p" "capacity p' = capacity p" "elements p' = elements p"
  shows "pipe_inv fr H p'" "pipe_messages p' = pipe_messages p"
  using assms by (simp_all add: pipe_inv_def pipe_messages_def)

lemma pipe_messages_write:
  assumes "unat i \<notin> unat ` set (Core_queued p)"
  shows "pipe_messages (p\<lparr>elements := (elements p)[unat i := x]\<rparr>) = pipe_messages p"
proof -
  have "elements p ! unat j = (elements p)[unat i := x] ! unat j" if "j \<in> set (Core_queued p)" for j
    using assms that by (metis image_eqI nth_list_update_neq)
  then show ?thesis by (simp add: pipe_messages_def)
qed

lemma queue_has_room:
  assumes inv: "pipe_inv fr H p" and "i \<in> H"
  shows "length (Core_queued p) < 64"
proof -
  have "unat ` set (Core_queued p) \<subseteq> {..<64} - {i}" and "i < 64"
    using pipe_invD(3,6,8) [OF inv] assms(2) by fastforce+
  then have "card (unat ` set (Core_queued p)) \<le> card ({..<64 :: nat} - {i})"
    by (intro card_mono) auto
  also have "\<dots> < 64" using \<open>i < 64\<close> by simp
  finally show ?thesis
    using pipe_invD(5) [OF inv]
    by (simp add: card_image inj_on_def distinct_card word_unat_eq_iff [symmetric])
qed


subsection \<open>Reserving\<close>

lemma try_reserve_inv:
  assumes io: "index_alloc io fr" and inv: "pipe_inv fr H p"
  obtains (closed) e where "rx_closed p" "Core_try_reserve io p = (p, Err e)" "e \<noteq> TrySendError_Full ()"
  | (full) p' where "\<not> rx_closed p" "fr (indices p) = {}"
      "Core_try_reserve io p = (p', Err (TrySendError_Full ()))" "pipe_inv fr H p'"
      "pipe_messages p' = pipe_messages p" "pipe_same p p'" "Core_head p' = Core_head p"
  | (reserved) i p' where "\<not> rx_closed p" "Core_try_reserve io p = (p', Ok i)"
      "unat i \<notin> H" "pipe_inv fr (insert (unat i) H) p'" "pipe_messages p' = pipe_messages p"
      "pipe_same p p'" "unat i < length (elements p')"
      "Core_head p' = Core_head p" "unat i \<in> fr (indices p)"
proof (cases "rx_closed p")
  case True
  then show ?thesis
    by (intro closed) (auto simp: try_reserve_cases split: option.splits)
next
  case False
  obtain r ia where alloc: "ia_allocate io (indices p) = (r, ia)" by fastforce
  show ?thesis
  proof (cases r)
    case None
    with alloc have "fr (indices p) = {}" "fr ia = {}" using index_allocD(2) [OF io] by blast+
    then show ?thesis
      using False alloc None inv
      by (intro full [of "p\<lparr>indices := ia\<rparr>"]) (auto simp: try_reserve_cases pipe_inv_def)
  next
    case (Some i)
    with alloc have i: "unat i \<in> fr (indices p)" "fr ia = fr (indices p) - {unat i}"
      using index_allocD(3) [OF io] by blast+
    moreover have "unat i < unat (capacity p)" "unat i \<notin> H" "unat i \<notin> unat ` set (Core_queued p)"
      using i(1) inv by (auto simp: pipe_inv_def)
    ultimately show ?thesis
      using False alloc Some inv
      by (intro reserved [of "p\<lparr>indices := ia\<rparr>" i]) (auto simp: try_reserve_cases pipe_inv_def)
  qed
qed

subsection \<open>Sending through a permit\<close>

lemma pipe_inv_write:
  assumes "pipe_inv fr H p" and "unat i \<in> H"
  shows "pipe_inv fr H (p\<lparr>elements := (elements p)[unat i := x]\<rparr>)"
    and "pipe_messages (p\<lparr>elements := (elements p)[unat i := x]\<rparr>) = pipe_messages p"
proof -
  have ni: "unat i \<notin> unat ` set (Core_queued p)" using assms by (auto simp: pipe_inv_def)
  then show "pipe_messages (p\<lparr>elements := (elements p)[unat i := x]\<rparr>) = pipe_messages p"
    by (rule pipe_messages_write)
  have "(elements p)[unat i := x] ! unat j = elements p ! unat j" if "j \<in> set (Core_queued p)" for j
    using ni that by (metis image_eqI nth_list_update_neq)
  then show "pipe_inv fr H (p\<lparr>elements := (elements p)[unat i := x]\<rparr>)"
    using assms(1) unfolding pipe_inv_def by simp
qed

lemma commit_inv:
  assumes inv: "pipe_inv fr H p" and i: "unat i \<in> H" and v: "elements p ! unat i = Some v"
    and "True \<in> set sched"
  shows "Core_commit_send sched p i =
      Done (if rx_closed p then (p, Err (send_closed_error p)) else (Core_committed p i, Ok ()))"
    and "\<not> rx_closed p \<Longrightarrow> pipe_inv fr (H - {unat i}) (Core_committed p i)"
    and "\<not> rx_closed p \<Longrightarrow> pipe_messages (Core_committed p i) = pipe_messages p @ [v]"
    and "\<not> rx_closed p \<Longrightarrow> Core_head (Core_committed p i) = Core_head p"
    and "\<not> rx_closed p \<Longrightarrow> pipe_same p (Core_committed p i)"
proof -
  have room: "length (Core_queued p) < 64" by (rule queue_has_room [OF inv i])
  have i64: "unat i < 64" using pipe_invD(3,6) [OF inv] i by fastforce
  show "Core_commit_send sched p i =
      Done (if rx_closed p then (p, Err (send_closed_error p)) else (Core_committed p i, Ok ()))"
    using pipe_invD(2) [OF inv] \<open>True \<in> set sched\<close> room i64 by (rule commit_send_cases)
  assume opened: "\<not> rx_closed p"
  note abs = Core_committed_abs [OF pipe_invD(2) [OF inv] opened room i64]
  have elems: "elements (Core_committed p i) = elements p"
    by (simp add: Core_committed_def Let_def)
  show "pipe_messages (Core_committed p i) = pipe_messages p @ [v]"
    using v by (simp add: pipe_messages_def abs elems)
  show "Core_head (Core_committed p i) = Core_head p" by (simp add: abs)
  show "pipe_same p (Core_committed p i)"
    using abs(4,5) by (simp add: pipe_same_def) (simp add: Core_committed_def Let_def)
  have "i \<notin> set (Core_queued p)" "unat i \<notin> fr (indices p)" using inv i by (auto simp: pipe_inv_def)
  then show "pipe_inv fr (H - {unat i}) (Core_committed p i)"
    using inv i v abs(2,6) elems unfolding pipe_inv_def by auto
qed

lemma Permit_send_open:
  assumes inv: "pipe_inv fr H p" and i: "unat i \<in> H" and "\<not> rx_closed p" and "True \<in> set sched"
  obtains p' where "Permit_send sched p i v = Done p'" "pipe_inv fr (H - {unat i}) p'"
    "pipe_messages p' = pipe_messages p @ [v]" "pipe_same p p'" "Core_head p' = Core_head p"
proof -
  let ?p = "p\<lparr>elements := (elements p)[unat i := Some v]\<rparr>"
  have "pipe_inv fr H ?p" "pipe_messages ?p = pipe_messages p" by (rule pipe_inv_write [OF inv i])+
  moreover have "elements ?p ! unat i = Some v" using pipe_invD(4,6) [OF inv] i by simp
  ultimately show ?thesis
    using commit_inv [of fr H ?p i v sched] i assms(3,4)
    by (intro that [of "Core_committed ?p i"])
      (auto simp: Permit_send_def Permit_commit_def Reservation_commit_send_def
        intro: pipe_same_trans [of p ?p])
qed

lemma Permit_send_closed:
  assumes inv: "pipe_inv fr H p" and i: "unat i \<in> H" and "rx_closed p" and "True \<in> set sched"
  shows "Permit_send sched p i v = Done (p\<lparr>elements := (elements p)[unat i := Some v]\<rparr>)"
proof -
  let ?p = "p\<lparr>elements := (elements p)[unat i := Some v]\<rparr>"
  have "pipe_inv fr H ?p" by (rule pipe_inv_write [OF inv i])
  moreover have "elements ?p ! unat i = Some v" using pipe_invD(4,6) [OF inv] i by simp
  ultimately show ?thesis
    using commit_inv(1) [of fr H ?p i v sched] i assms(3,4)
    by (simp add: Permit_send_def Permit_commit_def Reservation_commit_send_def)
qed

lemma release_inv:
  assumes io: "index_alloc io fr" and inv: "pipe_inv fr H p" and i: "unat i \<in> H"
  shows "pipe_inv fr (H - {unat i}) (Reservation_drop io p i)"
    and "pipe_messages (Reservation_drop io p i) = pipe_messages p"
proof -
  have "unat i < 64" "unat i \<notin> fr (indices p)" using inv i by (auto simp: pipe_inv_def)
  then have "fr (ia_free io i (indices p)) = insert (unat i) (fr (indices p))"
    by (rule index_allocD(4) [OF io])
  moreover have "elements (Core_uncommit io p i) = elements p" by (simp add: Core_uncommit_def)
  ultimately show "pipe_inv fr (H - {unat i}) (Reservation_drop io p i)"
    and "pipe_messages (Reservation_drop io p i) = pipe_messages p"
    using inv i by (auto simp: Reservation_drop_def pipe_inv_def pipe_messages_def)
qed

subsection \<open>Receiving\<close>

lemma dequeue_inv:
  assumes inv: "pipe_inv fr H p" and q: "Core_queued p = i # q" and "Core_head p \<noteq> 1023"
  obtains v where "elements p ! unat i = Some v" "pipe_messages p = v # pipe_messages (Core_dequeued p)"
    "pipe_inv fr (insert (unat i) H) (Core_dequeued p)" "unat i \<notin> H" "unat i < length (elements p)"
proof -
  note abs = Core_dequeued_abs [OF pipe_invD(2) [OF inv] q assms(3)]
  have elems: "elements (Core_dequeued p) = elements p" by (simp add: Core_dequeued_def Let_def)
  obtain v where v: "elements p ! unat i = Some v" using pipe_invD(9) [OF inv, of i] q by auto
  show ?thesis
  proof
    show "elements p ! unat i = Some v" by (rule v)
    show "pipe_messages p = v # pipe_messages (Core_dequeued p)"
      using v by (simp add: pipe_messages_def q abs elems)
    show "unat i \<notin> H" "unat i < length (elements p)"
      using pipe_invD(4,8) [OF inv] q by simp_all
    show "pipe_inv fr (insert (unat i) H) (Core_dequeued p)"
      using inv q abs(2,6) elems unfolding pipe_inv_def by (auto simp: word_unat_eq_iff [symmetric])
  qed
qed

lemma Core_dequeued_elem_type [simp]:
  "elem_type (Core_dequeued p) = elem_type p" "elements (Core_dequeued p) = elements p"
  "dropped (Core_dequeued p) = dropped p" "storage (Core_dequeued p) = storage p"
  by (simp_all add: Core_dequeued_def Let_def)

lemma Reservation_drop_fields [simp]:
  "elem_type (Reservation_drop io p i) = elem_type p"
  "elements (Reservation_drop io p i) = elements p" "dropped (Reservation_drop io p i) = dropped p"
  "storage (Reservation_drop io p i) = storage p"
  "Core_head (Reservation_drop io p i) = Core_head p"
  "rx_closed (Reservation_drop io p i) = rx_closed p"
  "tx_closed (Reservation_drop io p i) = tx_closed p" "state (Reservation_drop io p i) = state p"
  "capacity (Reservation_drop io p i) = capacity p"
  "error (Reservation_drop io p i) = error p" "core_inv (Reservation_drop io p i) = core_inv p"
  by (simp_all add: Reservation_drop_def) (simp_all add: Core_uncommit_def)

text \<open>Emptying a cell and freeing its index, and what the receivers build on it.\<close>

lemma discard_inv:
  assumes io: "index_alloc io fr" and inv: "pipe_inv fr (insert (unat i) H) p" and "unat i \<notin> H"
    and p': "p' = Reservation_drop io (p\<lparr>elements := (elements p)[unat i := None], dropped := ms\<rparr>) i"
  shows "pipe_inv fr H p'" "pipe_messages p' = pipe_messages p"
proof -
  let ?p = "p\<lparr>elements := (elements p)[unat i := None], dropped := ms\<rparr>"
  have "pipe_inv fr (insert (unat i) H) ?p" "pipe_messages ?p = pipe_messages p"
    using pipe_inv_write [OF inv, of i None] by simp_all
  then have "pipe_inv fr (insert (unat i) H - {unat i}) p'" "pipe_messages p' = pipe_messages p"
    unfolding p' using release_inv [OF io, of "insert (unat i) H" ?p i] by simp_all
  with assms(3) show "pipe_inv fr H p'" "pipe_messages p' = pipe_messages p" by simp_all
qed

lemma take_value_inv:
  assumes io: "index_alloc io fr" and inv: "pipe_inv fr (insert (unat i) H) p" and "unat i \<notin> H"
    and v: "elements p ! unat i = Some v" and t: "elem_type p = t"
  obtains p' where "Receiver_take_value io t p i = Done (p', v)" "pipe_inv fr H p'"
    "pipe_messages p' = pipe_messages p" "pipe_same p p'" "Core_head p' = Core_head p"
proof -
  let ?p = "Reservation_drop io (p\<lparr>elements := (elements p)[unat i := None]\<rparr>) i"
  have "unat i < length (elements p)" using pipe_invD(4,6) [OF inv] by simp
  then have "Receiver_take_value io t p i = Done (?p, v)"
    using v t
    by (simp add: Receiver_take_value_def TypedPipe_elems_def ErasedSlice_unerase_def cell_ref_def)
  moreover have "pipe_inv fr H ?p" "pipe_messages ?p = pipe_messages p"
    using discard_inv [OF io inv assms(3) refl, of "dropped p"] by simp_all
  ultimately show ?thesis by (intro that [of ?p]) (simp_all add: pipe_same_def)
qed

lemma SerRecvRef_drop_inv:
  assumes io: "index_alloc io fr" and inv: "pipe_inv fr (insert (unat i) H) p" and "unat i \<notin> H"
    and v: "elements p ! unat i = Some v" and t: "elem_type p = t"
  obtains p' where "SerRecvRef_drop io t p i = Done p'" "pipe_inv fr H p'"
    "pipe_messages p' = pipe_messages p" "elem_type p' = t" "Core_head p' = Core_head p"
    "rx_closed p' = rx_closed p" "dropped p' = dropped p @ [v]"
proof -
  let ?p = "Reservation_drop io
    (p\<lparr>elements := (elements p)[unat i := None], dropped := dropped p @ [v]\<rparr>) i"
  have "unat i < length (elements p)" using pipe_invD(4,6) [OF inv] by simp
  then have "SerRecvRef_drop io t p i = Done ?p"
    using v t
    by (simp add: SerRecvRef_drop_def SerVtable_drop_elem_def SerVtable_elem_def
        ErasedSlice_unerase_def cell_ref_def)
  moreover have "pipe_inv fr H ?p" "pipe_messages ?p = pipe_messages p"
    by (rule discard_inv [OF io inv assms(3) refl])+
  ultimately show ?thesis using t by (intro that [of ?p]) simp_all
qed

lemma SharedState_drop_spec:
  assumes io: "index_alloc io fr" and "pipe_inv fr H p"
    and "length (Core_queued p) < length scheds" and "\<forall>sched \<in> set scheds. True \<in> set sched"
  shows "\<exists>p'. SharedState_drop io scheds p = Done p' \<and> storage p' = storage p \<and>
    dropped p' = dropped p @ take (1023 - Core_head p) (pipe_messages p)"
  using assms(2-)
proof (induction scheds arbitrary: p)
  case Nil
  then show ?case by simp
next
  case (Cons sched scheds)
  note inv = Cons.prems(1)
  have attempt: "Core_try_dequeue sched p =
     (case Core_queued p of
        i # q \<Rightarrow> if Core_head p \<noteq> 1023 then Done (Core_dequeued p, Ok i)
                 else Done (p, Err (if tx_closed p then recv_closed_error p else TryRecvError_Empty))
      | [] \<Rightarrow> Done (p, Err (if tx_closed p then recv_closed_error p else TryRecvError_Empty)))"
    using Cons.prems(3) by (intro try_dequeue_cases pipe_invD(2) [OF inv]) simp
  show ?case
  proof (cases "Core_queued p = [] \<or> Core_head p = 1023")
    case True
    then show ?thesis using attempt by (auto simp: pipe_messages_def split: list.splits)
  next
    case False
    then obtain i q where q: "Core_queued p = i # q" and h: "Core_head p \<noteq> 1023"
      by (cases "Core_queued p") auto
    note deq = Core_dequeued_abs [OF pipe_invD(2) [OF inv] q h]
    obtain v where v: "elements p ! unat i = Some v"
      "pipe_messages p = v # pipe_messages (Core_dequeued p)"
      "pipe_inv fr (insert (unat i) H) (Core_dequeued p)" "unat i \<notin> H" "unat i < length (elements p)"
      by (rule dequeue_inv [OF inv q h])
    let ?p = "Reservation_drop io (Core_dequeued p
      \<lparr>elements := (elements p)[unat i := None], dropped := dropped p @ [v]\<rparr>) i"
    have p: "pipe_inv fr H ?p" "pipe_messages ?p = pipe_messages (Core_dequeued p)"
      using discard_inv [OF io v(3,4) refl, of "dropped p @ [v]"] by simp_all
    have "Core_queued ?p = q" by (simp add: Reservation_drop_def deq)
    with Cons.IH [OF p(1)] Cons.prems(2,3) q obtain p' where
      "SharedState_drop io scheds ?p = Done p'" "storage p' = storage p"
      "dropped p' = dropped p @ [v] @ take (1023 - (Core_head p + 1)) (pipe_messages ?p)"
      by (auto simp: deq)
    moreover have "Core_head p < 1023"
      using core_repD(1) [OF core_wf_rep [OF pipe_invD(2) [OF inv]]] h by simp
    then have "1023 - Core_head p = Suc (1023 - (Core_head p + 1))" by simp
    ultimately show ?thesis
      using attempt q h v(1,2,5) p(2) by (simp add: cell_ref_def)
  qed
qed

subsection \<open>Typed sending and receiving\<close>

lemma typed_cell:
  assumes "elem_type p = t" and "unat i < length (elements p)"
  shows "TypedPipe_elems t p = Done (elements p)" "cell_at (elements p) i = Done ()"
  using assms by (simp_all add: TypedPipe_elems_def ErasedSlice_unerase_def cell_at_def)

lemma Sender_try_send_spec:
  assumes io: "index_alloc io fr" and inv: "pipe_inv fr H p" and t: "elem_type p = t"
    and sched: "True \<in> set sched"
  obtains (sent) p' where "\<not> rx_closed p" "fr (indices p) \<noteq> {}"
      "Sender_try_send io t sched p m = Done (p', Ok ())" "pipe_inv fr H p'"
      "pipe_messages p' = pipe_messages p @ [m]" "pipe_same p p'" "Core_head p' = Core_head p"
  | (full) p' where "\<not> rx_closed p" "fr (indices p) = {}"
      "Sender_try_send io t sched p m = Done (p', Err (TrySendError_Full m))" "pipe_inv fr H p'"
      "pipe_messages p' = pipe_messages p" "pipe_same p p'" "Core_head p' = Core_head p"
  | (closed) e where "rx_closed p" "Sender_try_send io t sched p m = Done (p, Err e)"
      "TrySendError_into_inner e = m" "e \<noteq> TrySendError_Full m"
  using io inv
proof (cases rule: try_reserve_inv)
  case (closed e)
  then have "TrySendError_with_message e m \<noteq> TrySendError_Full m" by (cases e) auto
  with closed show ?thesis
    by (intro that(3)) (auto simp: Sender_try_send_def Sender_try_reserve_def)
next
  case (full p')
  then show ?thesis
    by (intro that(2) [of p']) (auto simp: Sender_try_send_def Sender_try_reserve_def)
next
  case (reserved i p')
  then have same: "elem_type p' = t" "\<not> rx_closed p'" using t by (simp_all add: pipe_same_def)
  obtain p'' where "Permit_send sched p' i m = Done p''" "pipe_inv fr (insert (unat i) H - {unat i}) p''"
    "pipe_messages p'' = pipe_messages p' @ [m]" "pipe_same p' p''" "Core_head p'' = Core_head p'"
    using Permit_send_open [of fr "insert (unat i) H" p' i sched m] reserved sched same by auto
  with reserved same show ?thesis
    by (intro that(1) [of p''])
      (auto simp: Sender_try_send_def Sender_try_reserve_def typed_cell intro: pipe_same_trans)
qed

lemma Receiver_try_recv_spec:
  assumes io: "index_alloc io fr" and inv: "pipe_inv fr H p" and t: "elem_type p = t"
    and sched: "True \<in> set sched"
  obtains (got) v p' where "Core_head p \<noteq> 1023" "Receiver_try_recv io t sched p = Done (p', Ok v)"
      "pipe_inv fr H p'" "pipe_messages p = v # pipe_messages p'" "pipe_same p p'"
      "Core_head p' = Core_head p + 1"
  | (nothing) "pipe_messages p = [] \<or> Core_head p = 1023"
      "Receiver_try_recv io t sched p =
         Done (p, Err (if tx_closed p then recv_closed_error p else TryRecvError_Empty))"
proof (cases "Core_queued p = [] \<or> Core_head p = 1023")
  case True
  then show ?thesis
    using try_dequeue_cases [OF pipe_invD(2) [OF inv] sched]
    by (intro that(2)) (auto simp: Receiver_try_recv_def pipe_messages_def split: list.splits)
next
  case False
  then obtain i q where q: "Core_queued p = i # q" and h: "Core_head p \<noteq> 1023"
    by (cases "Core_queued p") auto
  obtain v where v: "elements p ! unat i = Some v"
    "pipe_messages p = v # pipe_messages (Core_dequeued p)"
    "pipe_inv fr (insert (unat i) H) (Core_dequeued p)" "unat i \<notin> H"
    by (rule dequeue_inv [OF inv q h])
  have "pipe_same p (Core_dequeued p)"
    using Core_dequeued_abs(4,5) [OF pipe_invD(2) [OF inv] q h] by (simp add: pipe_same_def)
  moreover obtain p' where "Receiver_take_value io t (Core_dequeued p) i = Done (p', v)"
    "pipe_inv fr H p'" "pipe_messages p' = pipe_messages (Core_dequeued p)"
    "pipe_same (Core_dequeued p) p'" "Core_head p' = Core_head (Core_dequeued p)"
    using take_value_inv [OF io v(3,4), of v t] v(1) t by (metis Core_dequeued_elem_type(1,2))
  moreover have "Core_try_dequeue sched p = Done (Core_dequeued p, Ok i)"
    using try_dequeue_cases [OF pipe_invD(2) [OF inv] sched] q h by simp
  ultimately show ?thesis
    using v(2) h Core_dequeued_abs(3) [OF pipe_invD(2) [OF inv] q h]
    by (intro that(1) [of p' v]) (auto simp: Receiver_try_recv_def intro: pipe_same_trans)
qed

subsection \<open>Closing and claiming\<close>

datatype 'e control = Close_Rx | Close_With_Error 'e | Claim_Rx

fun pipe_control :: "('e, 'ia, 'm) pipe \<Rightarrow> 'e control \<Rightarrow> ('e, 'ia, 'm) pipe" where
  "pipe_control p Close_Rx = Core_close_rx p"
| "pipe_control p (Close_With_Error e) = fst (Core_close_with_error p e)"
| "pipe_control p Claim_Rx = fst (Core_try_claim_rx p)"

lemma Core_close_fields [simp]:
  "elements (Core_close_rx p) = elements p" "elements (Core_close_tx p) = elements p"
  "elem_type (Core_close_rx p) = elem_type p" "elem_type (Core_close_tx p) = elem_type p"
  "storage (Core_close_rx p) = storage p" "storage (Core_close_tx p) = storage p"
  "dropped (Core_close_rx p) = dropped p" "dropped (Core_close_tx p) = dropped p"
  by (simp_all add: Core_close_rx_def Core_close_tx_def)

lemma pipe_control_frame:
  "indices (pipe_control p x) = indices p" "capacity (pipe_control p x) = capacity p"
  "elements (pipe_control p x) = elements p" "elem_type (pipe_control p x) = elem_type p"
  by (cases x; simp add: Core_close_with_error_def Core_try_claim_rx_def Let_def)+

lemma pipe_control_core:
  assumes "core_inv p"
  shows "core_inv (pipe_control p x)" "Core_queued (pipe_control p x) = Core_queued p"
    "Core_head (pipe_control p x) = Core_head p"
proof -
  show "core_inv (pipe_control p x)"
    using assms by (cases x) (auto intro: Core_close_rx_inv Core_close_with_error_inv
        Core_try_claim_rx_inv)
  show "Core_queued (pipe_control p x) = Core_queued p" "Core_head (pipe_control p x) = Core_head p"
    using core_inv_wf [OF assms]
    by (cases x; simp add: close_rx_abs close_tx_abs Core_close_with_error_def
        Core_try_claim_rx_def Let_def)+
qed

lemma pipe_control_inv:
  assumes "pipe_inv fr H p"
  shows "pipe_inv fr H (pipe_control p x)" "pipe_messages (pipe_control p x) = pipe_messages p"
  using pipe_inv_frame [OF assms, of "pipe_control p x"] pipe_control_core [OF pipe_invD(1) [OF assms]]
  by (simp_all add: pipe_control_frame)

subsection \<open>The typed channel implements the contract\<close>

text \<open>A channel in use: the allocator with its free set, the indices held outside, a schedule.\<close>

record ('e, 'ia, 'm) channel =
  ch_io :: "'ia index_ops"
  ch_free :: "'ia \<Rightarrow> nat set"
  ch_held :: "nat set"
  ch_sched :: "bool list"
  ch_pipe :: "('e, 'ia, 'm) pipe"

definition channel_wf :: "('e, 'ia, 'm) channel \<Rightarrow> bool" where
  "channel_wf c \<longleftrightarrow>
     index_alloc (ch_io c) (ch_free c) \<and> pipe_inv (ch_free c) (ch_held c) (ch_pipe c) \<and>
     True \<in> set (ch_sched c)"

definition channel_content :: "('e, 'ia, 'm) channel \<Rightarrow> 'm list" where
  "channel_content c = pipe_messages (ch_pipe c)"

definition channel_send ::
  "('e, 'ia, 'm) channel \<Rightarrow> 'm \<Rightarrow> (('e, 'ia, 'm) channel \<times> bool) outcome" where
  "channel_send c m =
     outcome_map (\<lambda>(p, r). (c\<lparr>ch_pipe := p\<rparr>, \<not> isl r))
       (Sender_try_send (ch_io c) (elem_type (ch_pipe c)) (ch_sched c) (ch_pipe c) m)"

definition channel_recv ::
  "('e, 'ia, 'm) channel \<Rightarrow> (('e, 'ia, 'm) channel \<times> 'm option) outcome" where
  "channel_recv c =
     outcome_map (\<lambda>(p, r). (c\<lparr>ch_pipe := p\<rparr>, case r of Ok m \<Rightarrow> Some m | Err _ \<Rightarrow> None))
       (Receiver_try_recv (ch_io c) (elem_type (ch_pipe c)) (ch_sched c) (ch_pipe c))"

definition channel_control ::
  "('e, 'ia, 'm) channel \<Rightarrow> 'e control \<Rightarrow> ('e, 'ia, 'm) channel outcome" where
  "channel_control c x = Done (c\<lparr>ch_pipe := pipe_control (ch_pipe c) x\<rparr>)"

definition channel_stalled :: "('e, 'ia, 'm) channel \<Rightarrow> nat \<Rightarrow> bool" where
  "channel_stalled c n \<longleftrightarrow> Core_head (ch_pipe c) + n > 1023"

interpretation typed_channel:
  live_fifo channel_wf channel_content channel_send channel_recv channel_control channel_stalled
proof
  fix c :: "('e, 'ia, 'm) channel" and m x n
  assume wf: "channel_wf c"
  then have io: "index_alloc (ch_io c) (ch_free c)"
    and inv: "pipe_inv (ch_free c) (ch_held c) (ch_pipe c)" and sched: "True \<in> set (ch_sched c)"
    by (simp_all add: channel_wf_def)
  show "\<exists>c' b. channel_send c m = Done (c', b) \<and> channel_wf c' \<and>
      channel_content c' = channel_content c @ (if b then [m] else [])"
    using io sched
    by (cases rule: Sender_try_send_spec [OF io inv refl sched, of m])
      (auto simp: channel_send_def channel_wf_def channel_content_def inv)
  show "\<exists>c' r. channel_recv c = Done (c', r) \<and> channel_wf c' \<and>
      channel_content c = (case r of Some m \<Rightarrow> [m] | None \<Rightarrow> []) @ channel_content c'"
    using io sched
    by (cases rule: Receiver_try_recv_spec [OF io inv refl sched])
      (auto simp: channel_recv_def channel_wf_def channel_content_def inv)
  show "\<exists>c'. channel_control c x = Done c' \<and> channel_wf c' \<and> channel_content c' = channel_content c"
    using io sched pipe_control_inv [OF inv]
    by (simp add: channel_control_def channel_wf_def channel_content_def)
  assume "channel_content c \<noteq> []" "\<not> channel_stalled c (Suc n)"
  then show "\<exists>c' m. channel_recv c = Done (c', Some m) \<and> \<not> channel_stalled c' n"
    by (cases rule: Receiver_try_recv_spec [OF io inv refl sched])
      (auto simp: channel_recv_def channel_content_def channel_stalled_def)
qed

text \<open>The receiver's position counts the messages received.\<close>

lemma channel_run_head:
  assumes "channel_wf c"
    and "fifo_run channel_send channel_recv channel_control ops c = Done (c', sent, got)"
  shows "Core_head (ch_pipe c') = Core_head (ch_pipe c) + length got \<and> channel_wf c'"
  using assms
proof (induction ops arbitrary: c sent got)
  case Nil
  then show ?case by simp
next
  case (Cons op ops)
  note wf = Cons.prems(1)
  then have io: "index_alloc (ch_io c) (ch_free c)" and sched: "True \<in> set (ch_sched c)"
    and inv: "pipe_inv (ch_free c) (ch_held c) (ch_pipe c)"
    by (simp_all add: channel_wf_def)
  show ?case
  proof (cases op)
    case (Push m)
    then obtain c1 b sent1 where send: "channel_send c m = Done (c1, b)"
      and rest: "fifo_run channel_send channel_recv channel_control ops c1 = Done (c', sent1, got)"
      using Cons.prems(2) by (auto simp: outcome_bind_eq_Done_iff outcome_map_eq_Done_iff)
    have "channel_wf c1" using typed_channel.push_law [OF wf, of m] send by auto
    moreover have "Core_head (ch_pipe c1) = Core_head (ch_pipe c)"
      by (cases rule: Sender_try_send_spec [OF io inv refl sched, of m])
        (use send in \<open>auto simp: channel_send_def\<close>)
    ultimately show ?thesis using Cons.IH rest by simp
  next
    case Pop
    then obtain c1 r got1 where recv: "channel_recv c = Done (c1, r)"
      and rest: "fifo_run channel_send channel_recv channel_control ops c1 = Done (c', sent, got1)"
      and got: "got = (case r of Some m \<Rightarrow> m # got1 | None \<Rightarrow> got1)"
      using Cons.prems(2) by (auto simp: outcome_bind_eq_Done_iff outcome_map_eq_Done_iff)
    have "channel_wf c1" using typed_channel.pop_law [OF wf] recv by auto
    moreover have "Core_head (ch_pipe c1) = Core_head (ch_pipe c) + (if r = None then 0 else 1)"
      by (cases rule: Receiver_try_recv_spec [OF io inv refl sched])
        (use recv in \<open>auto simp: channel_recv_def\<close>)
    ultimately show ?thesis using Cons.IH [OF _ rest] got by (auto split: option.splits)
  next
    case (Control x)
    then obtain c1 where ctl: "channel_control c x = Done c1"
      and rest: "fifo_run channel_send channel_recv channel_control ops c1 = Done (c', sent, got)"
      using Cons.prems(2) by (auto simp: outcome_bind_eq_Done_iff)
    have "channel_wf c1" using typed_channel.ctl_law [OF wf, of x] ctl by auto
    moreover have "Core_head (ch_pipe c1) = Core_head (ch_pipe c)"
      using ctl pipe_control_core(3) [OF pipe_invD(1) [OF inv]] by (auto simp: channel_control_def)
    ultimately show ?thesis using Cons.IH rest by simp
  qed
qed

end
