(* ===== verification/Mpsc_Serde.thy ===== *)
theory Mpsc_Serde
  imports Mpsc_Spec
begin

section \<open>The serialising ends of a channel\<close>

text \<open>
  \<open>DeserSender\<close> decodes bytes into the channel's cells and \<open>SerReceiver\<close> encodes the messages it
  takes out. Between the two, the channel satisfies the contract \<open>fifo\<close> on messages, given that
  \<open>postcard\<close> decodes what it has encoded.
\<close>

definition postcard_roundtrip :: "('m, 'x) postcard \<Rightarrow> bool" where
  "postcard_roundtrip pc \<longleftrightarrow>
     (\<forall>m bs. pc_to_allocvec pc m = Ok bs \<longrightarrow> pc_from_bytes pc bs = Ok m)"

lemma SerPermit_send_decoded:
  assumes inv: "pipe_inv fr H p" and i: "unat i \<in> H" and "True \<in> set sched"
    and t: "elem_type p = t" and m: "pc_from_bytes pc bs = Ok m"
  defines "p1 \<equiv> p\<lparr>elements := (elements p)[unat i := Some m]\<rparr>"
  shows "SerPermit_send io pc t sched p i bs =
    Done (if rx_closed p then (p1, Err (SerSendError_from_send_error (send_closed_error p1)))
          else (Core_committed p1 i, Ok ()))"
proof -
  have "unat i < length (elements p)" using pipe_invD(4,6) [OF inv] i by simp
  then have "DeserVtable_from_bytes pc t p i bs = Done (p1, Ok ())"
    using m t by (simp add: DeserVtable_from_bytes_def ErasedSlice_unerase_def cell_at_def p1_def)
  moreover have "Core_commit_send sched p1 i =
      Done (if rx_closed p1 then (p1, Err (send_closed_error p1)) else (Core_committed p1 i, Ok ()))"
    using pipe_inv_write(1) [OF inv i] i assms(3) pipe_invD(4,6) [OF inv]
    unfolding p1_def by (intro commit_inv(1) [where v = m]) simp_all
  ultimately show ?thesis
    by (simp add: SerPermit_send_def Reservation_commit_send_def p1_def)
qed

lemma SerPermit_send_undecodable:
  assumes "pc_from_bytes pc bs = Err x"
  shows "SerPermit_send io pc t sched p i bs =
    Done (Reservation_drop io p i, Err (SerSendError_Deserialize x))"
  using assms by (simp add: SerPermit_send_def DeserVtable_from_bytes_def)

lemma DeserSender_try_send_spec:
  assumes io: "index_alloc io fr" and inv: "pipe_inv fr H p" and t: "elem_type p = t"
    and sched: "True \<in> set sched"
  obtains (sent) m p' where "\<not> rx_closed p" "fr (indices p) \<noteq> {}" "pc_from_bytes pc bs = Ok m"
      "DeserSender_try_send io pc t sched p bs = Done (p', Ok ())" "pipe_inv fr H p'"
      "pipe_messages p' = pipe_messages p @ [m]" "pipe_same p p'" "Core_head p' = Core_head p"
  | (undecodable) x p' where "\<not> rx_closed p" "fr (indices p) \<noteq> {}" "pc_from_bytes pc bs = Err x"
      "DeserSender_try_send io pc t sched p bs = Done (p', Err (SerTrySendError_Deserialize x))"
      "pipe_inv fr H p'" "pipe_messages p' = pipe_messages p" "pipe_same p p'"
      "Core_head p' = Core_head p"
  | (full) p' where "\<not> rx_closed p" "fr (indices p) = {}"
      "DeserSender_try_send io pc t sched p bs = Done (p', Err SerTrySendError_Full)"
      "pipe_inv fr H p'" "pipe_messages p' = pipe_messages p" "pipe_same p p'"
      "Core_head p' = Core_head p"
  | (closed) e where "rx_closed p" "DeserSender_try_send io pc t sched p bs = Done (p, Err e)"
  using io inv
proof (cases rule: try_reserve_inv)
  case (closed e)
  then show ?thesis
    by (intro that(4)) (auto simp: DeserSender_try_send_def DeserSender_try_reserve_def)
next
  case (full p')
  then show ?thesis
    by (intro that(3) [of p'])
      (auto simp: DeserSender_try_send_def DeserSender_try_reserve_def)
next
  case (reserved i p')
  then have same: "elem_type p' = t" "\<not> rx_closed p'" using t by (simp_all add: pipe_same_def)
  show ?thesis
  proof (cases "pc_from_bytes pc bs")
    case (Inl x)
    have "insert (unat i) H - {unat i} = H" using reserved(3) by simp
    moreover have "pipe_same p' (Reservation_drop io p' i)"
      by (simp add: pipe_same_def)
    ultimately show ?thesis
      using Inl reserved same release_inv [OF io reserved(4), of i]
      by (intro that(2) [of x "Reservation_drop io p' i"])
        (auto simp: DeserSender_try_send_def DeserSender_try_reserve_def SerPermit_send_undecodable
          intro: pipe_same_trans)
  next
    case (Inr m)
    let ?p = "p'\<lparr>elements := (elements p')[unat i := Some m]\<rparr>"
    have "pipe_inv fr (insert (unat i) H) ?p" "pipe_messages ?p = pipe_messages p'"
      by (rule pipe_inv_write [OF reserved(4)]; simp)+
    moreover have "insert (unat i) H - {unat i} = H" using reserved(3) by simp
    ultimately have "pipe_inv fr H (Core_committed ?p i)"
      "pipe_messages (Core_committed ?p i) = pipe_messages p @ [m]"
      "Core_head (Core_committed ?p i) = Core_head p" "pipe_same ?p (Core_committed ?p i)"
      using commit_inv [of fr "insert (unat i) H" ?p i m sched] reserved same sched by auto
    moreover have "pipe_same p' ?p" by simp
    ultimately have "pipe_same p (Core_committed ?p i)" using reserved(6) by (metis pipe_same_trans)
    then show ?thesis using Inr reserved same sched \<open>pipe_inv fr H (Core_committed ?p i)\<close>
      \<open>pipe_messages (Core_committed ?p i) = pipe_messages p @ [m]\<close>
      \<open>Core_head (Core_committed ?p i) = Core_head p\<close>
      using SerPermit_send_decoded [OF reserved(4), of i sched t pc bs m io]
      by (intro that(1) [of m "Core_committed ?p i"])
        (auto simp: DeserSender_try_send_def DeserSender_try_reserve_def)
  qed
qed

subsection \<open>The channel from bytes to bytes\<close>

record ('e, 'ia, 'm, 'x) ser_channel = "('e, 'ia, 'm) channel" +
  ch_postcard :: "('m, 'x) postcard"

definition ser_channel_wf :: "('e, 'ia, 'm, 'x) ser_channel \<Rightarrow> bool" where
  "ser_channel_wf c \<longleftrightarrow>
     index_alloc (ch_io c) (ch_free c) \<and> pipe_inv (ch_free c) (ch_held c) (ch_pipe c) \<and>
     True \<in> set (ch_sched c) \<and> postcard_roundtrip (ch_postcard c) \<and>
     (\<forall>m \<in> set (pipe_messages (ch_pipe c)). \<not> isl (pc_to_allocvec (ch_postcard c) m))"

definition ser_channel_content :: "('e, 'ia, 'm, 'x) ser_channel \<Rightarrow> 'm list" where
  "ser_channel_content c = pipe_messages (ch_pipe c)"

text \<open>The far end encodes a message and hands its bytes to the \<open>DeserSender\<close>.\<close>

definition ser_channel_send ::
  "('e, 'ia, 'm, 'x) ser_channel \<Rightarrow> 'm \<Rightarrow> (('e, 'ia, 'm, 'x) ser_channel \<times> bool) outcome" where
  "ser_channel_send c m =
     (case pc_to_allocvec (ch_postcard c) m of
        Err _ \<Rightarrow> Done (c, False)
      | Ok bs \<Rightarrow>
          outcome_map (\<lambda>(p, r). (c\<lparr>ch_pipe := p\<rparr>, \<not> isl r))
            (DeserSender_try_send (ch_io c) (ch_postcard c) (elem_type (ch_pipe c)) (ch_sched c)
               (ch_pipe c) bs))"

text \<open>The bytes of a received reference, decoded by the far end; the reference is dropped.\<close>

definition ser_channel_recv ::
  "('e, 'ia, 'm, 'x) ser_channel \<Rightarrow> (('e, 'ia, 'm, 'x) ser_channel \<times> 'm option) outcome" where
  "ser_channel_recv c =
     outcome_bind (SerReceiver_try_recv (ch_sched c) (ch_pipe c)) (\<lambda>(p1, r).
       case r of
         Err _ \<Rightarrow> Done (c\<lparr>ch_pipe := p1\<rparr>, None)
       | Ok i \<Rightarrow>
           outcome_bind (SerRecvRef_to_vec (ch_postcard c) (elem_type p1) p1 i) (\<lambda>bs.
             outcome_map (\<lambda>p2. (c\<lparr>ch_pipe := p2\<rparr>,
                 case bs of
                   Err _ \<Rightarrow> None
                 | Ok bs' \<Rightarrow> (case pc_from_bytes (ch_postcard c) bs' of Err _ \<Rightarrow> None | Ok m \<Rightarrow> Some m)))
               (SerRecvRef_drop (ch_io c) (elem_type p1) p1 i)))"

definition ser_channel_control ::
  "('e, 'ia, 'm, 'x) ser_channel \<Rightarrow> 'e control \<Rightarrow> ('e, 'ia, 'm, 'x) ser_channel outcome" where
  "ser_channel_control c x = Done (c\<lparr>ch_pipe := pipe_control (ch_pipe c) x\<rparr>)"

lemma ser_channel_recv_spec:
  assumes "ser_channel_wf c"
  obtains (got) m c' where "Core_head (ch_pipe c) \<noteq> 1023" "ser_channel_recv c = Done (c', Some m)"
      "ser_channel_wf c'" "ser_channel_content c = m # ser_channel_content c'"
      "Core_head (ch_pipe c') = Core_head (ch_pipe c) + 1"
  | (nothing) "ser_channel_content c = [] \<or> Core_head (ch_pipe c) = 1023"
      "ser_channel_recv c = Done (c, None)"
proof -
  let ?p = "ch_pipe c"
  have io: "index_alloc (ch_io c) (ch_free c)" and inv: "pipe_inv (ch_free c) (ch_held c) ?p"
    and sched: "True \<in> set (ch_sched c)" and pc: "postcard_roundtrip (ch_postcard c)"
    and enc: "\<forall>m \<in> set (pipe_messages ?p). \<not> isl (pc_to_allocvec (ch_postcard c) m)"
    using assms by (simp_all add: ser_channel_wf_def)
  note attempt = try_dequeue_cases [OF pipe_invD(2) [OF inv] sched]
  show ?thesis
  proof (cases "Core_queued ?p = [] \<or> Core_head ?p = 1023")
    case True
    then show ?thesis
      using attempt by (intro that(2))
        (auto simp: ser_channel_recv_def SerReceiver_try_recv_def ser_channel_content_def
          pipe_messages_def split: list.splits)
  next
    case False
    then obtain i q where q: "Core_queued ?p = i # q" and h: "Core_head ?p \<noteq> 1023"
      by (cases "Core_queued ?p") auto
    obtain v where v: "elements ?p ! unat i = Some v"
      "pipe_messages ?p = v # pipe_messages (Core_dequeued ?p)"
      "pipe_inv (ch_free c) (insert (unat i) (ch_held c)) (Core_dequeued ?p)" "unat i \<notin> ch_held c"
      "unat i < length (elements ?p)"
      by (rule dequeue_inv [OF inv q h])
    obtain p' where p': "SerRecvRef_drop (ch_io c) (elem_type ?p) (Core_dequeued ?p) i = Done p'"
      "pipe_inv (ch_free c) (ch_held c) p'" "pipe_messages p' = pipe_messages (Core_dequeued ?p)"
      "Core_head p' = Core_head (Core_dequeued ?p)"
      using SerRecvRef_drop_inv [OF io v(3,4), of v "elem_type ?p"] v(1)
      by (metis Core_dequeued_elem_type(1,2))
    obtain bs where bs: "pc_to_allocvec (ch_postcard c) v = Ok bs"
      using enc v(2) by (auto simp: isl_def) (metis sum.exhaust)
    then have "pc_from_bytes (ch_postcard c) bs = Ok v"
      using pc by (simp add: postcard_roundtrip_def)
    moreover have "SerRecvRef_to_vec (ch_postcard c) (elem_type ?p) (Core_dequeued ?p) i = Done (Ok bs)"
      using v(1,5) bs by (simp add: SerRecvRef_to_vec_def SerVtable_to_vec_def SerVtable_elem_def
          ErasedSlice_unerase_def cell_ref_def)
    ultimately have "ser_channel_recv c = Done (c\<lparr>ch_pipe := p'\<rparr>, Some v)"
      using attempt q h p'(1) by (simp add: ser_channel_recv_def SerReceiver_try_recv_def)
    then show ?thesis
      using h p' v(2) enc io sched pc Core_dequeued_abs(3) [OF pipe_invD(2) [OF inv] q h]
      by (intro that(1) [of "c\<lparr>ch_pipe := p'\<rparr>" v])
        (simp_all add: ser_channel_wf_def ser_channel_content_def)
  qed
qed

interpretation serde_channel: live_fifo ser_channel_wf ser_channel_content ser_channel_send
  ser_channel_recv ser_channel_control "\<lambda>c n. Core_head (ch_pipe c) + n > 1023"
proof
  fix c :: "('e, 'ia, 'm, 'x) ser_channel" and m x n
  assume wf: "ser_channel_wf c"
  then have io: "index_alloc (ch_io c) (ch_free c)"
    and inv: "pipe_inv (ch_free c) (ch_held c) (ch_pipe c)" and sched: "True \<in> set (ch_sched c)"
    and pc: "postcard_roundtrip (ch_postcard c)"
    by (simp_all add: ser_channel_wf_def)
  show "\<exists>c' b. ser_channel_send c m = Done (c', b) \<and> ser_channel_wf c' \<and>
      ser_channel_content c' = ser_channel_content c @ (if b then [m] else [])"
  proof (cases "pc_to_allocvec (ch_postcard c) m")
    case (Inl x)
    with wf show ?thesis by (auto simp: ser_channel_send_def)
  next
    case (Inr bs)
    then have "pc_from_bytes (ch_postcard c) bs = Ok m" using pc by (simp add: postcard_roundtrip_def)
    with Inr wf show ?thesis
      by (cases rule: DeserSender_try_send_spec [OF io inv refl sched, of "ch_postcard c" bs])
        (auto simp: ser_channel_send_def ser_channel_wf_def ser_channel_content_def)
  qed
  show "\<exists>c' r. ser_channel_recv c = Done (c', r) \<and> ser_channel_wf c' \<and>
      ser_channel_content c = (case r of Some m \<Rightarrow> [m] | None \<Rightarrow> []) @ ser_channel_content c'"
    using wf by (cases rule: ser_channel_recv_spec [OF wf]) auto
  show "\<exists>c'. ser_channel_control c x = Done c' \<and> ser_channel_wf c' \<and>
      ser_channel_content c' = ser_channel_content c"
    using wf pipe_control_inv [OF inv]
    by (simp add: ser_channel_control_def ser_channel_wf_def ser_channel_content_def)
  assume "ser_channel_content c \<noteq> []" "\<not> Core_head (ch_pipe c) + Suc n > 1023"
  then show "\<exists>c' m. ser_channel_recv c = Done (c', Some m) \<and> \<not> Core_head (ch_pipe c') + n > 1023"
    by (cases rule: ser_channel_recv_spec [OF wf]) auto
qed

end
