(* ===== verification/Mpsc_System.thy ===== *)
theory Mpsc_System
  imports Mpsc_Serde
begin

section \<open>All the handles of one channel\<close>

text \<open>
  A step relation over everything the owners of a channel's handles can do, in any order: make,
  clone and drop handles, send directly or through a permit, receive, close with an error. The
  permits borrow a sender, so the last sender outlives them. The invariant relates the reference
  counts to the live handles, the closed bits to the handles that are gone, and the messages
  received and queued to those sent.
\<close>

record ('e, 'ia, 'm) system =
  s_pipe :: "('e, 'ia, 'm) pipe"
  pipes :: nat \<comment> \<open>live \<open>TrickyPipe\<close> handles\<close>
  txs :: nat \<comment> \<open>live senders\<close>
  rxs :: nat \<comment> \<open>live receivers\<close>
  permits :: "u8 list" \<comment> \<open>the indices of the live permits\<close>
  lost :: "nat set" \<comment> \<open>indices whose commit met a closed channel\<close>
  sent :: "'m list"
  got :: "'m list"

datatype ('e, 'm) event =
    New_Sender | New_Receiver | Clone_Pipe | Drop_Pipe | Clone_Sender | Drop_Sender | Drop_Receiver
  | Try_Send 'm | Reserve | Send_Permit nat 'm | Drop_Permit nat | Try_Recv | Close_Error 'e

definition handles :: "('e, 'ia, 'm) system \<Rightarrow> nat" where
  "handles s = pipes s + txs s + rxs s"

text \<open>What the ownership rules let happen; the sender count has 61 bits.\<close>

fun enabled :: "('e, 'ia, 'm) system \<Rightarrow> ('e, 'm) event \<Rightarrow> bool" where
  "enabled s New_Sender = (pipes s > 0 \<and> int (pipes s + txs s) < 2 ^ 61 - 1)"
| "enabled s New_Receiver = (pipes s > 0)"
| "enabled s Clone_Pipe = (pipes s > 0 \<and> int (pipes s + txs s) < 2 ^ 61 - 1)"
| "enabled s Drop_Pipe = (pipes s > 0)"
| "enabled s Clone_Sender = (txs s > 0 \<and> int (pipes s + txs s) < 2 ^ 61 - 1)"
| "enabled s Drop_Sender = (txs s > 0 \<and> (permits s = [] \<or> txs s > 1))"
| "enabled s Drop_Receiver = (rxs s > 0)"
| "enabled s (Try_Send m) = (txs s > 0)"
| "enabled s Reserve = (txs s > 0)"
| "enabled s (Send_Permit k m) = (k < length (permits s))"
| "enabled s (Drop_Permit k) = (k < length (permits s))"
| "enabled s Try_Recv = (rxs s > 0)"
| "enabled s (Close_Error e) = (txs s + rxs s > 0)"

definition remove_nth :: "nat \<Rightarrow> 'a list \<Rightarrow> 'a list" where
  "remove_nth k xs = take k xs @ drop (Suc k) xs"

fun exec ::
  "'ia index_ops \<Rightarrow> bool list \<Rightarrow> ('e, 'ia, 'm) system \<Rightarrow> ('e, 'm) event
    \<Rightarrow> ('e, 'ia, 'm) system outcome" where
  "exec io sched s New_Sender =
     outcome_map (\<lambda>p. s\<lparr>s_pipe := p, txs := txs s + 1\<rparr>) (TrickyPipe_sender (s_pipe s))"
| "exec io sched s New_Receiver =
     outcome_map (\<lambda>(p, r). s\<lparr>s_pipe := p, rxs := rxs s + (if r = None then 0 else 1)\<rparr>)
       (TrickyPipe_receiver (s_pipe s))"
| "exec io sched s Clone_Pipe =
     outcome_map (\<lambda>p. s\<lparr>s_pipe := p, pipes := pipes s + 1\<rparr>) (TrickyPipe_clone (s_pipe s))"
| "exec io sched s Drop_Pipe =
     outcome_map (\<lambda>p. s\<lparr>s_pipe := p, pipes := pipes s - 1\<rparr>)
       (TrickyPipe_drop io (replicate 65 sched) (s_pipe s))"
| "exec io sched s Clone_Sender =
     outcome_map (\<lambda>p. s\<lparr>s_pipe := p, txs := txs s + 1\<rparr>) (Sender_clone (s_pipe s))"
| "exec io sched s Drop_Sender =
     outcome_map (\<lambda>p. s\<lparr>s_pipe := p, txs := txs s - 1\<rparr>)
       (Sender_drop io (replicate 65 sched) (s_pipe s))"
| "exec io sched s Drop_Receiver =
     outcome_map (\<lambda>p. s\<lparr>s_pipe := p, rxs := rxs s - 1\<rparr>)
       (Receiver_drop io (replicate 65 sched) (s_pipe s))"
| "exec io sched s (Try_Send m) =
     outcome_map (\<lambda>(p, r). s\<lparr>s_pipe := p, sent := sent s @ (if isl r then [] else [m])\<rparr>)
       (Sender_try_send io (elem_type (s_pipe s)) sched (s_pipe s) m)"
| "exec io sched s Reserve =
     outcome_map (\<lambda>(p, r). s\<lparr>s_pipe := p,
         permits := permits s @ (case r of Ok i \<Rightarrow> [i] | Err _ \<Rightarrow> [])\<rparr>)
       (Sender_try_reserve io (elem_type (s_pipe s)) (s_pipe s))"
| "exec io sched s (Send_Permit k m) =
     outcome_map (\<lambda>p. s\<lparr>s_pipe := p, permits := remove_nth k (permits s),
         lost := lost s \<union> (if rx_closed (s_pipe s) then {unat (permits s ! k)} else {}),
         sent := sent s @ (if rx_closed (s_pipe s) then [] else [m])\<rparr>)
       (Permit_send sched (s_pipe s) (permits s ! k) m)"
| "exec io sched s (Drop_Permit k) =
     Done (s\<lparr>s_pipe := Permit_drop io (s_pipe s) (permits s ! k), permits := remove_nth k (permits s)\<rparr>)"
| "exec io sched s Try_Recv =
     outcome_map (\<lambda>(p, r). s\<lparr>s_pipe := p, got := got s @ (case r of Ok m \<Rightarrow> [m] | Err _ \<Rightarrow> [])\<rparr>)
       (Receiver_try_recv io (elem_type (s_pipe s)) sched (s_pipe s))"
| "exec io sched s (Close_Error e) =
     Done (s\<lparr>s_pipe := fst (Sender_close_with_error (s_pipe s) e)\<rparr>)"

definition initial :: "('e, 'ia, 'm) pipe \<Rightarrow> ('e, 'ia, 'm) system" where
  "initial p = \<lparr>s_pipe = p, pipes = 1, txs = 0, rxs = 0, permits = [], lost = {}, sent = [], got = []\<rparr>"

inductive reachable :: "'ia index_ops \<Rightarrow> bool list \<Rightarrow> u8 \<Rightarrow> ('e, 'ia, 'm) system \<Rightarrow> bool"
  for io :: "'ia index_ops" and sched :: "bool list" and cap :: u8 where
  start: "TrickyPipe_new io t name cap = Done p \<Longrightarrow> reachable io sched cap (initial p)"
| step: "reachable io sched cap s \<Longrightarrow> enabled s ev \<Longrightarrow> exec io sched s ev = Done s' \<Longrightarrow>
     reachable io sched cap s'"

definition held :: "('e, 'ia, 'm) system \<Rightarrow> nat set" where
  "held s = unat ` set (permits s) \<union> lost s"

text \<open>The part of the invariant that holds while a handle is left.\<close>

definition live_inv :: "('ia \<Rightarrow> nat set) \<Rightarrow> ('e, 'ia, 'm) system \<Rightarrow> bool" where
  "live_inv fr s \<longleftrightarrow>
     pipe_inv fr (held s) (s_pipe s) \<and> distinct (permits s) \<and> unat ` set (permits s) \<inter> lost s = {} \<and>
     tx_count (s_pipe s) = pipes s + txs s \<and>
     (rx_closed (s_pipe s) \<longleftrightarrow> errored (s_pipe s) \<or> rx_claimed (s_pipe s) \<and> rxs s = 0) \<and>
     (rxs s > 0 \<longrightarrow> rx_claimed (s_pipe s)) \<and>
     sent s = got s @ pipe_messages (s_pipe s)"

definition system_inv :: "('ia \<Rightarrow> nat set) \<Rightarrow> ('e, 'ia, 'm) system \<Rightarrow> bool" where
  "system_inv fr s \<longleftrightarrow>
     storage (s_pipe s) = Arc (handles s) \<and> rxs s \<le> 1 \<and> (permits s \<noteq> [] \<longrightarrow> txs s > 0) \<and>
     (handles s > 0 \<longrightarrow> live_inv fr s)"

subsection \<open>The operations that only touch the state word\<close>

lemma add_tx_pipe:
  assumes inv: "pipe_inv fr H p" and "0 < tx_count p" "tx_count p < 2 ^ 61 - 1"
  shows "pipe_inv fr H (Core_add_tx p)" "pipe_messages (Core_add_tx p) = pipe_messages p"
    "tx_count (Core_add_tx p) = tx_count p + 1" "errored (Core_add_tx p) = errored p"
    "rx_claimed (Core_add_tx p) = rx_claimed p" "rx_closed (Core_add_tx p) = rx_closed p"
    "storage (Core_add_tx p) = storage p"
proof -
  have "core_inv (Core_add_tx p)" "tx_count (Core_add_tx p) = tx_count p + 1"
    using Core_add_tx_inv pipe_invD(1) [OF inv] assms(2,3) by blast+
  moreover from this show "tx_count (Core_add_tx p) = tx_count p + 1" by simp
  ultimately show "pipe_inv fr H (Core_add_tx p)" "pipe_messages (Core_add_tx p) = pipe_messages p"
    using pipe_inv_frame [OF inv, of "Core_add_tx p"] by (simp_all add: Core_add_tx_def)
qed (simp_all add: Core_add_tx_def TX_ONE_value state_bits low_bits_add_tx)

lemma drop_tx_pipe:
  assumes inv: "pipe_inv fr H p" and "0 < tx_count p"
  shows "pipe_inv fr H (Core_drop_tx p)" "pipe_messages (Core_drop_tx p) = pipe_messages p"
    "tx_count (Core_drop_tx p) = tx_count p - 1" "errored (Core_drop_tx p) = errored p"
    "rx_claimed (Core_drop_tx p) = rx_claimed p" "rx_closed (Core_drop_tx p) = rx_closed p"
    "storage (Core_drop_tx p) = storage p"
proof -
  have core: "core_inv (Core_drop_tx p)" "tx_count (Core_drop_tx p) = tx_count p - 1"
    using Core_drop_tx_inv pipe_invD(1) [OF inv] assms(2) by blast+
  then show "tx_count (Core_drop_tx p) = tx_count p - 1" by simp
  show "rx_closed (Core_drop_tx p) = rx_closed p" "storage (Core_drop_tx p) = storage p"
    using pipe_invD(2) [OF inv] by (simp_all add: Core_drop_tx_def Let_def close_tx_abs)
  show "pipe_inv fr H (Core_drop_tx p)" "pipe_messages (Core_drop_tx p) = pipe_messages p"
    using pipe_inv_frame [OF inv core(1)] pipe_invD(2) [OF inv]
    by (simp_all add: Core_drop_tx_def Let_def close_tx_abs)
qed (simp_all add: state_bits Core_drop_tx_state low_bits_sub_tx)

lemma close_rx_pipe:
  assumes inv: "pipe_inv fr H p"
  shows "pipe_inv fr H (Core_close_rx p)" "pipe_messages (Core_close_rx p) = pipe_messages p"
    "rx_closed (Core_close_rx p)" "tx_count (Core_close_rx p) = tx_count p"
    "errored (Core_close_rx p) = errored p" "rx_claimed (Core_close_rx p) = rx_claimed p"
    "storage (Core_close_rx p) = storage p"
  using pipe_control_inv [OF inv, of Close_Rx] close_rx_abs(4) [OF pipe_invD(2) [OF inv]]
  by (simp_all add: state_bits)

lemma claim_rx_pipe:
  assumes inv: "pipe_inv fr H p"
  defines "p' \<equiv> fst (Core_try_claim_rx p)"
  shows "Core_try_claim_rx p = (p', if rx_claimed p then None else Some ())"
    "pipe_inv fr H p'" "pipe_messages p' = pipe_messages p" "rx_closed p' = rx_closed p"
    "tx_count p' = tx_count p" "errored p' = errored p" "rx_claimed p'" "storage p' = storage p"
proof -
  show "pipe_inv fr H p'" "pipe_messages p' = pipe_messages p"
    unfolding p'_def using pipe_control_inv [OF inv, of Claim_Rx] by simp_all
qed (simp_all add: p'_def Core_try_claim_rx_def Let_def state_bits layout_simps)

lemma close_error_pipe:
  assumes inv: "pipe_inv fr H p" and p'_def: "p' = fst (Core_close_with_error p e)"
  shows "pipe_inv fr H p'" "pipe_messages p' = pipe_messages p" "rx_closed p'" "errored p'"
    "tx_count p' = tx_count p" "rx_claimed p' = rx_claimed p" "storage p' = storage p"
proof -
  show "pipe_inv fr H p'" "pipe_messages p' = pipe_messages p"
    unfolding p'_def using pipe_control_inv [OF inv, of "Close_With_Error e"] by simp_all
  have core: "core_inv p" by (rule pipe_invD(1) [OF inv])
  show "rx_closed p'" "errored p'" "tx_count p' = tx_count p"
    unfolding p'_def
    using close_with_error_first [OF core] close_with_error_again [OF core, of e] core
    by (cases "errored p"; simp add: core_inv_def)+
  show "rx_claimed p' = rx_claimed p" "storage p' = storage p"
    unfolding p'_def by (simp_all add: Core_close_with_error_def Let_def state_bits layout_simps)
qed

subsection \<open>Reference counting\<close>

lemma ErasedPipe_clone_live:
  "storage p = Arc (Suc n) \<Longrightarrow> ErasedPipe_clone p = Done (p\<lparr>storage := Arc (Suc (Suc n))\<rparr>)"
  by (simp add: ErasedPipe_clone_def)

lemma ErasedPipe_drop_shared:
  "storage p = Arc (Suc (Suc n)) \<Longrightarrow> ErasedPipe_drop io scheds p = Done (p\<lparr>storage := Arc (Suc n)\<rparr>)"
  by (simp add: ErasedPipe_drop_def)

lemma ErasedPipe_drop_last:
  assumes "index_alloc io fr" "pipe_inv fr H p" "storage p = Arc 1" "True \<in> set sched"
  shows "\<exists>p'. ErasedPipe_drop io (replicate 65 sched) p = Done p' \<and> storage p' = Arc 0 \<and>
    dropped p' = dropped p @ take (1023 - Core_head p) (pipe_messages p)"
proof -
  have "length (Core_queued p) \<le> 64"
    using core_repD(2) [OF core_wf_rep [OF pipe_invD(2) [OF assms(2)]]] .
  then show ?thesis
    using SharedState_drop_spec [OF assms(1), of H "p\<lparr>storage := Arc 0\<rparr>" "replicate 65 sched"]
      assms(2-) by (simp add: ErasedPipe_drop_def)
qed


subsection \<open>Every step keeps the invariant\<close>

lemma remove_nth_props:
  assumes "k < length xs" "distinct xs"
  shows "set (remove_nth k xs) = set xs - {xs ! k}" "distinct (remove_nth k xs)"
proof -
  have xs: "xs = take k xs @ xs ! k # drop (Suc k) xs" using assms(1) by (rule id_take_nth_drop)
  show "distinct (remove_nth k xs)" using assms(2) xs unfolding remove_nth_def
    by (metis distinct_append distinct.simps(2) disjoint_insert(1) list.set(2))
  have "xs ! k \<notin> set (take k xs)" "xs ! k \<notin> set (drop (Suc k) xs)"
    using assms(2) by (subst (asm) xs, simp)+
  moreover have "set xs = set (take k xs) \<union> insert (xs ! k) (set (drop (Suc k) xs))"
    by (subst xs) simp
  ultimately show "set (remove_nth k xs) = set xs - {xs ! k}"
    by (auto simp: remove_nth_def)
qed

lemma system_invD:
  assumes "system_inv fr s" "handles s > 0"
  shows "pipe_inv fr (held s) (s_pipe s)" "distinct (permits s)"
    "unat ` set (permits s) \<inter> lost s = {}" "tx_count (s_pipe s) = pipes s + txs s"
    "rx_closed (s_pipe s) \<longleftrightarrow> errored (s_pipe s) \<or> rx_claimed (s_pipe s) \<and> rxs s = 0"
    "rxs s > 0 \<Longrightarrow> rx_claimed (s_pipe s)" "sent s = got s @ pipe_messages (s_pipe s)"
    "storage (s_pipe s) = Arc (handles s)" "rxs s \<le> 1" "permits s \<noteq> [] \<Longrightarrow> txs s > 0"
  using assms by (simp_all add: system_inv_def live_inv_def)

text \<open>Making a handle: the pipe as the state word's operation leaves it, one reference more.\<close>

lemma new_tx_step:
  assumes inv: "system_inv fr s" and "handles s > 0" and "0 < pipes s + txs s"
    and "pipes s + txs s < 2 ^ 61 - 1"
  shows "ErasedPipe_clone (Core_add_tx (s_pipe s)) =
      Done (Core_add_tx (s_pipe s)\<lparr>storage := Arc (handles s + 1)\<rparr>)"
    and "s' = s\<lparr>s_pipe := Core_add_tx (s_pipe s)\<lparr>storage := Arc (handles s + 1)\<rparr>, txs := txs s + 1\<rparr> \<or>
         s' = s\<lparr>s_pipe := Core_add_tx (s_pipe s)\<lparr>storage := Arc (handles s + 1)\<rparr>, pipes := pipes s + 1\<rparr>
       \<Longrightarrow> system_inv fr s'"
proof -
  note I = system_invD [OF inv assms(2)]
  have "0 < tx_count (s_pipe s)" "tx_count (s_pipe s) < 2 ^ 61 - 1" using assms(3,4) I(4) by simp_all
  note A = add_tx_pipe [OF I(1) this]
  show "ErasedPipe_clone (Core_add_tx (s_pipe s)) =
      Done (Core_add_tx (s_pipe s)\<lparr>storage := Arc (handles s + 1)\<rparr>)"
    using A(7) I(8) assms(2) by (simp add: ErasedPipe_clone_def)
  assume "s' = s\<lparr>s_pipe := Core_add_tx (s_pipe s)\<lparr>storage := Arc (handles s + 1)\<rparr>, txs := txs s + 1\<rparr> \<or>
    s' = s\<lparr>s_pipe := Core_add_tx (s_pipe s)\<lparr>storage := Arc (handles s + 1)\<rparr>, pipes := pipes s + 1\<rparr>"
  then show "system_inv fr s'"
    using A I inv
    by (elim disjE) (simp_all add: system_inv_def live_inv_def handles_def held_def state_bits)
qed

text \<open>Dropping a handle: the last one frees the channel, any other only counts down.\<close>

lemma drop_handle:
  assumes io: "index_alloc io fr" and sched: "True \<in> set sched" and inv: "pipe_inv fr H p"
    and st: "storage p = Arc n" and "0 < n"
  obtains p' where "ErasedPipe_drop io (replicate 65 sched) p = Done p'" "storage p' = Arc (n - 1)"
    "n > 1 \<longrightarrow> p' = p\<lparr>storage := Arc (n - 1)\<rparr>"
proof (cases "n = 1")
  case True
  then show ?thesis using ErasedPipe_drop_last [OF io inv _ sched] st that by auto
next
  case False
  with assms(5) st show ?thesis
    by (intro that [of "p\<lparr>storage := Arc (n - 1)\<rparr>"]) (simp_all add: ErasedPipe_drop_def)
qed

lemma drop_tx_step:
  assumes io: "index_alloc io fr" and sched: "True \<in> set sched" and inv: "system_inv fr s"
    and "0 < pipes s + txs s"
  obtains p' where
    "ErasedPipe_drop io (replicate 65 sched) (Core_drop_tx (s_pipe s)) = Done p'"
    "0 < pipes s \<Longrightarrow> system_inv fr (s\<lparr>s_pipe := p', pipes := pipes s - 1\<rparr>)"
    "0 < txs s \<Longrightarrow> permits s = [] \<or> txs s > 1 \<Longrightarrow>
       system_inv fr (s\<lparr>s_pipe := p', txs := txs s - 1\<rparr>)"
proof -
  have h: "handles s > 0" using assms(4) by (simp add: handles_def)
  note I = system_invD [OF inv h]
  have "0 < tx_count (s_pipe s)" using assms(4) I(4) by simp
  note D = drop_tx_pipe [OF I(1) this]
  have st: "storage (Core_drop_tx (s_pipe s)) = Arc (handles s)" using D(7) I(8) by simp
  obtain p' where p': "ErasedPipe_drop io (replicate 65 sched) (Core_drop_tx (s_pipe s)) = Done p'"
    "storage p' = Arc (handles s - 1)"
    "handles s > 1 \<longrightarrow> p' = Core_drop_tx (s_pipe s)\<lparr>storage := Arc (handles s - 1)\<rparr>"
    by (rule drop_handle [OF io sched D(1) st h])
  show ?thesis
  proof (rule that [OF p'(1)])
    show "system_inv fr (s\<lparr>s_pipe := p', pipes := pipes s - 1\<rparr>)" if "0 < pipes s"
      using that p' I D inv
      by (cases "handles s > 1") (auto simp: system_inv_def live_inv_def handles_def held_def state_bits)
    show "system_inv fr (s\<lparr>s_pipe := p', txs := txs s - 1\<rparr>)"
      if "0 < txs s" "permits s = [] \<or> txs s > 1"
      using that p' I D inv
      by (cases "handles s > 1") (auto simp: system_inv_def live_inv_def handles_def held_def state_bits)
  qed
qed

lemma drop_rx_step:
  assumes io: "index_alloc io fr" and sched: "True \<in> set sched" and inv: "system_inv fr s"
    and "0 < rxs s"
  obtains p' where
    "ErasedPipe_drop io (replicate 65 sched) (Core_close_rx (s_pipe s)) = Done p'"
    "system_inv fr (s\<lparr>s_pipe := p', rxs := rxs s - 1\<rparr>)"
proof -
  have h: "handles s > 0" using assms(4) by (simp add: handles_def)
  note I = system_invD [OF inv h]
  note D = close_rx_pipe [OF I(1)]
  have st: "storage (Core_close_rx (s_pipe s)) = Arc (handles s)" using D(7) I(8) by simp
  obtain p' where p': "ErasedPipe_drop io (replicate 65 sched) (Core_close_rx (s_pipe s)) = Done p'"
    "storage p' = Arc (handles s - 1)"
    "handles s > 1 \<longrightarrow> p' = Core_close_rx (s_pipe s)\<lparr>storage := Arc (handles s - 1)\<rparr>"
    by (rule drop_handle [OF io sched D(1) st h])
  have "system_inv fr (s\<lparr>s_pipe := p', rxs := rxs s - 1\<rparr>)"
    using assms(4) p' I D inv
    by (cases "handles s > 1") (auto simp: system_inv_def live_inv_def handles_def held_def state_bits)
  then show ?thesis by (rule that [OF p'(1)])
qed

lemma new_rx_step:
  assumes inv: "system_inv fr s" and h: "0 < handles s"
  obtains p' r where "TrickyPipe_receiver (s_pipe s) = Done (p', r)"
    "system_inv fr (s\<lparr>s_pipe := p', rxs := rxs s + (if r = None then 0 else 1)\<rparr>)"
proof -
  note I = system_invD [OF inv h]
  obtain q r where qr: "Core_try_claim_rx (s_pipe s) = (q, r)" by fastforce
  note C = claim_rx_pipe [OF I(1), unfolded qr fst_conv]
  have st: "storage q = Arc (handles s)" using C(8) I(8) by simp
  show ?thesis
  proof (cases "rx_claimed (s_pipe s)")
    case True
    then have "TrickyPipe_receiver (s_pipe s) = Done (q, None)"
      using C(1) qr by (simp add: TrickyPipe_receiver_def)
    moreover have "system_inv fr (s\<lparr>s_pipe := q\<rparr>)"
      using True C(2-) I inv st by (simp add: system_inv_def live_inv_def handles_def held_def)
    ultimately show ?thesis by (intro that [of q None]) simp_all
  next
    case False
    let ?q = "q\<lparr>storage := Arc (handles s + 1)\<rparr>"
    have "TrickyPipe_receiver (s_pipe s) = Done (?q, Some ())"
      using False C(1) qr st h
      by (simp add: TrickyPipe_receiver_def TrickyPipe_pipe_def ErasedPipe_clone_def)
    moreover have "rxs s = 0" using False I(6) by blast
    then have "system_inv fr (s\<lparr>s_pipe := ?q, rxs := rxs s + 1\<rparr>)"
      using False C(2-) I inv
      by (simp add: system_inv_def live_inv_def handles_def held_def state_bits)
    ultimately show ?thesis by (intro that [of ?q "Some ()"]) simp_all
  qed
qed

text \<open>Sending and receiving leave the counts and the closed bits alone.\<close>

lemma same_state: "pipe_same p p' \<Longrightarrow> tx_count p' = tx_count p \<and> errored p' = errored p \<and>
    rx_claimed p' = rx_claimed p \<and> rx_closed p' = rx_closed p \<and> storage p' = storage p"
  by (simp add: pipe_same_def state_bits)

lemma try_send_step:
  assumes io: "index_alloc io fr" and sched: "True \<in> set sched" and inv: "system_inv fr s"
    and h: "0 < handles s"
  shows "\<exists>s'. exec io sched s (Try_Send m) = Done s' \<and> system_inv fr s'"
proof -
  note I = system_invD [OF inv h]
  show ?thesis
    by (cases rule: Sender_try_send_spec [OF io I(1) refl sched, of m])
      (use I inv in \<open>auto simp: system_inv_def live_inv_def handles_def held_def dest!: same_state\<close>)
qed

lemma try_recv_step:
  assumes io: "index_alloc io fr" and sched: "True \<in> set sched" and inv: "system_inv fr s"
    and h: "0 < handles s"
  shows "\<exists>s'. exec io sched s Try_Recv = Done s' \<and> system_inv fr s'"
proof -
  note I = system_invD [OF inv h]
  show ?thesis
    by (cases rule: Receiver_try_recv_spec [OF io I(1) refl sched])
      (use I inv in \<open>auto simp: system_inv_def live_inv_def handles_def held_def dest!: same_state\<close>)
qed

lemma reserve_step:
  assumes io: "index_alloc io fr" and inv: "system_inv fr s" and tx: "0 < txs s"
  shows "\<exists>s'. exec io sched s Reserve = Done s' \<and> system_inv fr s'"
proof -
  have h: "0 < handles s" using tx by (simp add: handles_def)
  note I = system_invD [OF inv h]
  from io I(1) show ?thesis
  proof (cases rule: try_reserve_inv)
    case (closed e)
    then show ?thesis using inv by (simp add: Sender_try_reserve_def)
  next
    case (full p')
    then show ?thesis using I inv
      by (auto simp: Sender_try_reserve_def system_inv_def live_inv_def handles_def held_def
          dest!: same_state)
  next
    case (reserved i p')
    have "Sender_try_reserve io (elem_type (s_pipe s)) (s_pipe s) = Done (p', Ok i)"
      using reserved by (simp add: Sender_try_reserve_def typed_cell pipe_same_def)
    moreover have "i \<notin> set (permits s)" "unat i \<notin> lost s"
      using reserved(3) by (auto simp: held_def)
    moreover have "held (s\<lparr>s_pipe := p', permits := permits s @ [i]\<rparr>) = insert (unat i) (held s)"
      by (simp add: held_def)
    ultimately show ?thesis
      using reserved(4-6) I inv tx same_state [OF reserved(6)]
      by (simp add: system_inv_def live_inv_def handles_def)
  qed
qed

lemma permit_held:
  assumes I: "system_inv fr s" "handles s > 0" and k: "k < length (permits s)"
  shows "unat (permits s ! k) \<in> held s"
    and "unat ` set (remove_nth k (permits s)) \<union> lost s = held s - {unat (permits s ! k)}"
    and "distinct (remove_nth k (permits s))"
    and "unat (permits s ! k) \<notin> unat ` set (remove_nth k (permits s))"
    and "set (remove_nth k (permits s)) \<subseteq> set (permits s)"
proof -
  note R = remove_nth_props [OF k system_invD(2) [OF I]]
  have mem: "permits s ! k \<in> set (permits s)" using k by simp
  then have "unat (permits s ! k) \<notin> lost s" using system_invD(3) [OF I] by blast
  then show "unat ` set (remove_nth k (permits s)) \<union> lost s = held s - {unat (permits s ! k)}"
    unfolding R(1) held_def by (auto simp: word_unat_eq_iff [symmetric])
  show "unat (permits s ! k) \<in> held s" using mem by (simp add: held_def)
  show "distinct (remove_nth k (permits s))" by (rule R(2))
  show "unat (permits s ! k) \<notin> unat ` set (remove_nth k (permits s))"
    and "set (remove_nth k (permits s)) \<subseteq> set (permits s)"
    unfolding R(1) by (auto simp: word_unat_eq_iff [symmetric])
qed

lemma permit_handles: "system_inv fr s \<Longrightarrow> k < length (permits s) \<Longrightarrow> txs s > 0 \<and> handles s > 0"
  by (cases "permits s") (simp_all add: system_inv_def handles_def)

lemma permit_drop_step:
  assumes io: "index_alloc io fr" and inv: "system_inv fr s" and k: "k < length (permits s)"
  shows "\<exists>s'. exec io sched s (Drop_Permit k) = Done s' \<and> system_inv fr s'"
proof -
  have h: "txs s > 0" "handles s > 0" using permit_handles [OF inv k] by simp_all
  note I = system_invD [OF inv h(2)] and P = permit_held [OF inv h(2) k]
  have "unat ` set (remove_nth k (permits s)) \<inter> lost s = {}" using P(5) I(3) by blast
  then show ?thesis
    using release_inv [OF io I(1) P(1)] P(2,3) I(2-) h
    by (simp add: Permit_drop_def system_inv_def live_inv_def handles_def held_def state_bits)
qed

lemma permit_send_step:
  assumes sched: "True \<in> set sched" and inv: "system_inv fr s" and k: "k < length (permits s)"
  shows "\<exists>s'. exec io sched s (Send_Permit k m) = Done s' \<and> system_inv fr s'"
proof -
  have h: "txs s > 0" "handles s > 0" using permit_handles [OF inv k] by simp_all
  note I = system_invD [OF inv h(2)] and P = permit_held [OF inv h(2) k]
  have dis: "unat ` set (remove_nth k (permits s)) \<inter> lost s = {}" using P(5) I(3) by blast
  let ?i = "permits s ! k"
  show ?thesis
  proof (cases "rx_closed (s_pipe s)")
    case True
    have "unat ` set (remove_nth k (permits s)) \<union> insert (unat ?i) (lost s) = held s"
      using P(1,2) by auto
    then show ?thesis
      using True Permit_send_closed [OF I(1) P(1) True sched] pipe_inv_write [OF I(1) P(1)]
        P(3,4) dis I(2-) h
      by (auto simp: system_inv_def live_inv_def handles_def held_def state_bits)
  next
    case False
    obtain p' where "Permit_send sched (s_pipe s) ?i m = Done p'"
      "pipe_inv fr (held s - {unat ?i}) p'" "pipe_messages p' = pipe_messages (s_pipe s) @ [m]"
      "pipe_same (s_pipe s) p'"
      by (rule Permit_send_open [OF I(1) P(1) False sched])
    then show ?thesis
      using False P(2,3) dis I(2-) h
      by (auto simp: system_inv_def live_inv_def handles_def held_def dest!: same_state)
  qed
qed

lemma exec_safe:
  assumes io: "index_alloc io fr" and sched: "True \<in> set sched" and inv: "system_inv fr s"
    and en: "enabled s ev"
  shows "\<exists>s'. exec io sched s ev = Done s' \<and> system_inv fr s'"
proof (cases ev)
  case New_Sender
  with en new_tx_step [OF inv] show ?thesis
    by (auto simp: TrickyPipe_sender_def TrickyPipe_pipe_def handles_def)
next
  case New_Receiver
  with en have "0 < handles s" by (simp add: handles_def)
  from new_rx_step [OF inv this] show ?thesis using New_Receiver by fastforce
next
  case Clone_Pipe
  with en new_tx_step [OF inv] show ?thesis by (auto simp: TrickyPipe_clone_def handles_def)
next
  case Drop_Pipe
  with en have tx: "0 < pipes s" "0 < pipes s + txs s" by simp_all
  obtain p' where "TrickyPipe_drop io (replicate 65 sched) (s_pipe s) = Done p'"
    "system_inv fr (s\<lparr>s_pipe := p', pipes := pipes s - 1\<rparr>)"
    using drop_tx_step [OF io sched inv tx(2)] tx(1) unfolding TrickyPipe_drop_def by metis
  with Drop_Pipe show ?thesis by simp
next
  case Clone_Sender
  with en new_tx_step [OF inv] show ?thesis by (auto simp: Sender_clone_def handles_def)
next
  case Drop_Sender
  with en have tx: "0 < txs s" "permits s = [] \<or> txs s > 1" "0 < pipes s + txs s" by simp_all
  obtain p' where "Sender_drop io (replicate 65 sched) (s_pipe s) = Done p'"
    "system_inv fr (s\<lparr>s_pipe := p', txs := txs s - 1\<rparr>)"
    using drop_tx_step [OF io sched inv tx(3)] tx(1,2) unfolding Sender_drop_def by metis
  with Drop_Sender show ?thesis by simp
next
  case Drop_Receiver
  with en have rx: "0 < rxs s" by simp
  obtain p' where "Receiver_drop io (replicate 65 sched) (s_pipe s) = Done p'"
    "system_inv fr (s\<lparr>s_pipe := p', rxs := rxs s - 1\<rparr>)"
    using drop_rx_step [OF io sched inv rx] unfolding Receiver_drop_def by metis
  with Drop_Receiver show ?thesis by simp
next
  case (Try_Send m)
  with en have "0 < handles s" by (simp add: handles_def)
  with Try_Send show ?thesis using try_send_step [OF io sched inv] by blast
next
  case Try_Recv
  with en have "0 < handles s" by (simp add: handles_def)
  with Try_Recv show ?thesis using try_recv_step [OF io sched inv] by blast
next
  case Reserve
  with en have "0 < txs s" by simp
  with Reserve show ?thesis using reserve_step [OF io inv] by blast
next
  case (Send_Permit k m)
  with en have "k < length (permits s)" by simp
  with Send_Permit show ?thesis using permit_send_step [OF sched inv] by blast
next
  case (Drop_Permit k)
  with en have "k < length (permits s)" by simp
  with Drop_Permit show ?thesis using permit_drop_step [OF io inv] by blast
next
  case (Close_Error e)
  with en have h: "handles s > 0" by (auto simp: handles_def)
  note I = system_invD [OF inv h]
  show ?thesis
    using Close_Error close_error_pipe [OF I(1) refl, of e] I inv
    by (simp add: Sender_close_with_error_def system_inv_def live_inv_def handles_def held_def)
qed

lemma initial_inv:
  assumes io: "index_alloc io fr" and new: "TrickyPipe_new io t name cap = Done p"
  shows "system_inv fr (initial p)" "Core_head p = 0"
proof -
  from new obtain c where c: "Core_new io cap = Done c"
    and p: "p = core.extend c \<lparr>elements = replicate (unat cap) None, elem_type = t,
                 elem_type_name = name, storage = Arc 1, dropped = []\<rparr>"
    by (auto simp: TrickyPipe_new_def outcome_map_eq_Done_iff)
  have eq: "dequeue_pos p = dequeue_pos c" "enqueue_pos p = enqueue_pos c" "queue p = queue c"
    "state p = state c" "error p = error c" "indices p = indices c" "capacity p = capacity c"
    "elements p = replicate (unat cap) None" "storage p = Arc 1"
    by (simp_all add: p core.defs)
  have abs: "Core_head p = Core_head c" "Core_queued p = Core_queued c" "tx_closed p = tx_closed c"
    "rx_closed p = rx_closed c" "core_inv p = core_inv c" "tx_count p = tx_count c"
    "rx_claimed p = rx_claimed c" "errored p = errored c"
    using eq by (simp_all add: Core_head_def Core_tail_def Core_queued_def tx_closed_def rx_closed_def
        core_inv_def core_wf_def core_rep_def state_bits)
  note N = Core_new_abs [OF c]
  have cap: "unat cap \<le> 64" using c by (simp add: Core_new_def MAX_CAPACITY_def split: if_splits)
  show "Core_head p = 0" using N abs by simp
  show "system_inv fr (initial p)"
    using N abs eq cap index_allocD(1) [OF io cap]
    by (simp add: initial_def system_inv_def live_inv_def handles_def held_def pipe_inv_def
        pipe_messages_def)
qed

lemma reachable_inv:
  assumes "reachable io sched cap s" and "index_alloc io fr" and "True \<in> set sched"
  shows "system_inv fr s"
  using assms(1)
proof (induction rule: reachable.induct)
  case (start t name p)
  then show ?case using initial_inv assms(2) by blast
next
  case (step s ev s')
  then show ?case using exec_safe [OF assms(2,3), of s ev] by auto
qed

end
