(* ===== verification/Mpsc_Properties.thy ===== *)
theory Mpsc_Properties
  imports Mpsc_System
begin

section \<open>What the channels guarantee\<close>

text \<open>
  The properties of the MPSC channels, each with a witness on a concrete channel of capacity 4
  whose allocator is a bitmap.
\<close>

subsection \<open>A concrete channel\<close>

definition sample_pipe :: "(string, usize, nat) pipe" where
  "sample_pipe =
     \<lparr>dequeue_pos = 0, cons_wait = [], enqueue_pos = 0, prod_wait = [],
      indices = ia_with_capacity bitmap_ops 4,
      queue = map (\<lambda>i. push_bit POS_SHIFT (of_nat i)) [0..<64], state = TX_ONE, capacity = 4,
      error = None, elements = replicate 4 None, elem_type = 7, elem_type_name = ''u32'',
      storage = Arc 1, dropped = []\<rparr>"

lemma sample_new: "TrickyPipe_new bitmap_ops 7 ''u32'' 4 = Done sample_pipe"
  by (simp add: TrickyPipe_new_def Core_new_def MAX_CAPACITY_def core.defs sample_pipe_def)

lemma sample_inv: "pipe_inv bitmap_free {} sample_pipe"
  using initial_inv(1) [OF bitmap_index_alloc sample_new]
  by (simp add: system_inv_def live_inv_def initial_def handles_def held_def)

lemma sample_core_inv: "core_inv sample_pipe"
  by (rule pipe_invD(1) [OF sample_inv])

text \<open>A history of events, from the first state on.\<close>

fun run ::
  "'ia index_ops \<Rightarrow> bool list \<Rightarrow> ('e, 'm) event list \<Rightarrow> ('e, 'ia, 'm) system
    \<Rightarrow> ('e, 'ia, 'm) system outcome" where
  "run io sched [] s = Done s"
| "run io sched (ev # evs) s =
     (if enabled s ev then outcome_bind (exec io sched s ev) (run io sched evs) else Panic)"

lemma run_reachable:
  "reachable io sched cap s \<Longrightarrow> run io sched evs s = Done s' \<Longrightarrow> reachable io sched cap s'"
  by (induction evs arbitrary: s)
    (auto simp: outcome_bind_eq_Done_iff intro: reachable.step split: if_splits)

definition sample_system :: "(string, usize, nat) system outcome" where
  "sample_system =
     run bitmap_ops [True]
       [New_Sender, New_Receiver, Try_Send 10, Reserve, Try_Send 20, Send_Permit 0 30, Try_Recv,
        Drop_Pipe]
       (initial sample_pipe)"

lemma sample_system_facts:
  "case sample_system of
     Done s \<Rightarrow> handles s = 2 \<and> sent s = [10, 20, 30] \<and> got s = [10] \<and> txs s = 1 \<and> rxs s = 1 \<and>
       pipes s = 0
   | _ \<Rightarrow> False"
  by code_simp

lemma sample_system_reachable:
  obtains s where "sample_system = Done s" "reachable bitmap_ops [True] 4 s" "handles s = 2"
    "sent s = [10, 20, 30]" "got s = [10]" "txs s = 1" "rxs s = 1" "pipes s = 0"
proof -
  obtain s where s: "sample_system = Done s" "handles s = 2" "sent s = [10, 20, 30]" "got s = [10]"
    "txs s = 1" "rxs s = 1" "pipes s = 0"
    using sample_system_facts by (auto split: outcome.splits)
  moreover have "reachable bitmap_ops [True] 4 s"
    using run_reachable [OF reachable.start [OF sample_new]] s(1) unfolding sample_system_def .
  ultimately show ?thesis using that by blast
qed

subsection \<open>Histories of all handles\<close>



text \<open>
  C2: Messages are neither lost, duplicated nor reordered: in every reachable state of a channel
  that still has a handle, the messages accepted so far are those received followed by those
  queued.
\<close>

theorem mpsc_in_order:
  assumes "index_alloc io fr" and "True \<in> set sched" and "reachable io sched cap s"
    and "handles s > 0"
  shows "sent s = got s @ pipe_messages (s_pipe s)"
  by (rule system_invD(7) [OF reachable_inv [OF assms(3,1,2)] assms(4)])

theorem mpsc_in_order_witness:
  "\<exists>s. sample_system = Done s \<and> [10, 20, 30] = [10] @ pipe_messages (s_pipe s)"
proof -
  obtain s where s: "sample_system = Done s" "reachable bitmap_ops [True] 4 s" "handles s = 2"
    "sent s = [10, 20, 30]" "got s = [10]"
    by (rule sample_system_reachable)
  with mpsc_in_order [OF bitmap_index_alloc _ s(2)] show ?thesis
    by (intro exI [of _ s]) simp
qed

text \<open>
  C5: The closed bits say who is gone: the receiver sees the channel closed exactly when every
  \<open>TrickyPipe\<close> and every sender has been dropped or the channel was closed with an error; the
  senders see it closed exactly when the receiver has been dropped or there was an error.
\<close>

theorem mpsc_closed_iff:
  assumes "index_alloc io fr" and "True \<in> set sched" and "reachable io sched cap s"
    and "handles s > 0"
  shows "(tx_closed (s_pipe s) \<longleftrightarrow> pipes s = 0 \<and> txs s = 0 \<or> errored (s_pipe s)) \<and>
    (rx_closed (s_pipe s) \<longleftrightarrow> rx_claimed (s_pipe s) \<and> rxs s = 0 \<or> errored (s_pipe s))"
proof (rule conjI)
  note I = system_invD [OF reachable_inv [OF assms(3,1,2)] assms(4)]
  show "tx_closed (s_pipe s) \<longleftrightarrow> pipes s = 0 \<and> txs s = 0 \<or> errored (s_pipe s)"
    using pipe_invD(1) [OF I(1)] I(4) by (simp add: core_inv_def)
  show "rx_closed (s_pipe s) \<longleftrightarrow> rx_claimed (s_pipe s) \<and> rxs s = 0 \<or> errored (s_pipe s)"
    using I(5) by blast
qed

theorem mpsc_closed_iff_witness:
  "\<exists>s. sample_system = Done s \<and> (tx_closed (s_pipe s) \<longleftrightarrow> errored (s_pipe s)) \<and>
     (rx_closed (s_pipe s) \<longleftrightarrow> errored (s_pipe s))"
proof -
  obtain s where s: "sample_system = Done s" "reachable bitmap_ops [True] 4 s" "handles s = 2"
    "txs s = 1" "rxs s = 1"
    by (rule sample_system_reachable)
  with mpsc_closed_iff [OF bitmap_index_alloc _ s(2)] show ?thesis
    by (intro exI [of _ s]) simp
qed

subsection \<open>Each operation\<close>

text \<open>
  C6: \<open>Sender::try_send\<close> returns on every branch: it accepts the message and queues it last
  exactly when the receiver has not closed and an index is free; otherwise it gives the message
  back, and the queue is as before.
\<close>

theorem try_send_correct:
  assumes "index_alloc io fr" and "pipe_inv fr H p" and "elem_type p = t" and "True \<in> set sched"
  shows "\<exists>p' r. Sender_try_send io t sched p m = Done (p', r) \<and> pipe_inv fr H p' \<and>
    (r = Ok () \<longleftrightarrow> \<not> rx_closed p \<and> fr (indices p) \<noteq> {}) \<and>
    (case r of
       Ok _ \<Rightarrow> pipe_messages p' = pipe_messages p @ [m]
     | Err e \<Rightarrow> pipe_messages p' = pipe_messages p \<and> TrySendError_into_inner e = m \<and>
         (e = TrySendError_Full m \<longleftrightarrow> \<not> rx_closed p))"
  by (cases rule: Sender_try_send_spec [OF assms, of m]) (use assms(2) in auto)

theorem try_send_correct_witness:
  "\<exists>p' r. Sender_try_send bitmap_ops 7 [False, True] sample_pipe 5 = Done (p', r) \<and>
     (r = Ok () \<longrightarrow> pipe_messages p' = pipe_messages sample_pipe @ [5])"
  using try_send_correct [OF bitmap_index_alloc sample_inv, of 7 "[False, True]" 5]
  by (auto simp: sample_pipe_def)

text \<open>
  C7: \<open>Receiver::try_recv\<close> takes the oldest message out, or changes nothing: when it reports that
  there is no message, the queue is empty or the receiver has reached position 1023.
\<close>

theorem try_recv_correct:
  assumes "index_alloc io fr" and "pipe_inv fr H p" and "elem_type p = t" and "True \<in> set sched"
  shows "\<exists>p' r. Receiver_try_recv io t sched p = Done (p', r) \<and> pipe_inv fr H p' \<and>
    (case r of
       Ok m \<Rightarrow> pipe_messages p = m # pipe_messages p'
     | Err e \<Rightarrow> p' = p \<and> (pipe_messages p = [] \<or> Core_head p = 1023) \<and>
         e = (if tx_closed p then recv_closed_error p else TryRecvError_Empty))"
  by (cases rule: Receiver_try_recv_spec [OF assms]) (use assms(2) in auto)

theorem try_recv_correct_witness:
  "\<exists>p' r. Receiver_try_recv bitmap_ops 7 [True] sample_pipe = Done (p', r) \<and>
     pipe_inv bitmap_free {} p'"
  using try_recv_correct [OF bitmap_index_alloc sample_inv, of 7 "[True]"]
  by (auto simp: sample_pipe_def)

text \<open>
  C26: A permit is a promise: while the receiver has not closed, sending through a permit whose
  index is held queues the message last, whatever happened since the reservation, and gives the
  index to the queue. Once the receiver has closed, \<open>Permit::send\<close> still returns, but the message
  is not queued and its index is not given back.
\<close>

theorem permit_send_correct:
  assumes "pipe_inv fr H p" and "unat i \<in> H" and "True \<in> set sched"
  shows "\<exists>p'. Permit_send sched p i m = Done p' \<and>
    (if rx_closed p then pipe_messages p' = pipe_messages p \<and> pipe_inv fr H p'
     else pipe_messages p' = pipe_messages p @ [m] \<and> pipe_inv fr (H - {unat i}) p')"
proof (cases "rx_closed p")
  case True
  then show ?thesis
    using Permit_send_closed [OF assms(1,2) True assms(3)] pipe_inv_write [OF assms(1,2)] by simp
next
  case False
  then show ?thesis using Permit_send_open [OF assms(1,2) False assms(3), of m] by auto
qed

lemma sample_reserved:
  obtains i p where "Core_try_reserve bitmap_ops sample_pipe = (p, Ok i)"
    "pipe_inv bitmap_free {unat i} p" "\<not> rx_closed p" "pipe_messages p = []"
proof -
  have "\<not> rx_closed sample_pipe" "0 \<in> bitmap_free (indices sample_pipe)" "pipe_messages sample_pipe = []"
    by (simp add: sample_pipe_def rx_closed_def,
        simp add: sample_pipe_def bitmap_ops_def bitmap_free_def bit_not_iff bit_mask_iff,
        simp add: pipe_messages_def Core_queued_def sample_pipe_def Core_head_def Core_tail_def)
  then show ?thesis
    using that by (cases rule: try_reserve_inv [OF bitmap_index_alloc sample_inv])
      (auto simp: pipe_same_def)
qed

theorem permit_send_correct_witness:
  "\<exists>i p p'. Core_try_reserve bitmap_ops sample_pipe = (p, Ok i) \<and>
     Permit_send [True] p i 9 = Done p' \<and> pipe_messages p' = [9]"
proof -
  obtain i p where "Core_try_reserve bitmap_ops sample_pipe = (p, Ok i)"
    "pipe_inv bitmap_free {unat i} p" "\<not> rx_closed p" "pipe_messages p = []"
    by (rule sample_reserved)
  with permit_send_correct [of bitmap_free "{unat i}" p i "[True]" 9] show ?thesis by auto
qed


subsection \<open>Histories of one sender and one receiver\<close>

definition sample_channel :: "(string, usize, nat) channel" where
  "sample_channel = \<lparr>ch_io = bitmap_ops, ch_free = bitmap_free, ch_held = {}, ch_sched = [True],
     ch_pipe = sample_pipe\<rparr>"

lemma sample_channel_wf: "channel_wf sample_channel"
  using bitmap_index_alloc sample_inv by (simp add: channel_wf_def sample_channel_def)

lemma sample_channel_empty: "channel_content sample_channel = []" "Core_head sample_pipe = 0"
  by (simp_all add: channel_content_def sample_channel_def pipe_messages_def Core_queued_def
      sample_pipe_def Core_head_def Core_tail_def)

text \<open>
  C19: Any history of \<open>try_send\<close>, \<open>try_recv\<close>, claims and closings on a well-formed channel
  returns, and what was received followed by what is left is what was there at the start
  followed by what was accepted.
\<close>

theorem channel_history:
  assumes "channel_wf c"
  shows "\<exists>c' sent got.
    fifo_run channel_send channel_recv channel_control ops c = Done (c', sent, got) \<and> channel_wf c' \<and>
    channel_content c @ sent = got @ channel_content c'"
  using assms by (rule typed_channel.run_ordered)

theorem channel_history_witness:
  "\<exists>c' sent got.
     fifo_run channel_send channel_recv channel_control
       [Push 1, Push 2, Pop, Control Close_Rx, Push 3, Pop, Pop] sample_channel = Done (c', sent, got) \<and>
     sent = got @ channel_content c'"
  using channel_history [OF sample_channel_wf,
      of "[Push 1, Push 2, Pop, Control Close_Rx, Push 3, Pop, Pop]"] sample_channel_empty(1)
  by auto

text \<open>
  C28: A channel delivers: as long as the receiver's position stays below 1023, as many receives as
  there are messages return them all, in order, and leave the channel empty.
\<close>

theorem channel_delivers:
  assumes "channel_wf c" and "Core_head (ch_pipe c) + length (channel_content c) \<le> 1023"
  shows "\<exists>c'. fifo_run channel_send channel_recv channel_control
      (replicate (length (channel_content c)) Pop) c = Done (c', [], channel_content c) \<and>
    channel_content c' = []"
  using typed_channel.drain [OF assms(1)] assms(2) by (fastforce simp: channel_stalled_def)

lemma sample_sent:
  obtains c where "channel_send sample_channel 1 = Done (c, True)" "channel_wf c"
    "channel_content c = [1]" "Core_head (ch_pipe c) = 0"
proof -
  have "case channel_send sample_channel 1 of Done (c, b) \<Rightarrow> b \<and> Core_head (ch_pipe c) = 0 | _ \<Rightarrow> False"
    by code_simp
  then obtain c where c: "channel_send sample_channel 1 = Done (c, True)" "Core_head (ch_pipe c) = 0"
    by (auto split: outcome.splits)
  with typed_channel.push_law [OF sample_channel_wf, of 1] sample_channel_empty(1) show ?thesis
    using that by auto
qed

theorem channel_delivers_witness:
  "\<exists>c c'. channel_send sample_channel 1 = Done (c, True) \<and>
     fifo_run channel_send channel_recv channel_control [Pop] c = Done (c', [], [1])"
proof -
  obtain c where "channel_send sample_channel 1 = Done (c, True)" "channel_wf c"
    "channel_content c = [1]" "Core_head (ch_pipe c) = 0"
    by (rule sample_sent)
  with channel_delivers [of c] show ?thesis by auto
qed

text \<open>
  C35: The 10-bit sequence number of a slot wraps at position 1023, and the sequence number a
  receiver expects does not: whatever its history, a channel hands out at most 1023 messages in
  its life. From then on every receive reports an empty (or closed) channel, however many
  messages are queued.
\<close>

theorem channel_wedges:
  assumes "channel_wf c" and "Core_head (ch_pipe c) = 0"
    and "fifo_run channel_send channel_recv channel_control ops c = Done (c', accepted, received)"
  shows "length received \<le> 1023 \<and>
    (length received = 1023 \<longrightarrow> (\<forall>sched. True \<in> set sched \<longrightarrow>
       Receiver_try_recv (ch_io c') t sched (ch_pipe c') =
         Done (ch_pipe c', Err (if tx_closed (ch_pipe c') then recv_closed_error (ch_pipe c')
                                else TryRecvError_Empty))))"
proof -
  have head: "Core_head (ch_pipe c') = length received" and wf: "channel_wf c'"
    using channel_run_head [OF assms(1,3)] assms(2) by simp_all
  from wf have inv: "pipe_inv (ch_free c') (ch_held c') (ch_pipe c')" by (simp add: channel_wf_def)
  have "length received \<le> 1023"
    using core_repD(1) [OF core_wf_rep [OF pipe_invD(2) [OF inv]]] head by simp
  moreover have "Receiver_try_recv (ch_io c') t sched (ch_pipe c') =
      Done (ch_pipe c', Err (if tx_closed (ch_pipe c') then recv_closed_error (ch_pipe c')
                             else TryRecvError_Empty))"
    if "length received = 1023" "True \<in> set sched" for sched
    using try_dequeue_cases [OF pipe_invD(2) [OF inv] that(2)] that(1) head
    by (auto simp: Receiver_try_recv_def split: list.splits)
  ultimately show ?thesis by blast
qed

theorem channel_wedges_witness:
  "\<exists>c' sent got. fifo_run channel_send channel_recv channel_control [Push 1, Pop] sample_channel =
     Done (c', sent, got) \<and> length got \<le> 1023"
proof -
  have "Core_head (ch_pipe sample_channel) = 0"
    using sample_channel_empty(2) by (simp add: sample_channel_def)
  with channel_wedges [OF sample_channel_wf, of "[Push 1, Pop]"]
    typed_channel.run_ordered [OF sample_channel_wf, of "[Push 1, Pop]"]
  show ?thesis by (metis (no_types, lifting))
qed

text \<open>
  C27: The same contract for the serialising ends: messages sent as bytes to a \<open>DeserSender\<close> come
  out of the \<open>SerReceiver\<close>, as bytes, in order, if \<open>postcard\<close> decodes what it encodes.
\<close>

theorem serde_channel_history:
  assumes "ser_channel_wf c"
  shows "\<exists>c' sent got.
    fifo_run ser_channel_send ser_channel_recv ser_channel_control ops c = Done (c', sent, got) \<and>
    ser_channel_content c @ sent = got @ ser_channel_content c'"
  using serde_channel.run_ordered [OF assms] by blast

text \<open>A codec for numbers below 256: one byte.\<close>

definition byte_codec :: "(nat, unit) postcard" where
  "byte_codec = \<lparr>
     pc_to_slice = (\<lambda>m buf. if m < 256 \<and> buf \<noteq> [] then Ok [of_nat m] else Err ()),
     pc_to_slice_cobs = (\<lambda>m buf. Err ()),
     pc_to_allocvec = (\<lambda>m. if m < 256 then Ok [of_nat m] else Err ()),
     pc_to_allocvec_cobs = (\<lambda>m. Err ()),
     pc_from_bytes = (\<lambda>bs. case bs of [b] \<Rightarrow> Ok (unat b) | _ \<Rightarrow> Err ()),
     pc_from_bytes_cobs = (\<lambda>bs. Err ())\<rparr>"

definition sample_ser_channel :: "(string, usize, nat, unit) ser_channel" where
  "sample_ser_channel = \<lparr>ch_io = bitmap_ops, ch_free = bitmap_free, ch_held = {}, ch_sched = [True],
     ch_pipe = sample_pipe, ch_postcard = byte_codec\<rparr>"

lemma sample_ser_channel_wf: "ser_channel_wf sample_ser_channel"
proof -
  have "postcard_roundtrip byte_codec"
    by (auto simp: postcard_roundtrip_def byte_codec_def unat_of_nat split: if_splits)
  moreover have "pipe_messages sample_pipe = []"
    using sample_channel_empty(1) by (simp add: channel_content_def sample_channel_def)
  ultimately show ?thesis
    using bitmap_index_alloc sample_inv by (simp add: ser_channel_wf_def sample_ser_channel_def)
qed

theorem serde_channel_history_witness:
  "\<exists>c' sent got.
     fifo_run ser_channel_send ser_channel_recv ser_channel_control [Push 200, Push 300, Pop]
       sample_ser_channel = Done (c', sent, got) \<and>
     ser_channel_content sample_ser_channel @ sent = got @ ser_channel_content c'"
  by (rule serde_channel_history [OF sample_ser_channel_wf])


subsection \<open>Closing\<close>

text \<open>
  C30: Closing with an error works once: the first error closes both sides, later ones change
  nothing and report so. After it, every reservation fails with that error; the receiver still
  gets the messages that were queued, and then the error.
\<close>

theorem close_with_error_correct:
  assumes "core_inv c" and "\<not> errored c" and "Core_close_with_error c e = (c', closed)"
    and "True \<in> set sched"
  shows "closed \<and> Core_queued c' = Core_queued c \<and> core_inv c' \<and>
    Core_close_with_error c' e2 = (c', False) \<and>
    Core_try_reserve io c' = (c', Err (TrySendError_Error () e)) \<and>
    (Core_queued c' = [] \<longrightarrow> Core_try_dequeue sched c' = Done (c', Err (TryRecvError_Error e)))"
proof -
  have c': "c' = fst (Core_close_with_error c e)" and cl: "closed = snd (Core_close_with_error c e)"
    using assms(3) by simp_all
  note F = close_with_error_first [OF assms(1,2), of e, folded c']
  have inv: "core_inv c'" unfolding c' by (rule Core_close_with_error_inv [OF assms(1)])
  have reason: "Core_close_reason c' = Some e" using close_reason_iff [OF inv] F(4,5) by simp
  have "Core_try_reserve io c' = (c', Err (TrySendError_Error () e))"
    using F(3) reason by (simp add: try_reserve_cases)
  moreover have "Core_try_dequeue sched c' = Done (c', Err (TryRecvError_Error e))"
    if "Core_queued c' = []"
    using try_dequeue_cases [OF core_inv_wf [OF inv] assms(4)] that F(2) reason
    by (simp add: recv_closed_error_def)
  ultimately show ?thesis
    using F(1,6) inv close_with_error_again [OF inv F(4)] cl by simp
qed

theorem close_with_error_correct_witness:
  "\<exists>c' closed. Core_close_with_error sample_pipe ''bad'' = (c', closed) \<and> closed \<and>
     Core_try_reserve bitmap_ops c' = (c', Err (TrySendError_Error () ''bad''))"
proof -
  have "\<not> errored sample_pipe" by (simp add: sample_pipe_def errored_def TX_ONE_value)
  with close_with_error_correct [OF sample_core_inv, of "''bad''" _ _ "[True]"]
  show ?thesis by (metis list.set_intros(1) surj_pair)
qed

text \<open>
  The sender count: a channel whose state word counts \<open>n > 0\<close> senders closes when the last of
  them is dropped, not before, and the queued messages stay receivable.
\<close>

theorem drop_tx_correct:
  assumes "core_inv c" and "0 < tx_count c"
  shows "core_inv (Core_drop_tx c) \<and> tx_count (Core_drop_tx c) = tx_count c - 1 \<and>
    (tx_closed (Core_drop_tx c) \<longleftrightarrow> tx_count c = 1 \<or> errored c) \<and>
    Core_queued (Core_drop_tx c) = Core_queued c"
proof -
  note D = Core_drop_tx_inv [OF assms]
  have "errored (Core_drop_tx c) = errored c" "Core_queued (Core_drop_tx c) = Core_queued c"
    using core_inv_wf [OF assms(1)]
    by (simp_all add: state_bits Core_drop_tx_state low_bits_sub_tx)
      (simp add: Core_drop_tx_def Let_def close_tx_abs)
  with D assms(2) show ?thesis by (auto simp: core_inv_def)
qed

theorem drop_tx_correct_witness:
  "tx_closed (Core_drop_tx sample_pipe) \<and> Core_queued (Core_drop_tx sample_pipe) = []"
proof -
  have "tx_count sample_pipe = 1" by (simp add: sample_pipe_def tx_count_def st_count_def TX_ONE_value TX_SHIFT_def)
  moreover have "Core_queued sample_pipe = []"
    by (simp add: Core_queued_def sample_pipe_def Core_head_def Core_tail_def)
  ultimately show ?thesis using drop_tx_correct [OF sample_core_inv] by simp
qed

text \<open>
  Dropping the last handle of a channel runs the destructor of every queued message exactly
  once, in order, as long as the receiver's position stays within 1023; the messages beyond that
  position are leaked.
\<close>

theorem last_drop_drains:
  assumes "index_alloc io fr" and "pipe_inv fr H p" and "storage p = Arc 1" and "True \<in> set sched"
  shows "\<exists>p'. ErasedPipe_drop io (replicate 65 sched) p = Done p' \<and> storage p' = Arc 0 \<and>
    dropped p' = dropped p @ take (1023 - Core_head p) (pipe_messages p)"
  using assms by (rule ErasedPipe_drop_last)

theorem last_drop_drains_witness:
  "\<exists>c p'. channel_send sample_channel 1 = Done (c, True) \<and>
     ErasedPipe_drop bitmap_ops (replicate 65 [True]) (ch_pipe c) = Done p' \<and> dropped p' = [1]"
proof -
  have "case channel_send sample_channel 1 of
      Done (c, b) \<Rightarrow> b \<and> storage (ch_pipe c) = Arc 1 \<and> dropped (ch_pipe c) = [] \<and>
        Core_head (ch_pipe c) = 0 \<and> pipe_messages (ch_pipe c) = [1] | _ \<Rightarrow> False"
    by code_simp
  then obtain c where c: "channel_send sample_channel 1 = Done (c, True)"
    "storage (ch_pipe c) = Arc 1" "dropped (ch_pipe c) = []" "Core_head (ch_pipe c) = 0"
    "pipe_messages (ch_pipe c) = [1]"
    by (auto split: outcome.splits)
  have "ch_free c = bitmap_free" "channel_wf c"
    using c(1) typed_channel.push_law [OF sample_channel_wf, of 1]
    by (auto simp: channel_send_def sample_channel_def outcome_map_eq_Done_iff)
  then have "pipe_inv bitmap_free (ch_held c) (ch_pipe c)" by (simp add: channel_wf_def)
  from last_drop_drains [OF bitmap_index_alloc this c(2), of "[True]"] c show ?thesis by auto
qed



subsection \<open>The size queries\<close>

text \<open>
  What the size queries of an open channel answer: \<open>is_empty\<close> is right, \<open>is_full\<close> is true
  exactly when there is one message in the queue, \<open>len\<close> is always 0, and \<open>remaining\<close> panics on
  every channel with a positive capacity.
\<close>

theorem size_queries:
  assumes "core_wf p" and "\<not> tx_closed p" and "\<not> rx_closed p"
  shows "(Receiver_is_empty p \<longleftrightarrow> Core_queued p = []) \<and>
    (Receiver_is_full p \<longleftrightarrow> length (Core_queued p) = 1) \<and> Receiver_len p = Done 0 \<and>
    (capacity p \<noteq> 0 \<longrightarrow> Receiver_remaining p = Panic)"
proof -
  let ?d = "Core_head p" and ?n = "length (Core_queued p)"
  note R = core_repD [OF core_wf_rep [OF assms(1)]]
  have deq: "unat (dequeue_pos p) = 64 * ?d" and enq: "unat (enqueue_pos p) = 64 * ((?d + ?n) mod 1024)"
    using R(5,6) assms(2,3) by simp_all
  have "Receiver_is_empty p \<longleftrightarrow> (?d + ?n) mod 1024 = (?d + 0) mod 1024"
    using deq enq R(1) by (simp add: Receiver_is_empty_def Core_is_empty_def word_unat_eq_iff)
  then have empty: "Receiver_is_empty p \<longleftrightarrow> Core_queued p = []"
    using same_residue_iff [of ?n 1024 0 ?d] R(2) by simp
  have "unat (dequeue_pos p) + unat POS_ONE = 64 * (?d + 1) + 0" using deq by (simp add: POS_ONE_value)
  then have "unat (dequeue_pos p + POS_ONE) = (64 * (?d + 1) + 0) mod 65536"
    by (simp only: unat_add_u16)
  then have "unat (dequeue_pos p + POS_ONE) = 64 * ((?d + 1) mod 1024)"
    using lap_word [of 0 "?d + 1"] by simp
  then have "Receiver_is_full p \<longleftrightarrow> (?d + 1) mod 1024 = (?d + ?n) mod 1024"
    using enq by (simp add: Receiver_is_full_def Core_is_full_def word_unat_eq_iff)
  then have full: "Receiver_is_full p \<longleftrightarrow> ?n = 1"
    using same_residue_iff [of 1 1024 ?n ?d] R(2) by auto
  have len: "Receiver_len p = Done 0" by (simp add: Receiver_len_def Core_len_def)
  have "Receiver_remaining p = Panic" if "capacity p \<noteq> 0"
    using that len unat_eq_zero [of "capacity p"]
    by (simp add: Receiver_remaining_def usize_sub_def Receiver_capacity_def)
  with empty full len show ?thesis by blast
qed

theorem size_queries_witness:
  "Receiver_is_empty sample_pipe \<and> \<not> Receiver_is_full sample_pipe \<and> Receiver_len sample_pipe = Done 0 \<and>
     Receiver_remaining sample_pipe = Panic"
proof -
  have "\<not> tx_closed sample_pipe" "\<not> rx_closed sample_pipe" "Core_queued sample_pipe = []"
    "capacity sample_pipe \<noteq> 0"
    by (simp_all add: sample_pipe_def tx_closed_def rx_closed_def Core_queued_def Core_head_def
        Core_tail_def)
  with size_queries [OF core_inv_wf [OF sample_core_inv]] show ?thesis by simp
qed

text \<open>
  \<open>StaticTrickyPipe::deser_sender\<close> does not count the sender it makes: dropping one of two
  such senders closes the channel while the other is still there.
\<close>

theorem static_deser_sender_uncounted:
  assumes "StaticTrickyPipe_new io t name n = Done p"
  shows "\<exists>p'. DeserSender_drop io scheds
      (StaticTrickyPipe_deser_sender (StaticTrickyPipe_deser_sender p)) = Done p' \<and> tx_closed p'"
proof -
  obtain c where c: "Core_new io (of_nat n) = Done c"
    and p: "p = core.extend c \<lparr>elements = replicate n None, elem_type = t,
                 elem_type_name = name, storage = Static, dropped = []\<rparr>"
    using assms by (auto simp: StaticTrickyPipe_new_def outcome_map_eq_Done_iff split: if_splits)
  have "state p = TX_ONE" "dequeue_pos p = 0" "storage p = Static"
    using c by (auto simp: p core.defs Core_new_def split: if_splits)
  then have "tx_closed (Core_drop_tx p)" "storage (Core_drop_tx p) = Static"
    by (simp_all add: Core_drop_tx_def Let_def TX_ONE_value TX_SHIFT_def Core_close_tx_def tx_closed_def CLOSED_value)
  then show ?thesis
    by (simp add: DeserSender_drop_def StaticTrickyPipe_deser_sender_def ErasedPipe_drop_def)
qed

theorem static_deser_sender_uncounted_witness:
  "\<exists>p p'. StaticTrickyPipe_new bitmap_ops 7 ''u32'' 4 = Done (p :: (unit, usize, nat) pipe) \<and>
     DeserSender_drop bitmap_ops []
       (StaticTrickyPipe_deser_sender (StaticTrickyPipe_deser_sender p)) = Done p' \<and> tx_closed p'"
proof -
  have "is_power_of_two 4" by (simp add: is_power_of_two_def)
  then obtain p :: "(unit, usize, nat) pipe" where
    p: "StaticTrickyPipe_new bitmap_ops 7 ''u32'' 4 = Done p"
    by (simp add: StaticTrickyPipe_new_def MAX_CAPACITY_def Core_new_def)
  from static_deser_sender_uncounted [OF this, of "[]"] p show ?thesis by blast
qed

end
