(* ===== verification/Serbox.thy ===== *)
theory Serbox
  imports Mpsc_Properties
begin

section \<open>Shared boxes for serialisation (\<open>serbox.rs\<close>)\<close>

text \<open>
  A \<open>SerBox\<close> holds one value that a \<open>Sharer\<close> lends to a \<open>Consumer\<close> for encoding. The destructors
  of the two handles consist of several atomic steps, which other threads can come between; each
  step is a definition of its own and the destructor their composition.
\<close>

datatype box_memory = Boxed | Static_Box | Freed

record 'm serbox =
  sb_state :: u8
  sb_type :: type_id
  sharer_ready :: "wait_call list"
  sb_data :: "'m option"
  sb_memory :: box_memory
  sb_dropped :: "'m list" \<comment> \<open>the values whose destructor was run\<close>

definition NEW :: u8 where "NEW = 0"
definition HAS_SHARER :: u8 where "HAS_SHARER = push_bit 0 1"
definition HAS_DATA :: u8 where "HAS_DATA = push_bit 1 1"
definition HAS_CONSUMER :: u8 where "HAS_CONSUMER = push_bit 2 1"
definition SHARED :: u8 where "SHARED = HAS_CONSUMER OR HAS_DATA OR HAS_SHARER"

text \<open>Every access to the box first needs it to be there.\<close>

definition deref :: "'m serbox \<Rightarrow> ('m serbox \<Rightarrow> 'b outcome) \<Rightarrow> 'b outcome" where
  "deref s f = (if sb_memory s = Freed then UB else f s)"

subsection \<open>The box\<close>

definition SerBox_new :: "type_id \<Rightarrow> box_memory \<Rightarrow> 'm serbox" where
  "SerBox_new t mem = \<lparr>sb_state = NEW, sb_type = t, sharer_ready = [], sb_data = None,
     sb_memory = mem, sb_dropped = []\<rparr>"

definition SerBox_sharer :: "'m serbox \<Rightarrow> 'm serbox outcome" where
  "SerBox_sharer s = (if sb_state s = NEW then Done (s\<lparr>sb_state := HAS_SHARER\<rparr>) else Panic)"

definition SerBox_static_sharer :: "'m serbox \<Rightarrow> 'm serbox \<times> unit option" where
  "SerBox_static_sharer s =
     (if sb_state s = NEW then (s\<lparr>sb_state := HAS_SHARER\<rparr>, Some ()) else (s, None))"

definition SerBox_try_share :: "'m serbox \<Rightarrow> 'm \<Rightarrow> 'm serbox \<times> ('m + unit)" where
  "SerBox_try_share s v =
     (if sb_state s = HAS_SHARER then (s\<lparr>sb_state := SHARED, sb_data := Some v\<rparr>, Ok ())
      else (s, Err v))"

definition SerBox_with_data :: "type_id \<Rightarrow> 'm serbox \<Rightarrow> ('m \<Rightarrow> 'u) \<Rightarrow> 'u outcome" where
  "SerBox_with_data t s f =
     deref s (\<lambda>s. if sb_type s \<noteq> t then Panic
                 else (case sb_data s of Some v \<Rightarrow> Done (f v) | None \<Rightarrow> UB))"

definition SerBox_drop_data :: "type_id \<Rightarrow> 'm serbox \<Rightarrow> 'm serbox outcome" where
  "SerBox_drop_data t s =
     deref s (\<lambda>s. if sb_type s \<noteq> t then Panic
                 else (case sb_data s of
                         Some v \<Rightarrow> Done (s\<lparr>sb_data := None, sb_dropped := sb_dropped s @ [v]\<rparr>)
                       | None \<Rightarrow> UB))"

text \<open>\<open>drop_box\<close> frees the allocation, \<open>drop_static\<close> clears the sharer bit.\<close>

definition drop_shared :: "'m serbox \<Rightarrow> 'm serbox outcome" where
  "drop_shared s =
     (case sb_memory s of
        Boxed \<Rightarrow> Done (s\<lparr>sb_memory := Freed\<rparr>)
      | Static_Box \<Rightarrow> Done (s\<lparr>sb_state := sb_state s AND NOT HAS_SHARER\<rparr>)
      | Freed \<Rightarrow> UB)"

subsection \<open>\<open>Sharer\<close>\<close>

definition Sharer_new :: "type_id \<Rightarrow> 'm serbox outcome" where
  "Sharer_new t = SerBox_sharer (SerBox_new t Boxed)"

definition Sharer_try_share :: "'m serbox \<Rightarrow> 'm \<Rightarrow> ('m serbox \<times> ('m + unit)) outcome" where
  "Sharer_try_share s v = deref s (\<lambda>s. Done (SerBox_try_share s v))"

text \<open>\<open>Sharer::share\<close>: every resumption is the box as the woken task finds it.\<close>

fun Sharer_share :: "'m serbox list \<Rightarrow> 'm serbox \<Rightarrow> 'm \<Rightarrow> 'm serbox outcome" where
  "Sharer_share resumes s v =
     (case Sharer_try_share s v of
        Done (s', Ok _) \<Rightarrow> Done s'
      | Done (s', Err v') \<Rightarrow>
          (case resumes of [] \<Rightarrow> Running | s2 # rest \<Rightarrow> Sharer_share rest s2 v')
      | Panic \<Rightarrow> Panic | Running \<Rightarrow> Running | UB \<Rightarrow> UB)"

definition Sharer_drop_release :: "'m serbox \<Rightarrow> ('m serbox \<times> u8) outcome" where
  "Sharer_drop_release s =
     deref s (\<lambda>s. Done (s\<lparr>sb_state := sb_state s AND NOT (HAS_SHARER OR HAS_DATA)\<rparr>, sb_state s))"

definition Sharer_drop_free :: "u8 \<Rightarrow> 'm serbox \<Rightarrow> 'm serbox outcome" where
  "Sharer_drop_free st s =
     (if st AND HAS_CONSUMER = 0 then
        outcome_bind
          (if st AND HAS_DATA \<noteq> 0 then SerBox_drop_data (sb_type s) s else Done s)
          drop_shared
      else Done s)"

definition Sharer_drop :: "'m serbox \<Rightarrow> 'm serbox outcome" where
  "Sharer_drop s = outcome_bind (Sharer_drop_release s) (\<lambda>(s1, st). Sharer_drop_free st s1)"

subsection \<open>\<open>Consumer\<close>\<close>

definition Consumer_to_vec :: "('m, 'x) postcard \<Rightarrow> type_id \<Rightarrow> 'm serbox \<Rightarrow> ('x + bytes) outcome" where
  "Consumer_to_vec pc t s = SerBox_with_data t s (pc_to_allocvec pc)"

definition Consumer_to_vec_framed ::
  "('m, 'x) postcard \<Rightarrow> type_id \<Rightarrow> 'm serbox \<Rightarrow> ('x + bytes) outcome" where
  "Consumer_to_vec_framed pc t s = SerBox_with_data t s (pc_to_allocvec_cobs pc)"

definition Consumer_to_slice ::
  "('m, 'x) postcard \<Rightarrow> type_id \<Rightarrow> 'm serbox \<Rightarrow> bytes \<Rightarrow> ('x + bytes) outcome" where
  "Consumer_to_slice pc t s buf = SerBox_with_data t s (\<lambda>data. pc_to_slice pc data buf)"

definition Consumer_to_slice_framed ::
  "('m, 'x) postcard \<Rightarrow> type_id \<Rightarrow> 'm serbox \<Rightarrow> bytes \<Rightarrow> ('x + bytes) outcome" where
  "Consumer_to_slice_framed pc t s buf = SerBox_with_data t s (\<lambda>data. pc_to_slice_cobs pc data buf)"

definition Consumer_drop_release :: "'m serbox \<Rightarrow> 'm serbox outcome" where
  "Consumer_drop_release s =
     deref s (\<lambda>s. Done (s\<lparr>sb_state := sb_state s AND NOT HAS_CONSUMER\<rparr>))"

definition Consumer_drop_finish :: "'m serbox \<Rightarrow> 'm serbox outcome" where
  "Consumer_drop_finish s =
     deref s (\<lambda>s.
       let st = sb_state s; s1 = s\<lparr>sb_state := st AND NOT HAS_DATA\<rparr>
       in if st AND HAS_SHARER = 0 then drop_shared s1
          else Done (s1\<lparr>sharer_ready := sharer_ready s1 @ [Wake]\<rparr>))"

definition Consumer_drop :: "type_id \<Rightarrow> 'm serbox \<Rightarrow> 'm serbox outcome" where
  "Consumer_drop t s =
     outcome_bind (Consumer_drop_release s) (\<lambda>s1.
       outcome_bind (SerBox_drop_data t s1) Consumer_drop_finish)"

subsection \<open>One handle after the other\<close>

text \<open>
  The box with its live handles: a sharer, a consumer. The values shared so far are the values
  dropped so far and the one a consumer holds.
\<close>

datatype 'm sb_call = Share 'm | Drop_Consumer | Drop_Sharer

fun sb_enabled :: "bool \<times> bool \<Rightarrow> 'm sb_call \<Rightarrow> bool" where
  "sb_enabled (sharer, consumer) (Share v) = sharer"
| "sb_enabled (sharer, consumer) Drop_Consumer = consumer"
| "sb_enabled (sharer, consumer) Drop_Sharer = sharer"

fun sb_exec :: "'m sb_call \<Rightarrow> 'm serbox \<Rightarrow> ('m serbox \<times> bool) outcome" where
  "sb_exec (Share v) s = outcome_map (\<lambda>(s', r). (s', \<not> isl r)) (Sharer_try_share s v)"
| "sb_exec Drop_Consumer s = outcome_map (\<lambda>s'. (s', True)) (Consumer_drop (sb_type s) s)"
| "sb_exec Drop_Sharer s = outcome_map (\<lambda>s'. (s', True)) (Sharer_drop s)"

text \<open>What the flags, the cell and the memory are for the handles there are.\<close>

fun sb_flags :: "bool \<times> bool \<Rightarrow> u8" where
  "sb_flags (sharer, consumer) = (if consumer then (if sharer then 7 else 4) else if sharer then 1 else 0)"

definition sb_inv :: "'m serbox \<Rightarrow> bool \<times> bool \<Rightarrow> 'm list \<Rightarrow> bool" where
  "sb_inv s h shared \<longleftrightarrow>
     (if fst h \<or> snd h
      then sb_memory s = Boxed \<and> sb_state s = sb_flags h \<and> (sb_data s \<noteq> None \<longleftrightarrow> snd h)
      else sb_memory s = Freed) \<and>
     sb_dropped s @ (if snd h then [the (sb_data s)] else []) = shared"

fun sb_next :: "'m sb_call \<Rightarrow> bool \<times> bool \<Rightarrow> 'm list \<Rightarrow> (bool \<times> bool) \<times> 'm list \<times> bool" where
  "sb_next (Share v) (sharer, consumer) shared =
     ((sharer, True), if consumer then shared else shared @ [v], \<not> consumer)"
| "sb_next Drop_Consumer (sharer, consumer) shared = ((sharer, False), shared, True)"
| "sb_next Drop_Sharer (sharer, consumer) shared = ((False, consumer), shared, True)"

lemma sb_flag_values [pos_consts]:
  "NEW = 0" "HAS_SHARER = 1" "HAS_DATA = 2" "HAS_CONSUMER = 4" "SHARED = 7"
  by (simp_all add: NEW_def HAS_SHARER_def HAS_DATA_def HAS_CONSUMER_def SHARED_def)

lemmas sb_op_defs =
  Sharer_try_share_def SerBox_try_share_def Sharer_drop_def Sharer_drop_release_def
  Sharer_drop_free_def Consumer_drop_def Consumer_drop_release_def Consumer_drop_finish_def
  SerBox_drop_data_def deref_def drop_shared_def Let_def

text \<open>
  A boxed value used by one handle after the other is safe: every call returns, \<open>try_share\<close>
  succeeds exactly when there is no consumer, the memory is freed when the last handle is
  dropped, and each shared value is dropped exactly once, in order.
\<close>

theorem serbox_sequential:
  assumes "sb_inv s h shared" and "sb_enabled h c" and "sb_next c h shared = (h', shared', ok)"
  shows "\<exists>s'. sb_exec c s = Done (s', ok) \<and> sb_inv s' h' shared'"
proof -
  obtain sharer consumer where h: "h = (sharer, consumer)" by fastforce
  show ?thesis
    using assms unfolding h
    by (cases c; cases sharer; cases consumer)
      (auto simp: sb_inv_def sb_op_defs sb_flag_values split: option.splits)
qed

lemma sb_new_inv:
  "Sharer_new t = Done ((SerBox_new t Boxed)\<lparr>sb_state := HAS_SHARER\<rparr>)"
  "sb_inv ((SerBox_new t Boxed)\<lparr>sb_state := HAS_SHARER\<rparr>) (True, False) []"
  by (simp_all add: Sharer_new_def SerBox_sharer_def SerBox_new_def sb_inv_def sb_flag_values)

theorem serbox_sequential_witness:
  "\<exists>s'. sb_exec (Share (5 :: nat)) ((SerBox_new 3 Boxed)\<lparr>sb_state := HAS_SHARER\<rparr>) = Done (s', True) \<and>
     sb_inv s' (True, True) [5]"
  using serbox_sequential [OF sb_new_inv(2) [of 3], of "Share (5 :: nat)" "(True, True)" "[5]" True]
  by simp

text \<open>
  A consumer sees the value its sharer lent, whatever it was encoded with.
\<close>

theorem consumer_reads_shared:
  assumes "sb_inv s (sharer, True) shared" and "sb_type s = t"
  shows "Consumer_to_vec pc t s = Done (pc_to_allocvec pc (last shared))"
  using assms
  by (auto simp: sb_inv_def Consumer_to_vec_def SerBox_with_data_def deref_def split: if_splits)

theorem consumer_reads_shared_witness:
  "\<exists>s'. sb_exec (Share (5 :: nat)) ((SerBox_new 3 Boxed)\<lparr>sb_state := HAS_SHARER\<rparr>) = Done (s', True) \<and>
     Consumer_to_vec byte_codec (sb_type s') s' = Done (pc_to_allocvec byte_codec 5)"
proof -
  let ?s = "(SerBox_new 3 Boxed)\<lparr>sb_state := HAS_SHARER, sb_state := SHARED, sb_data := Some (5 :: nat)\<rparr>"
  have "sb_inv ?s (True, True) [5]" by (simp add: SerBox_new_def sb_inv_def sb_flag_values)
  from consumer_reads_shared [OF this refl, of byte_codec] show ?thesis
    by (simp add: sb_op_defs SerBox_new_def)
qed

subsection \<open>Both destructors at once\<close>

text \<open>
  The two destructors as threads. A schedule says whose step is next, \<open>True\<close> for the consumer;
  the result says what was left to do.
\<close>

datatype consumer_pc = Consumer_Release | Consumer_Drop_Data | Consumer_Finish | Consumer_Done

datatype sharer_pc = Sharer_Release | Sharer_Free u8 | Sharer_Done

fun consumer_step :: "type_id \<Rightarrow> consumer_pc \<Rightarrow> 'm serbox \<Rightarrow> (consumer_pc \<times> 'm serbox) outcome" where
  "consumer_step t Consumer_Release s = outcome_map (Pair Consumer_Drop_Data) (Consumer_drop_release s)"
| "consumer_step t Consumer_Drop_Data s = outcome_map (Pair Consumer_Finish) (SerBox_drop_data t s)"
| "consumer_step t Consumer_Finish s = outcome_map (Pair Consumer_Done) (Consumer_drop_finish s)"
| "consumer_step t Consumer_Done s = Done (Consumer_Done, s)"

fun sharer_step :: "sharer_pc \<Rightarrow> 'm serbox \<Rightarrow> (sharer_pc \<times> 'm serbox) outcome" where
  "sharer_step Sharer_Release s =
     outcome_map (\<lambda>(s', st). (Sharer_Free st, s')) (Sharer_drop_release s)"
| "sharer_step (Sharer_Free st) s = outcome_map (Pair Sharer_Done) (Sharer_drop_free st s)"
| "sharer_step Sharer_Done s = Done (Sharer_Done, s)"

fun drop_race ::
  "type_id \<Rightarrow> bool list \<Rightarrow> consumer_pc \<Rightarrow> sharer_pc \<Rightarrow> 'm serbox
    \<Rightarrow> (consumer_pc \<times> sharer_pc \<times> 'm serbox) outcome" where
  "drop_race t [] cp sp s = Done (cp, sp, s)"
| "drop_race t (True # sched) cp sp s =
     outcome_bind (consumer_step t cp s) (\<lambda>(cp', s'). drop_race t sched cp' sp s')"
| "drop_race t (False # sched) cp sp s =
     outcome_bind (sharer_step sp s) (\<lambda>(sp', s'). drop_race t sched cp sp' s')"

text \<open>
  C40: Dropping the consumer and the sharer at the same time is a race: if the sharer's whole
  destructor runs between the consumer's first step, which gives up its flag, and its second,
  which drops the value, the sharer drops the value and frees the box, and the consumer drops
  the value again in freed memory.
\<close>

theorem serbox_drop_race:
  assumes "sb_inv s (True, True) shared" and "sb_type s = t"
  shows "drop_race t [True, False, False, True] Consumer_Release Sharer_Release s = UB \<and>
    (\<exists>s'. drop_race t [True, True, True, False, False] Consumer_Release Sharer_Release s =
       Done (Consumer_Done, Sharer_Done, s') \<and> sb_dropped s' = shared \<and> sb_memory s' = Freed)"
  using assms by (auto simp: sb_inv_def sb_op_defs sb_flag_values)

theorem serbox_drop_race_witness:
  "\<exists>s'. sb_exec (Share (5 :: nat)) ((SerBox_new 3 Boxed)\<lparr>sb_state := HAS_SHARER\<rparr>) = Done (s', True) \<and>
     drop_race 3 [True, False, False, True] Consumer_Release Sharer_Release s' = UB"
proof -
  let ?s = "(SerBox_new 3 Boxed)\<lparr>sb_state := HAS_SHARER, sb_state := SHARED, sb_data := Some (5 :: nat)\<rparr>"
  have "sb_inv ?s (True, True) [5]" "sb_type ?s = 3"
    by (simp_all add: SerBox_new_def sb_inv_def sb_flag_values)
  from serbox_drop_race [OF this] show ?thesis
    by (simp add: sb_op_defs SerBox_new_def)
qed

end
