(* ===== verification/Oneshot.thy ===== *)
theory Oneshot
  imports Mpsc
begin

section \<open>Reusable one-shot channels (\<open>oneshot.rs\<close>)\<close>

text \<open>
  The shared state of a one-shot channel is a byte of flags, a wait cell and a cell for one
  message. An operation of a handle takes the shared state and returns it updated. The message
  type is erased as in \<open>Mpsc\<close>; \<open>os_type\<close> is the \<open>TypeId\<close> of the channel.
\<close>

datatype OneshotRecvError = RecvError_NoSender | RecvError_Closed

datatype SenderError = SenderError_SenderAlreadyActive | SenderError_Closed

datatype ErasedSenderError = ErasedSenderError_Sender SenderError | ErasedSenderError_WrongType

datatype 't Closed = Closed 't

datatype 'x DeserSendError = DeserSendError_Deserialize 'x string | DeserSendError_Closed

record 'm oneshot =
  os_state :: u8
  os_wait :: "wait_call list"
  os_cell :: "'m option"
  os_refs :: storage
  os_type :: type_id
  os_dropped :: "'m list" \<comment> \<open>the messages whose destructor was run through the channel\<close>

definition HAS_RX :: u8 where "HAS_RX = push_bit 0 1"
definition HAS_TX :: u8 where "HAS_TX = push_bit 1 1"
definition RX_WAITING :: u8 where "RX_WAITING = push_bit 2 1"
definition SENT :: u8 where "SENT = push_bit 3 1"
definition OS_CLOSED :: u8 where "OS_CLOSED = push_bit 4 1"

subsection \<open>The shared state\<close>

definition Oneshot_new :: "type_id \<Rightarrow> 'm oneshot" where
  "Oneshot_new t = \<lparr>os_state = 0, os_wait = [], os_cell = None, os_refs = Static, os_type = t,
     os_dropped = []\<rparr>"

definition Oneshot_static_receiver :: "'m oneshot \<Rightarrow> 'm oneshot \<times> unit option" where
  "Oneshot_static_receiver o1 =
     (if os_state o1 = 0 then (o1\<lparr>os_state := HAS_RX\<rparr>, Some ()) else (o1, None))"

text \<open>\<open>arc_receiver\<close> consumes the \<open>Arc\<close> it is called on: when the claim fails, that \<open>Arc\<close> is dropped.\<close>

definition OneshotRef_drop :: "'m oneshot \<Rightarrow> 'm oneshot outcome" where
  "OneshotRef_drop o1 =
     (case os_refs o1 of
        Arc n \<Rightarrow> if n = 0 then UB else Done (o1\<lparr>os_refs := Arc (n - 1)\<rparr>)
      | Static \<Rightarrow> Done o1)"

definition OneshotRef_clone :: "'m oneshot \<Rightarrow> 'm oneshot outcome" where
  "OneshotRef_clone o1 =
     (case os_refs o1 of
        Arc n \<Rightarrow> if n = 0 then UB else Done (o1\<lparr>os_refs := Arc (n + 1)\<rparr>)
      | Static \<Rightarrow> Done o1)"

definition Oneshot_arc_receiver :: "'m oneshot \<Rightarrow> ('m oneshot \<times> unit option) outcome" where
  "Oneshot_arc_receiver o1 =
     (if os_state o1 = 0 then Done (o1\<lparr>os_state := HAS_RX\<rparr>, Some ())
      else outcome_map (\<lambda>o2. (o2, None)) (OneshotRef_drop o1))"

text \<open>
  Every element of the first argument is what \<open>wait.poll_wait\<close> answered in one iteration and,
  when it was ready, the channel as the next iteration finds it.
\<close>

fun Oneshot_poll_recv ::
  "('m oneshot \<times> (unit + unit)) poll list \<Rightarrow> 'm oneshot
    \<Rightarrow> ('m oneshot \<times> (OneshotRecvError + unit) poll) outcome" where
  "Oneshot_poll_recv polls o1 =
     (let st = os_state o1; o2 = o1\<lparr>os_state := st OR RX_WAITING\<rparr>
      in if st AND OS_CLOSED \<noteq> 0 then Done (o2, Ready (Err RecvError_Closed))
         else if st AND SENT \<noteq> 0 then Done (o2, Ready (Ok ()))
         else if st AND HAS_TX = 0 then Done (o2, Ready (Err RecvError_NoSender))
         else (case polls of
                 [] \<Rightarrow> Running
               | Pending # _ \<Rightarrow> Done (o2, Pending)
               | Ready (o3, Err _) # _ \<Rightarrow> Done (o3, Ready (Err RecvError_Closed))
               | Ready (o3, Ok _) # rest \<Rightarrow> Oneshot_poll_recv rest o3))"

definition Oneshot_take_value :: "'m oneshot \<Rightarrow> ('m oneshot \<times> 'm) outcome" where
  "Oneshot_take_value o1 =
     (case os_cell o1 of
        None \<Rightarrow> UB
      | Some v \<Rightarrow> Done (o1\<lparr>os_cell := None, os_state := HAS_RX\<rparr>, v))"

definition OneshotHeader_close :: "'m oneshot \<Rightarrow> ('m oneshot \<times> bool) outcome" where
  "OneshotHeader_close o1 =
     (let st = os_state o1; o2 = o1\<lparr>os_state := OS_CLOSED, os_wait := os_wait o1 @ [Wake_Close]\<rparr>
      in if st AND SENT \<noteq> 0 \<and> st AND HAS_TX = 0 then Done (o2, True)
         else if st AND OS_CLOSED = 0 then Done (o2, False)
         else Panic)"

definition OneshotHeader_finish_write :: "'m oneshot \<Rightarrow> 'm oneshot \<times> (unit Closed + unit)" where
  "OneshotHeader_finish_write o1 =
     (let st = os_state o1; o2 = o1\<lparr>os_state := st OR SENT\<rparr>
      in if st AND OS_CLOSED \<noteq> 0 then (o2, Err (Closed ()))
         else if st AND RX_WAITING \<noteq> 0 then (o2\<lparr>os_wait := os_wait o2 @ [Wake]\<rparr>, Ok ())
         else (o2, Ok ()))"

definition OneshotHeader_drop_tx :: "'m oneshot \<Rightarrow> 'm oneshot" where
  "OneshotHeader_drop_tx o1 = o1\<lparr>os_state := os_state o1 AND NOT HAS_TX\<rparr>"

text \<open>\<open>drop_in_place\<close> of the message cell.\<close>

definition oneshot_drop_cell :: "'m oneshot \<Rightarrow> 'm oneshot outcome" where
  "oneshot_drop_cell o1 =
     (case os_cell o1 of
        None \<Rightarrow> UB
      | Some v \<Rightarrow> Done (o1\<lparr>os_cell := None, os_dropped := os_dropped o1 @ [v]\<rparr>))"

subsection \<open>\<open>Receiver\<close>\<close>

definition OneshotReceiver_new :: "type_id \<Rightarrow> 'm oneshot" where
  "OneshotReceiver_new t = \<lparr>os_state = HAS_RX, os_wait = [], os_cell = None, os_refs = Arc 1,
     os_type = t, os_dropped = []\<rparr>"

definition OneshotReceiver_poll_recv ::
  "('m oneshot \<times> (unit + unit)) poll list \<Rightarrow> 'm oneshot
    \<Rightarrow> ('m oneshot \<times> (OneshotRecvError + 'm) poll) outcome" where
  "OneshotReceiver_poll_recv polls o1 =
     outcome_bind (Oneshot_poll_recv polls o1) (\<lambda>(o2, r).
       case r of
         Pending \<Rightarrow> Done (o2, Pending)
       | Ready (Err e) \<Rightarrow> Done (o2, Ready (Err e))
       | Ready (Ok _) \<Rightarrow> outcome_map (\<lambda>(o3, v). (o3, Ready (Ok v))) (Oneshot_take_value o2))"

definition OneshotRecv_poll ::
  "('m oneshot \<times> (unit + unit)) poll list \<Rightarrow> 'm oneshot
    \<Rightarrow> ('m oneshot \<times> (OneshotRecvError + 'm) poll) outcome" where
  "OneshotRecv_poll polls o1 = OneshotReceiver_poll_recv polls o1"

text \<open>
  The loop of \<open>take_sender\<close>; the fuel bounds its iterations. A message found there is received
  and dropped. The flags that decide how to go on are those read before that.
\<close>

fun OneshotReceiver_take_sender ::
  "nat \<Rightarrow> 'm oneshot \<Rightarrow> ('m oneshot \<times> (SenderError + unit)) outcome" where
  "OneshotReceiver_take_sender 0 o1 = Running"
| "OneshotReceiver_take_sender (Suc n) o1 =
     (if os_state o1 = HAS_RX then Done (o1\<lparr>os_state := HAS_RX OR HAS_TX\<rparr>, Ok ())
      else
        (let st = os_state o1 in
         outcome_bind
           (if st AND SENT \<noteq> 0 then
              outcome_map (\<lambda>(o2, r).
                  case r of
                    Ready (Ok v) \<Rightarrow> o2\<lparr>os_dropped := os_dropped o2 @ [v]\<rparr>
                  | _ \<Rightarrow> o2)
                (OneshotRecv_poll [] o1)
            else Done o1)
           (\<lambda>o2.
              if st AND OS_CLOSED \<noteq> 0 then Done (o2, Err SenderError_Closed)
              else if st AND HAS_TX \<noteq> 0 then Done (o2, Err SenderError_SenderAlreadyActive)
              else OneshotReceiver_take_sender n o2)))"

definition OneshotReceiver_sender ::
  "nat \<Rightarrow> 'm oneshot \<Rightarrow> ('m oneshot \<times> (SenderError + unit)) outcome" where
  "OneshotReceiver_sender fuel o1 =
     outcome_bind (OneshotReceiver_take_sender fuel o1) (\<lambda>(o2, r).
       case r of
         Err e \<Rightarrow> Done (o2, Err e)
       | Ok _ \<Rightarrow> outcome_map (\<lambda>o3. (o3, Ok ())) (OneshotRef_clone o2))"

definition OneshotReceiver_deser_sender ::
  "nat \<Rightarrow> 'm oneshot \<Rightarrow> ('m oneshot \<times> (SenderError + unit)) outcome" where
  "OneshotReceiver_deser_sender fuel o1 =
     outcome_bind (OneshotReceiver_take_sender fuel o1) (\<lambda>(o2, r).
       case r of
         Err e \<Rightarrow> Done (o2, Err e)
       | Ok _ \<Rightarrow> outcome_map (\<lambda>o3. (o3, Ok ())) (OneshotRef_clone o2))"

definition OneshotReceiver_close :: "'m oneshot \<Rightarrow> 'm oneshot outcome" where
  "OneshotReceiver_close o1 =
     outcome_bind (OneshotHeader_close o1) (\<lambda>(o2, drop_it).
       if drop_it then oneshot_drop_cell o2 else Done o2)"

definition OneshotReceiver_into_erased :: "'m oneshot \<Rightarrow> 'm oneshot" where
  "OneshotReceiver_into_erased o1 = o1"

definition OneshotReceiver_drop :: "'m oneshot \<Rightarrow> 'm oneshot outcome" where
  "OneshotReceiver_drop o1 = OneshotRef_drop o1"

subsection \<open>\<open>Sender\<close>\<close>

text \<open>The destructor of a sender that has (\<open>True\<close>) or has not sent.\<close>

definition OneshotSender_drop :: "bool \<Rightarrow> 'm oneshot \<Rightarrow> 'm oneshot outcome" where
  "OneshotSender_drop has_sent o1 =
     OneshotRef_drop (if has_sent then o1 else OneshotHeader_drop_tx o1)"

definition OneshotSender_send :: "'m oneshot \<Rightarrow> 'm \<Rightarrow> ('m oneshot \<times> ('m Closed + unit)) outcome" where
  "OneshotSender_send o1 item =
     (let o2 = o1\<lparr>os_cell := Some item\<rparr>
      in case OneshotHeader_finish_write o2 of
           (o3, Err _) \<Rightarrow>
             outcome_map (\<lambda>o4. (o4, Err (Closed item)))
               (OneshotSender_drop False (o3\<lparr>os_cell := None\<rparr>))
         | (o3, Ok _) \<Rightarrow> outcome_map (\<lambda>o4. (o4, Ok ())) (OneshotSender_drop True o3))"

subsection \<open>\<open>DeserSender\<close>\<close>

definition OneshotDeserSender_from_bytes ::
  "('m, 'x) postcard \<Rightarrow> 'm oneshot \<Rightarrow> bytes \<Rightarrow> 'm oneshot \<times> ('x + unit)" where
  "OneshotDeserSender_from_bytes pc o1 bs =
     (case pc_from_bytes pc bs of
        Err x \<Rightarrow> (o1, Err x) | Ok v \<Rightarrow> (o1\<lparr>os_cell := Some v\<rparr>, Ok ()))"

definition OneshotDeserSender_from_bytes_framed ::
  "('m, 'x) postcard \<Rightarrow> 'm oneshot \<Rightarrow> bytes \<Rightarrow> 'm oneshot \<times> ('x + unit)" where
  "OneshotDeserSender_from_bytes_framed pc o1 bs =
     (case pc_from_bytes_cobs pc bs of
        Err x \<Rightarrow> (o1, Err x) | Ok v \<Rightarrow> (o1\<lparr>os_cell := Some v\<rparr>, Ok ()))"

definition OneshotDeserSender_finish_write ::
  "'m oneshot \<Rightarrow> ('m oneshot \<times> ('x DeserSendError + unit)) outcome" where
  "OneshotDeserSender_finish_write o1 =
     (case OneshotHeader_finish_write o1 of
        (o2, Err _) \<Rightarrow>
          outcome_bind (oneshot_drop_cell o2) (\<lambda>o3.
            outcome_map (\<lambda>o4. (o4, Err DeserSendError_Closed)) (OneshotSender_drop False o3))
      | (o2, Ok _) \<Rightarrow> outcome_map (\<lambda>o3. (o3, Ok ())) (OneshotSender_drop True o2))"

definition OneshotDeserSender_send ::
  "('m, 'x) postcard \<Rightarrow> string \<Rightarrow> 'm oneshot \<Rightarrow> bytes
    \<Rightarrow> ('m oneshot \<times> ('x DeserSendError + unit)) outcome" where
  "OneshotDeserSender_send pc type_name o1 bs =
     (case OneshotDeserSender_from_bytes pc o1 bs of
        (o2, Err x) \<Rightarrow>
          outcome_map (\<lambda>o3. (o3, Err (DeserSendError_Deserialize x type_name)))
            (OneshotSender_drop False o2)
      | (o2, Ok _) \<Rightarrow> OneshotDeserSender_finish_write o2)"

definition OneshotDeserSender_send_framed ::
  "('m, 'x) postcard \<Rightarrow> string \<Rightarrow> 'm oneshot \<Rightarrow> bytes
    \<Rightarrow> ('m oneshot \<times> ('x DeserSendError + unit)) outcome" where
  "OneshotDeserSender_send_framed pc type_name o1 bs =
     (case OneshotDeserSender_from_bytes_framed pc o1 bs of
        (o2, Err x) \<Rightarrow>
          outcome_map (\<lambda>o3. (o3, Err (DeserSendError_Deserialize x type_name)))
            (OneshotSender_drop False o2)
      | (o2, Ok _) \<Rightarrow> OneshotDeserSender_finish_write o2)"

definition OneshotDeserSender_drop :: "bool \<Rightarrow> 'm oneshot \<Rightarrow> 'm oneshot outcome" where
  "OneshotDeserSender_drop has_sent o1 =
     OneshotRef_drop (if has_sent then o1 else OneshotHeader_drop_tx o1)"

subsection \<open>\<open>ErasedReceiver\<close>\<close>

definition ErasedReceiver_poll_recv_erased ::
  "('m oneshot \<times> (unit + unit)) poll list \<Rightarrow> 'm oneshot
    \<Rightarrow> ('m oneshot \<times> (OneshotRecvError + unit) poll) outcome" where
  "ErasedReceiver_poll_recv_erased polls o1 = Oneshot_poll_recv polls o1"

definition RecvErased_poll ::
  "('m oneshot \<times> (unit + unit)) poll list \<Rightarrow> 'm oneshot
    \<Rightarrow> ('m oneshot \<times> (OneshotRecvError + unit) poll) outcome" where
  "RecvErased_poll polls o1 = ErasedReceiver_poll_recv_erased polls o1"

text \<open>Dropping a received reference that was not downcast drops the message.\<close>

definition ErasedRecvRef_drop :: "bool \<Rightarrow> 'm oneshot \<Rightarrow> 'm oneshot outcome" where
  "ErasedRecvRef_drop taken o1 =
     (if taken then Done o1
      else outcome_map (\<lambda>o2. o2\<lparr>os_state := HAS_RX\<rparr>) (oneshot_drop_cell o1))"

definition ErasedRecvRef_downcast :: "type_id \<Rightarrow> 'm oneshot \<Rightarrow> ('m oneshot \<times> 'm option) outcome" where
  "ErasedRecvRef_downcast t o1 =
     (if t \<noteq> os_type o1 then Done (o1, None)
      else outcome_map (\<lambda>(o2, v). (o2, Some v)) (Oneshot_take_value o1))"

fun ErasedReceiver_take_sender ::
  "nat \<Rightarrow> 'm oneshot \<Rightarrow> ('m oneshot \<times> (SenderError + unit)) outcome" where
  "ErasedReceiver_take_sender 0 o1 = Running"
| "ErasedReceiver_take_sender (Suc n) o1 =
     (if os_state o1 = HAS_RX then Done (o1\<lparr>os_state := HAS_RX OR HAS_TX\<rparr>, Ok ())
      else
        (let st = os_state o1 in
         outcome_bind
           (if st AND SENT \<noteq> 0 then
              outcome_bind (RecvErased_poll [] o1) (\<lambda>(o2, r).
                  case r of
                    Ready (Ok _) \<Rightarrow> ErasedRecvRef_drop False o2
                  | _ \<Rightarrow> Done o2)
            else Done o1)
           (\<lambda>o2.
              if st AND OS_CLOSED \<noteq> 0 then Done (o2, Err SenderError_Closed)
              else if st AND HAS_TX \<noteq> 0 then Done (o2, Err SenderError_SenderAlreadyActive)
              else ErasedReceiver_take_sender n o2)))"

definition ErasedReceiver_downcast_sender ::
  "nat \<Rightarrow> type_id \<Rightarrow> 'm oneshot \<Rightarrow> ('m oneshot \<times> (ErasedSenderError + unit)) outcome" where
  "ErasedReceiver_downcast_sender fuel t o1 =
     (if t \<noteq> os_type o1 then Done (o1, Err ErasedSenderError_WrongType)
      else outcome_bind (ErasedReceiver_take_sender fuel o1) (\<lambda>(o2, r).
             case r of
               Err e \<Rightarrow> Done (o2, Err (ErasedSenderError_Sender e))
             | Ok _ \<Rightarrow> outcome_map (\<lambda>o3. (o3, Ok ())) (OneshotRef_clone o2)))"

definition ErasedReceiver_close :: "'m oneshot \<Rightarrow> 'm oneshot outcome" where
  "ErasedReceiver_close o1 =
     outcome_bind (OneshotHeader_close o1) (\<lambda>(o2, drop_it).
       if drop_it then oneshot_drop_cell o2 else Done o2)"

definition ErasedReceiver_drop :: "'m oneshot \<Rightarrow> 'm oneshot outcome" where
  "ErasedReceiver_drop o1 = OneshotRef_drop o1"

end
