(* ===== verification/Wire_Message.thy ===== *)
theory Wire_Message
  imports Serbox Oneshot
begin

section \<open>Frames (\<open>message.rs\<close>, \<open>service.rs\<close>, the identifiers of \<open>conn_table.rs\<close>)\<close>

text \<open>
  The headers, the reasons for rejections and resets, and the conversion of frames to and from
  bytes. \<open>postcard\<close>'s encoding of headers is the record \<open>header_codec\<close>; an \<open>Id\<close> is a non-zero
  16-bit number; a service's UUID is a number.
\<close>

subsection \<open>Identifiers and services\<close>

type_synonym Id = u16 \<comment> \<open>\<open>NonZeroU16\<close>\<close>

definition Id_from_index :: "nat \<Rightarrow> Id outcome" where
  "Id_from_index idx =
     (if idx \<le> 65535 then
        (let i = (if idx = 65535 then 65535 else of_nat (idx + 1)) :: u16
         in if i = 0 then Panic else Done i)
      else Panic)"

definition Id_to_index :: "Id \<Rightarrow> nat" where
  "Id_to_index i = unat i - 1"

definition Id_checked_add :: "Id \<Rightarrow> u16 \<Rightarrow> Id option" where
  "Id_checked_add i n = (if unat i + unat n \<le> 65535 then Some (i + n) else None)"

record LinkId =
  link_local :: "Id option"
  link_remote :: "Id option"

definition LinkId_INTERFACE :: LinkId where
  "LinkId_INTERFACE = \<lparr>link_local = None, link_remote = None\<rparr>"

datatype IdentityKind = IdentityKind_Name string

record Identity =
  ident_id :: nat
  ident_kind :: IdentityKind

definition Identity_new :: "nat \<Rightarrow> IdentityKind \<Rightarrow> Identity" where
  "Identity_new uuid kind = \<lparr>ident_id = uuid, ident_kind = kind\<rparr>"

definition Identity_from_name :: "nat \<Rightarrow> string \<Rightarrow> Identity" where
  "Identity_from_name uuid name = Identity_new uuid (IdentityKind_Name name)"

text \<open>
  The conversions to \<open>IdentityKind\<close>; \<open>into\<close> is the conversion of \<open>heapless\<close> to a string of bounded length.
\<close>

definition IdentityKind_from_str :: "(string \<Rightarrow> string outcome) \<Rightarrow> string \<Rightarrow> IdentityKind outcome" where
  "IdentityKind_from_str into s = outcome_map IdentityKind_Name (into s)"

definition IdentityKind_from_string :: "string \<Rightarrow> IdentityKind" where
  "IdentityKind_from_string s = IdentityKind_Name s"

definition Identity_uuid :: "Identity \<Rightarrow> nat" where
  "Identity_uuid i = ident_id i"

definition Identity_kind :: "Identity \<Rightarrow> IdentityKind" where
  "Identity_kind i = ident_kind i"

subsection \<open>Reasons\<close>

datatype DecodeErrorKind =
    UnexpectedEnd | BadVarint | BadBool | BadChar | BadUtf8 | BadOption | BadEnum | BadEncoding
  | BadCrc | SerdeDeCustom | Unknown

datatype DecodeError =
  DecodeError_Header DecodeErrorKind | DecodeError_Body DecodeErrorKind | UnexpectedTrailingData

datatype Rejection = ConnTableFull nat | NotFound | ServiceRejected | Rejection_DecodeError DecodeError

datatype Reset = BecauseISaidSo | YouDoneGoofed DecodeError | NoSuchConn | YesSuchConn | GoAway

text \<open>The errors of \<open>postcard\<close> that the conversion names, and all others.\<close>

datatype postcard_error =
    DeserializeUnexpectedEnd | DeserializeBadVarint | DeserializeBadBool | DeserializeBadChar
  | DeserializeBadUtf8 | DeserializeBadOption | DeserializeBadEnum | DeserializeBadEncoding
  | DeserializeBadCrc | PcSerdeDeCustom | PcOther nat

fun DecodeErrorKind_from_postcard :: "postcard_error \<Rightarrow> DecodeErrorKind" where
  "DecodeErrorKind_from_postcard DeserializeUnexpectedEnd = UnexpectedEnd"
| "DecodeErrorKind_from_postcard DeserializeBadVarint = BadVarint"
| "DecodeErrorKind_from_postcard DeserializeBadBool = BadBool"
| "DecodeErrorKind_from_postcard DeserializeBadChar = BadChar"
| "DecodeErrorKind_from_postcard DeserializeBadUtf8 = BadUtf8"
| "DecodeErrorKind_from_postcard DeserializeBadOption = BadOption"
| "DecodeErrorKind_from_postcard DeserializeBadEnum = BadEnum"
| "DecodeErrorKind_from_postcard DeserializeBadEncoding = BadEncoding"
| "DecodeErrorKind_from_postcard DeserializeBadCrc = BadCrc"
| "DecodeErrorKind_from_postcard PcSerdeDeCustom = SerdeDeCustom"
| "DecodeErrorKind_from_postcard (PcOther _) = Unknown"

definition DecodeError_body :: "postcard_error \<Rightarrow> DecodeError" where
  "DecodeError_body e = DecodeError_Body (DecodeErrorKind_from_postcard e)"

definition DecodeError_header :: "postcard_error \<Rightarrow> DecodeError" where
  "DecodeError_header e = DecodeError_Header (DecodeErrorKind_from_postcard e)"

definition Reset_bad_frame :: "postcard_error \<Rightarrow> Reset" where
  "Reset_bad_frame e = YouDoneGoofed (DecodeError_body e)"

fun DecodeErrorKind_display :: "DecodeErrorKind \<Rightarrow> string" where
  "DecodeErrorKind_display UnexpectedEnd = ''hit the end of the buffer, but expected more data''"
| "DecodeErrorKind_display BadVarint =
     ''found a varint that didn't terminate, is the usize too big for this platform?''"
| "DecodeErrorKind_display BadBool = ''found a bool that wasn't 0 or 1''"
| "DecodeErrorKind_display BadChar = ''found an invalid unicode character''"
| "DecodeErrorKind_display BadUtf8 = ''tried to parse invalid UTF-8''"
| "DecodeErrorKind_display BadOption = ''found an Option discriminant that wasn't 0 or 1''"
| "DecodeErrorKind_display BadEnum = ''found an enum discriminant that was > u32::max_value()''"
| "DecodeErrorKind_display BadEncoding = ''the original data was not well encoded''"
| "DecodeErrorKind_display BadCrc = ''bad CRC while deserializing''"
| "DecodeErrorKind_display SerdeDeCustom = ''Serde deserializer error''"
| "DecodeErrorKind_display Unknown = ''unknown error''"

fun DecodeError_display :: "DecodeError \<Rightarrow> string" where
  "DecodeError_display (DecodeError_Body e) = ''error decoding frame body: '' @ DecodeErrorKind_display e"
| "DecodeError_display (DecodeError_Header e) =
     ''error decoding frame header: '' @ DecodeErrorKind_display e"
| "DecodeError_display UnexpectedTrailingData =
     ''unexpected trailing body data in a frame type without a body''"

fun Reset_display :: "Reset \<Rightarrow> string" where
  "Reset_display (YouDoneGoofed e) =
     ''you done goofed! received a bad frame: '' @ DecodeError_display e"
| "Reset_display NoSuchConn = ''no such connection exists''"
| "Reset_display YesSuchConn = ''connection already exists''"
| "Reset_display GoAway = ''the peer is shutting down this interface, go away!''"
| "Reset_display BecauseISaidSo = ''because i said so''"

subsection \<open>Headers\<close>

datatype Header =
    Connect Id Identity
  | Data Id Id \<comment> \<open>\<open>local_id\<close>, \<open>remote_id\<close>\<close>
  | Ack Id Id
  | Reject Id Rejection
  | Header_Reset Id Reset

fun Header_link_id :: "Header \<Rightarrow> LinkId" where
  "Header_link_id (Ack local_id remote_id) =
     \<lparr>link_local = Some local_id, link_remote = Some remote_id\<rparr>"
| "Header_link_id (Reject remote_id _) = \<lparr>link_local = None, link_remote = Some remote_id\<rparr>"
| "Header_link_id (Connect local_id _) = \<lparr>link_local = Some local_id, link_remote = None\<rparr>"
| "Header_link_id (Header_Reset remote_id _) = \<lparr>link_local = None, link_remote = Some remote_id\<rparr>"
| "Header_link_id (Data local_id remote_id) =
     \<lparr>link_local = Some local_id, link_remote = Some remote_id\<rparr>"

fun Header_has_body :: "Header \<Rightarrow> bool" where
  "Header_has_body (Reject _ reason) = (reason = ServiceRejected)"
| "Header_has_body (Connect _ _) = True"
| "Header_has_body (Data _ _) = True"
| "Header_has_body _ = False"

record header_codec =
  hc_to_slice :: "Header \<Rightarrow> bytes \<Rightarrow> postcard_error + bytes"
  hc_to_allocvec :: "Header \<Rightarrow> postcard_error + bytes"
  hc_take_from_bytes :: "bytes \<Rightarrow> postcard_error + (Header \<times> bytes)"

subsection \<open>The shared memory of a node\<close>

text \<open>
  The channels, one-shot channels and boxes that the sockets of a connection table refer to, by
  address.
\<close>

record ('ia, 'm) world =
  pipe_at :: "nat \<Rightarrow> (Reset, 'ia, 'm) pipe"
  oneshot_at :: "nat \<Rightarrow> (Rejection + unit) oneshot"
  box_at :: "nat \<Rightarrow> 'm serbox"

text \<open>
  A reference received from a channel is the channel's address, the type its vtable was made for
  and the index it holds; a consumer is the address of its box, with that type.
\<close>

datatype OutboundData =
    Empty
  | Data_Ref nat type_id u8
  | Rejected nat type_id
  | Hello nat type_id

record 'b frame =
  header :: Header
  body :: 'b

type_synonym InboundFrame = "bytes frame"
type_synonym OutboundFrame = "OutboundData frame"

subsection \<open>Decoding\<close>

definition Frame_from_bytes ::
  "header_codec \<Rightarrow> bytes \<Rightarrow> (DecodeError + InboundFrame) outcome" where
  "Frame_from_bytes hc frame =
     (case hc_take_from_bytes hc frame of
        Err e \<Rightarrow> Done (Err (DecodeError_header e))
      | Ok (hdr, rem) \<Rightarrow>
          if \<not> Header_has_body hdr then
            (if rem \<noteq> [] then Done (Err UnexpectedTrailingData)
             else Done (Ok \<lparr>header = hdr, body = []\<rparr>))
          else if length frame < length rem then Panic
          else (let off = length frame - length rem
                in Done (Ok \<lparr>header = hdr, body = drop off frame\<rparr>)))"

definition Frame_deserialize_from_bytes ::
  "header_codec \<Rightarrow> ('m, postcard_error) postcard \<Rightarrow> bytes \<Rightarrow> (DecodeError + 'm frame) outcome" where
  "Frame_deserialize_from_bytes hc pc buf =
     outcome_map (\<lambda>r.
         case r of
           Err e \<Rightarrow> Err e
         | Ok f \<Rightarrow> (case pc_from_bytes pc (body f) of
                     Err e \<Rightarrow> Err (DecodeError_body e)
                   | Ok b \<Rightarrow> Ok \<lparr>header = header f, body = b\<rparr>))
       (Frame_from_bytes hc buf)"

subsection \<open>Building and encoding\<close>

definition Frame_data :: "Id \<Rightarrow> Id \<Rightarrow> nat \<Rightarrow> type_id \<Rightarrow> u8 \<Rightarrow> OutboundFrame" where
  "Frame_data remote_id local_id a t idx =
     \<lparr>header = Data local_id remote_id, body = Data_Ref a t idx\<rparr>"

definition Frame_ack :: "Id \<Rightarrow> Id \<Rightarrow> OutboundFrame" where
  "Frame_ack local_id remote_id = \<lparr>header = Ack local_id remote_id, body = Empty\<rparr>"

definition Frame_reject :: "Id \<Rightarrow> Rejection \<Rightarrow> OutboundFrame" where
  "Frame_reject remote_id reason = \<lparr>header = Reject remote_id reason, body = Empty\<rparr>"

definition Frame_reset :: "Id \<Rightarrow> Reset \<Rightarrow> OutboundFrame" where
  "Frame_reset remote_id reason = \<lparr>header = Header_Reset remote_id reason, body = Empty\<rparr>"

definition Frame_connect :: "Id \<Rightarrow> Identity \<Rightarrow> nat \<Rightarrow> type_id \<Rightarrow> OutboundFrame" where
  "Frame_connect local_id ident a t = \<lparr>header = Connect local_id ident, body = Hello a t\<rparr>"

fun OutboundData_to_slice ::
  "('m, postcard_error) postcard \<Rightarrow> ('ia, 'm) world \<Rightarrow> OutboundData \<Rightarrow> bytes
    \<Rightarrow> (postcard_error + bytes) outcome" where
  "OutboundData_to_slice pc w Empty buf = Done (Ok [])"
| "OutboundData_to_slice pc w (Data_Ref a t idx) buf = SerRecvRef_to_slice pc t (pipe_at w a) idx buf"
| "OutboundData_to_slice pc w (Rejected a t) buf = Consumer_to_slice pc t (box_at w a) buf"
| "OutboundData_to_slice pc w (Hello a t) buf = Consumer_to_slice pc t (box_at w a) buf"

fun OutboundData_to_vec ::
  "('m, postcard_error) postcard \<Rightarrow> ('ia, 'm) world \<Rightarrow> OutboundData \<Rightarrow> (postcard_error + bytes) outcome"
  where
  "OutboundData_to_vec pc w Empty = Done (Ok [])"
| "OutboundData_to_vec pc w (Data_Ref a t idx) = SerRecvRef_to_vec pc t (pipe_at w a) idx"
| "OutboundData_to_vec pc w (Rejected a t) = Consumer_to_vec pc t (box_at w a)"
| "OutboundData_to_vec pc w (Hello a t) = Consumer_to_vec pc t (box_at w a)"

text \<open>
  \<open>to_slice\<close> rebinds \<open>buf\<close> to the part after the header and, in the end, takes the first bytes
  of that part: what it returns is the body, followed by what was in the buffer behind it.
\<close>

definition Frame_to_slice ::
  "header_codec \<Rightarrow> ('m, postcard_error) postcard \<Rightarrow> ('ia, 'm) world \<Rightarrow> OutboundFrame \<Rightarrow> bytes
    \<Rightarrow> (postcard_error + bytes) outcome" where
  "Frame_to_slice hc pc w f buf =
     (case hc_to_slice hc (header f) buf of
        Err e \<Rightarrow> Done (Err e)
      | Ok hdr \<Rightarrow>
          (let used = length hdr; buf1 = drop used buf
           in outcome_bind (OutboundData_to_slice pc w (body f) buf1) (\<lambda>r.
                case r of
                  Err e \<Rightarrow> Done (Err e)
                | Ok bs \<Rightarrow>
                    (let used2 = used + length bs
                     in if used2 \<le> length buf1
                        then Done (Ok (take used2 (bs @ drop (length bs) buf1)))
                        else Panic))))"

definition Frame_to_vec ::
  "header_codec \<Rightarrow> ('m, postcard_error) postcard \<Rightarrow> ('ia, 'm) world \<Rightarrow> OutboundFrame
    \<Rightarrow> (postcard_error + bytes) outcome" where
  "Frame_to_vec hc pc w f =
     (case hc_to_allocvec hc (header f) of
        Err e \<Rightarrow> Done (Err e)
      | Ok hdr \<Rightarrow>
          outcome_map (\<lambda>r. case r of Err e \<Rightarrow> Err e | Ok bs \<Rightarrow> Ok (hdr @ bs))
            (OutboundData_to_vec pc w (body f)))"


subsection \<open>Frames survive the wire\<close>

text \<open>
  What the encoding of headers is relied on for: a header is decoded from the front of whatever
  follows it, which is returned, and encoding into a buffer gives the same bytes if they fit.
\<close>

definition header_codec_ok :: "header_codec \<Rightarrow> bool" where
  "header_codec_ok hc \<longleftrightarrow>
     (\<forall>h bs rest. hc_to_allocvec hc h = Ok bs \<longrightarrow> hc_take_from_bytes hc (bs @ rest) = Ok (h, rest)) \<and>
     (\<forall>h bs buf. hc_to_allocvec hc h = Ok bs \<longrightarrow> length bs \<le> length buf \<longrightarrow> hc_to_slice hc h buf = Ok bs)"

text \<open>A codec for some headers with small identifiers.\<close>

definition small_id :: "Id \<Rightarrow> bool" where
  "small_id i \<longleftrightarrow> 0 < unat i \<and> unat i < 256"

definition sample_codec :: header_codec where
  "sample_codec = \<lparr>
     hc_to_slice = (\<lambda>h buf.
       case h of
         Data l r \<Rightarrow> if small_id l \<and> small_id r \<and> 3 \<le> length buf
           then Ok [2, ucast l, ucast r] else Err (PcOther 0)
       | Ack l r \<Rightarrow> if small_id l \<and> small_id r \<and> 3 \<le> length buf
           then Ok [1, ucast l, ucast r] else Err (PcOther 0)
       | _ \<Rightarrow> Err (PcOther 0)),
     hc_to_allocvec = (\<lambda>h.
       case h of
         Data l r \<Rightarrow> if small_id l \<and> small_id r then Ok [2, ucast l, ucast r] else Err (PcOther 0)
       | Ack l r \<Rightarrow> if small_id l \<and> small_id r then Ok [1, ucast l, ucast r] else Err (PcOther 0)
       | _ \<Rightarrow> Err (PcOther 0)),
     hc_take_from_bytes = (\<lambda>bs.
       case bs of
         k # l # r # rest \<Rightarrow>
           if l = 0 \<or> r = 0 then Err DeserializeBadEncoding
           else if k = 2 then Ok (Data (ucast l) (ucast r), rest)
           else if k = 1 then Ok (Ack (ucast l) (ucast r), rest) else Err DeserializeBadEnum
       | _ \<Rightarrow> Err DeserializeUnexpectedEnd)\<rparr>"

text \<open>A one-byte encoding of messages, and a memory of empty channels and boxes.\<close>

definition wire_codec :: "(nat, postcard_error) postcard" where
  "wire_codec = \<lparr>
     pc_to_slice = (\<lambda>m buf. if m < 256 \<and> buf \<noteq> [] then Ok [of_nat m] else Err (PcOther 1)),
     pc_to_slice_cobs = (\<lambda>m buf. Err (PcOther 1)),
     pc_to_allocvec = (\<lambda>m. if m < 256 then Ok [of_nat m] else Err (PcOther 1)),
     pc_to_allocvec_cobs = (\<lambda>m. Err (PcOther 1)),
     pc_from_bytes = (\<lambda>bs. case bs of [b] \<Rightarrow> Ok (unat b) | _ \<Rightarrow> Err DeserializeUnexpectedEnd),
     pc_from_bytes_cobs = (\<lambda>bs. Err DeserializeBadEncoding)\<rparr>"

definition wire_pipe :: "(Reset, usize, nat) pipe" where
  "wire_pipe =
     \<lparr>dequeue_pos = 0, cons_wait = [], enqueue_pos = 0, prod_wait = [],
      indices = ia_with_capacity bitmap_ops 4,
      queue = map (\<lambda>i. push_bit POS_SHIFT (of_nat i)) [0..<64], state = TX_ONE, capacity = 4,
      error = None, elements = replicate 4 None, elem_type = 7, elem_type_name = ''u32'',
      storage = Arc 1, dropped = []\<rparr>"

lemma wire_pipe_new: "TrickyPipe_new bitmap_ops 7 ''u32'' 4 = Done wire_pipe"
  by (simp add: TrickyPipe_new_def Core_new_def MAX_CAPACITY_def core.defs wire_pipe_def)

definition sample_world :: "(usize, nat) world" where
  "sample_world = \<lparr>pipe_at = (\<lambda>_. wire_pipe), oneshot_at = (\<lambda>_. OneshotReceiver_new 3),
     box_at = (\<lambda>_. SerBox_new 5 Boxed)\<rparr>"

lemma small_ucast: "unat (w :: u16) < 256 \<Longrightarrow> ucast (ucast w :: u8) = w"
  by (rule word_unat_eq_iff [THEN iffD2]) (simp add: unat_ucast_u16 unat_ucast_u8)

lemma small_ucast_nonzero: "small_id i \<Longrightarrow> (ucast i :: u8) \<noteq> 0"
  by (auto simp: small_id_def word_unat_eq_iff unat_ucast_u8)

lemma sample_codec_ok: "header_codec_ok sample_codec"
  by (auto simp: header_codec_ok_def sample_codec_def small_ucast small_ucast_nonzero
      small_id_def [THEN iffD1] split: Header.splits if_splits)

lemma frame_decodes:
  assumes "header_codec_ok hc" and "Frame_to_vec hc pc w f = Done (Ok bs)"
    and "Header_has_body (header f) \<or> body f = Empty"
  shows "\<exists>payload. OutboundData_to_vec pc w (body f) = Done (Ok payload) \<and>
    Frame_from_bytes hc bs = Done (Ok \<lparr>header = header f, body = payload\<rparr>)"
proof -
  obtain hdr payload where enc: "hc_to_allocvec hc (header f) = Ok hdr"
    "OutboundData_to_vec pc w (body f) = Done (Ok payload)" "bs = hdr @ payload"
    using assms(2)
    by (cases "hc_to_allocvec hc (header f)"; cases "OutboundData_to_vec pc w (body f)")
      (auto simp: Frame_to_vec_def split: sum.splits)
  then have "hc_take_from_bytes hc bs = Ok (header f, payload)"
    using assms(1) by (simp add: header_codec_ok_def)
  moreover have "payload = []" if "\<not> Header_has_body (header f)" using that assms(3) enc(2) by auto
  ultimately show ?thesis using enc by (auto simp: Frame_from_bytes_def Let_def)
qed



text \<open>
  \<open>Frame::to_slice\<close> does not return the encoded frame: it leaves the header out and appends
  as many bytes of the old contents of the buffer as the header had; if the buffer has less room
  than the header needs twice, it panics, even where the frame would fit exactly.
\<close>

theorem to_slice_drops_header:
  assumes "header_codec_ok hc" and "hc_to_allocvec hc (header f) = Ok hdr"
    and "OutboundData_to_slice pc w (body f) (drop (length hdr) buf) = Done (Ok bs)"
    and "length hdr + length bs \<le> length buf"
  shows "Frame_to_slice hc pc w f buf =
    (if 2 * length hdr + length bs \<le> length buf
     then Done (Ok (bs @ take (length hdr) (drop (length hdr + length bs) buf)))
     else Panic)"
proof -
  have "hc_to_slice hc (header f) buf = Ok hdr"
    using assms(1,2,4) by (simp add: header_codec_ok_def)
  with assms(3) show ?thesis by (auto simp: Frame_to_slice_def Let_def add.commute)
qed

lemma sample_ack: "hc_to_allocvec sample_codec (Ack 3 4) = Ok [1, 3, 4]"
  by (simp add: sample_codec_def small_id_def)

theorem to_slice_drops_header_witness:
  "Frame_to_slice sample_codec wire_codec sample_world (Frame_ack 3 4) [0, 0, 0] = Panic"
  using to_slice_drops_header [OF sample_codec_ok, of "Frame_ack 3 4" "[1, 3, 4]" wire_codec sample_world
    "[0, 0, 0]" "[]"] sample_ack
  by (simp add: Frame_ack_def)

text \<open>
  Every header names a connection: no decoded frame is addressed to the interface itself, so
  the unimplemented branch of the interface's receive loop is not reached.
\<close>

lemma link_id_not_interface: "Header_link_id h \<noteq> LinkId_INTERFACE"
  by (cases h) (simp_all add: LinkId_INTERFACE_def)

end
