(* ===== verification/Bidi.thy ===== *)
theory Bidi
  imports Mpsc_Properties
begin

section \<open>Bidirectional channels (\<open>bidi.rs\<close>)\<close>

text \<open>
  A \<open>BiDi\<close> pairs a sender of one pipe with a receiver of another. The record holds the two flags
  of the pair; the pipes are arguments of the operations, because other handles share them.
  \<open>wait\<close> is a future: one definition is one poll of it, and the stage says where the future is
  suspended, in the biased select over both sides or in the await of one side that the select
  has led to.
\<close>

datatype ('in, 'out) Event = Event_Recv 'in | Event_SendReady 'out

datatype 'e WaitError = WaitError_Recv 'e | WaitError_Send 'e | WaitError_Disconnected

record bidi =
  seen_rx_error :: bool
  seen_tx_error :: bool

datatype wait_stage = Select | Await_Recv | Await_Reserve

definition BiDi_from_pair :: bidi where
  "BiDi_from_pair = \<lparr>seen_rx_error = False, seen_tx_error = False\<rparr>"

definition BiDi_into_serde :: "bidi \<Rightarrow> bidi" where
  "BiDi_into_serde b = \<lparr>seen_rx_error = seen_rx_error b, seen_tx_error = seen_tx_error b\<rparr>"

text \<open>
  The two continuations of the select: what is left to do once one side has failed. The result
  is the flags, and the event or the error.
\<close>

fun wait_recv_result :: "bidi \<Rightarrow> 'e RecvError + 'i \<Rightarrow> bidi \<times> ('e WaitError + ('i, 'o) Event)" where
  "wait_recv_result b (Ok msg) = (b, Ok (Event_Recv msg))"
| "wait_recv_result b (Err RecvError_Disconnected) = (b, Err WaitError_Disconnected)"
| "wait_recv_result b (Err (RecvError_Error e)) = (b\<lparr>seen_rx_error := True\<rparr>, Err (WaitError_Recv e))"

fun wait_reserve_result ::
  "bidi \<Rightarrow> ('e, unit) SendError + 'o \<Rightarrow> bidi \<times> ('e WaitError + ('i, 'o) Event)" where
  "wait_reserve_result b (Ok permit) = (b, Ok (Event_SendReady permit))"
| "wait_reserve_result b (Err (SendError_Disconnected _)) = (b, Err WaitError_Disconnected)"
| "wait_reserve_result b (Err (SendError_Error _ e)) =
     (b\<lparr>seen_tx_error := True\<rparr>, Err (WaitError_Send e))"

text \<open>
  One poll of \<open>wait\<close>, for any reserve and receive futures: \<open>reserve\<close> and \<open>recv\<close> poll them on
  their pipes.
\<close>

definition wait_recv ::
  "('p \<Rightarrow> ('p \<times> ('e RecvError + 'i) poll) outcome) \<Rightarrow> bidi \<Rightarrow> 'q \<Rightarrow> 'p
    \<Rightarrow> (bidi \<times> 'q \<times> 'p \<times> (wait_stage + 'e WaitError + ('i, 'o) Event)) outcome" where
  "wait_recv recv b ptx prx =
     outcome_map (\<lambda>(prx', r).
         case r of
           Pending \<Rightarrow> (b, ptx, prx', Inl Await_Recv)
         | Ready x \<Rightarrow> (case wait_recv_result b x of (b', res) \<Rightarrow> (b', ptx, prx', Inr res)))
       (recv prx)"

definition wait_reserve ::
  "('q \<Rightarrow> ('q \<times> (('e, unit) SendError + 'o)) outcome) \<Rightarrow> bidi \<Rightarrow> 'q \<Rightarrow> 'p
    \<Rightarrow> (bidi \<times> 'q \<times> 'p \<times> (wait_stage + 'e WaitError + ('i, 'o) Event)) outcome" where
  "wait_reserve reserve b ptx prx =
     (case reserve ptx of
        Running \<Rightarrow> Done (b, ptx, prx, Inl Await_Reserve)
      | Done (ptx', x) \<Rightarrow>
          (case wait_reserve_result b x of (b', res) \<Rightarrow> Done (b', ptx', prx, Inr res))
      | Panic \<Rightarrow> Panic | UB \<Rightarrow> UB)"

definition wait_poll ::
  "('q \<Rightarrow> ('q \<times> (('e, unit) SendError + 'o)) outcome) \<Rightarrow>
   ('p \<Rightarrow> ('p \<times> ('e RecvError + 'i) poll) outcome) \<Rightarrow> wait_stage \<Rightarrow> bidi \<Rightarrow> 'q \<Rightarrow> 'p
    \<Rightarrow> (bidi \<times> 'q \<times> 'p \<times> (wait_stage + 'e WaitError + ('i, 'o) Event)) outcome" where
  "wait_poll reserve recv stage b ptx prx =
     (case stage of
        Await_Recv \<Rightarrow> wait_recv recv b ptx prx
      | Await_Reserve \<Rightarrow> wait_reserve reserve b ptx prx
      | Select \<Rightarrow>
          (case reserve ptx of
             Panic \<Rightarrow> Panic | UB \<Rightarrow> UB
           | Done (ptx', Ok permit) \<Rightarrow> Done (b, ptx', prx, Inr (Ok (Event_SendReady permit)))
           | Done (ptx', Err e) \<Rightarrow>
               (case e of
                  SendError_Error _ err \<Rightarrow>
                    if \<not> seen_tx_error b
                    then Done (b\<lparr>seen_tx_error := True\<rparr>, ptx', prx, Inr (Err (WaitError_Send err)))
                    else wait_recv recv b ptx' prx
                | SendError_Disconnected _ \<Rightarrow> wait_recv recv b ptx' prx)
           | Running \<Rightarrow>
               (case recv prx of
                  Panic \<Rightarrow> Panic | UB \<Rightarrow> UB | Running \<Rightarrow> Running
                | Done (prx', Pending) \<Rightarrow> Done (b, ptx, prx', Inl Select)
                | Done (prx', Ready (Ok msg)) \<Rightarrow> Done (b, ptx, prx', Inr (Ok (Event_Recv msg)))
                | Done (prx', Ready (Err e)) \<Rightarrow>
                    (case e of
                       RecvError_Error err \<Rightarrow>
                         if \<not> seen_rx_error b
                         then Done (b\<lparr>seen_rx_error := True\<rparr>, ptx, prx', Inr (Err (WaitError_Recv err)))
                         else wait_reserve reserve b ptx prx'
                     | RecvError_Disconnected \<Rightarrow> wait_reserve reserve b ptx prx'))))"

text \<open>\<open>BiDi::wait\<close>: the typed sender and receiver. The extra arguments are those of the two futures.\<close>

definition BiDi_wait ::
  "'ia index_ops \<Rightarrow> type_id \<Rightarrow> type_id \<Rightarrow> bool list \<Rightarrow> (('e, 'ia, 'm) pipe \<times> (unit + unit)) list
    \<Rightarrow> ('e, 'ia, 'm) pipe poll list \<Rightarrow> wait_stage \<Rightarrow> bidi \<Rightarrow> ('e, 'ia, 'm) pipe \<Rightarrow> ('e, 'ia, 'm) pipe
    \<Rightarrow> (bidi \<times> ('e, 'ia, 'm) pipe \<times> ('e, 'ia, 'm) pipe \<times>
        (wait_stage + 'e WaitError + ('m, u8) Event)) outcome" where
  "BiDi_wait io t_out t_in sched resumes polls stage b ptx prx =
     wait_poll (Sender_reserve io t_out resumes) (Receiver_poll_recv io t_in sched polls)
       stage b ptx prx"

definition SerBiDi_wait ::
  "'ia index_ops \<Rightarrow> bool list \<Rightarrow> (('e, 'ia, 'm) pipe \<times> (unit + unit)) list
    \<Rightarrow> ('e, 'ia, 'm) pipe poll list \<Rightarrow> wait_stage \<Rightarrow> bidi \<Rightarrow> ('e, 'ia, 'm) pipe \<Rightarrow> ('e, 'ia, 'm) pipe
    \<Rightarrow> (bidi \<times> ('e, 'ia, 'm) pipe \<times> ('e, 'ia, 'm) pipe \<times>
        (wait_stage + 'e WaitError + (u8, u8) Event)) outcome" where
  "SerBiDi_wait io sched resumes polls stage b ptx prx =
     wait_poll (DeserSender_reserve io resumes) (SerReceiver_poll_recv sched polls) stage b ptx prx"

definition BiDi_close_with_error ::
  "('e, 'ia, 'm) pipe \<Rightarrow> ('e, 'ia, 'm) pipe \<Rightarrow> 'e
    \<Rightarrow> ('e, 'ia, 'm) pipe \<times> ('e, 'ia, 'm) pipe \<times> bool" where
  "BiDi_close_with_error ptx prx e =
     (let (ptx', tx_closed) = Sender_close_with_error ptx e;
          (prx', rx_closed) = Receiver_close_with_error prx e
      in (ptx', prx', rx_closed \<or> tx_closed))"

definition BiDi_is_empty :: "('e, 'ia, 'm) pipe \<Rightarrow> ('e, 'ia, 'm) pipe \<Rightarrow> bool" where
  "BiDi_is_empty ptx prx = (Sender_is_empty ptx \<and> Receiver_is_empty prx)"

definition BiDi_is_full :: "('e, 'ia, 'm) pipe \<Rightarrow> ('e, 'ia, 'm) pipe \<Rightarrow> bool" where
  "BiDi_is_full ptx prx = (Sender_is_full ptx \<and> Receiver_is_full prx)"

definition SerBiDi_from_pair :: bidi where
  "SerBiDi_from_pair = \<lparr>seen_rx_error = False, seen_tx_error = False\<rparr>"

definition SerBiDi_close_with_error ::
  "('e, 'ia, 'm) pipe \<Rightarrow> ('e, 'ia, 'm) pipe \<Rightarrow> 'e
    \<Rightarrow> ('e, 'ia, 'm) pipe \<times> ('e, 'ia, 'm) pipe \<times> bool" where
  "SerBiDi_close_with_error ptx prx e =
     (let (ptx', tx_closed) = DeserSender_close_with_error ptx e;
          (prx', rx_closed) = SerReceiver_close_with_error prx e
      in (ptx', prx', rx_closed \<or> tx_closed))"

definition SerBiDi_is_empty :: "('e, 'ia, 'm) pipe \<Rightarrow> ('e, 'ia, 'm) pipe \<Rightarrow> bool" where
  "SerBiDi_is_empty ptx prx = (DeserSender_is_empty ptx \<and> SerReceiver_is_empty prx)"

definition SerBiDi_is_full :: "('e, 'ia, 'm) pipe \<Rightarrow> ('e, 'ia, 'm) pipe \<Rightarrow> bool" where
  "SerBiDi_is_full ptx prx = (DeserSender_is_full ptx \<and> SerReceiver_is_full prx)"

subsection \<open>What waiting and closing do\<close>

declare Core_reserve.simps [simp del] Core_poll_dequeue.simps [simp del]

lemma reserve_err_closed:
  assumes "Core_reserve io [] p = Done (p', Err e)"
  shows "rx_closed p \<and> p' = p"
  using assms by (auto simp: Core_reserve.simps try_reserve_cases split: if_splits option.splits)

lemma poll_dequeue_disconnected:
  assumes "core_wf p" and "True \<in> set sched"
    and "Core_poll_dequeue sched [Pending] p = Done (p', Ready (Err RecvError_Disconnected))"
  shows "tx_closed p \<and> p' = p \<and> (Core_queued p = [] \<or> Core_head p = 1023)"
  using assms(3) try_dequeue_cases [OF assms(1,2)]
  by (auto simp: Core_poll_dequeue.simps recv_closed_error_def split: list.splits if_splits option.splits)

lemma poll_dequeue_error:
  assumes "core_wf p" and "True \<in> set sched"
    and "Core_poll_dequeue sched [Pending] p = Done (p', Ready (Err e))"
  shows "tx_closed p \<and> p' = p"
  using assms(3) try_dequeue_cases [OF assms(1,2)]
  by (auto simp: Core_poll_dequeue.simps recv_closed_error_def split: list.splits if_splits option.splits)

lemma ser_reserve_poll:
  "DeserSender_reserve io resumes p = Core_reserve io resumes p"
  "SerReceiver_poll_recv sched polls p = Core_poll_dequeue sched polls p"
  by (simp_all add: DeserSender_reserve_def SerReceiver_poll_recv_def)

lemma wait_recv_error:
  assumes "wait_recv recv b q p = Done (b', q', p', Inr (Err w))"
  shows "w = WaitError_Disconnected \<or> seen_rx_error b' \<and> (\<exists>e. w = WaitError_Recv e)"
proof (cases "recv p")
  case (Done z)
  obtain p2 r where z: "z = (p2, r)" by fastforce
  show ?thesis
  proof (cases r)
    case Pending
    with Done z assms show ?thesis by (simp add: wait_recv_def)
  next
    case (Ready x)
    with Done z assms show ?thesis
      by (cases "(b, x)" rule: wait_recv_result.cases) (auto simp: wait_recv_def)
  qed
qed (use assms in \<open>simp_all add: wait_recv_def\<close>)

lemma wait_recv_disconnected:
  assumes "wait_recv recv b q p = Done (b', q', p', Inr (Err WaitError_Disconnected))"
  shows "recv p = Done (p', Ready (Err RecvError_Disconnected)) \<and> b' = b"
proof (cases "recv p")
  case (Done z)
  obtain p2 r where z: "z = (p2, r)" by fastforce
  show ?thesis
  proof (cases r)
    case Pending
    with Done z assms show ?thesis by (simp add: wait_recv_def)
  next
    case (Ready x)
    with Done z assms show ?thesis
      by (cases "(b, x)" rule: wait_recv_result.cases) (auto simp: wait_recv_def)
  qed
qed (use assms in \<open>simp_all add: wait_recv_def\<close>)

text \<open>
  \<open>SerBiDi::wait\<close> reports a disconnection only when it is one: the other side has closed the
  pipe it sends on, all senders of the pipe it receives from are gone, and nothing is left in it
  for the receiver to take.
\<close>

theorem wait_disconnected:
  assumes "core_wf prx" and "True \<in> set sched"
    and "SerBiDi_wait io sched [] [Pending] Select b ptx prx =
      Done (b', ptx', prx', Inr (Err WaitError_Disconnected))"
  shows "rx_closed ptx \<and> tx_closed prx \<and> (Core_queued prx = [] \<or> Core_head prx = 1023) \<and> b' = b"
proof (cases "Core_reserve io [] ptx")
  case (Done r)
  then obtain p1 e where r: "Core_reserve io [] ptx = Done (p1, Err e)"
    using assms(3) by (cases r; cases "snd r")
      (auto simp: SerBiDi_wait_def wait_poll_def ser_reserve_poll)
  then have "Core_poll_dequeue sched [Pending] prx =
      Done (prx', Ready (Err RecvError_Disconnected)) \<and> b' = b"
    using assms(3)
    by (auto simp: SerBiDi_wait_def wait_poll_def ser_reserve_poll dest!: wait_recv_disconnected
        split: SendError.splits if_splits)
  then show ?thesis
    using poll_dequeue_disconnected [OF assms(1,2)] reserve_err_closed [OF r] by blast
next
  case Running
  then show ?thesis
    using assms(3)
    by (auto simp: SerBiDi_wait_def wait_poll_def ser_reserve_poll wait_reserve_def
        split: outcome.splits prod.splits poll.splits sum.splits RecvError.splits if_splits)
qed (use assms(3) in \<open>simp_all add: SerBiDi_wait_def wait_poll_def ser_reserve_poll\<close>)

theorem wait_disconnected_witness:
  "\<exists>ptx' prx' b'.
     SerBiDi_wait bitmap_ops [True] [] [Pending] Select SerBiDi_from_pair (Core_close_rx sample_pipe)
       (Core_drop_tx sample_pipe) = Done (b', ptx', prx', Inr (Err WaitError_Disconnected)) \<and>
     rx_closed (Core_close_rx sample_pipe) \<and> tx_closed (Core_drop_tx sample_pipe) \<and>
     b' = SerBiDi_from_pair"
proof -
  let ?wait = "SerBiDi_wait bitmap_ops [True] [] [Pending] Select SerBiDi_from_pair
    (Core_close_rx sample_pipe) (Core_drop_tx sample_pipe)"
  have "case ?wait of Done (_, _, _, r) \<Rightarrow> r = Inr (Err WaitError_Disconnected) | _ \<Rightarrow> False"
    by code_simp
  then obtain b' ptx' prx' where w: "?wait = Done (b', ptx', prx', Inr (Err WaitError_Disconnected))"
    by (auto split: outcome.splits)
  have "tx_count sample_pipe = 1"
    by (simp add: sample_pipe_def tx_count_def st_count_def TX_ONE_value TX_SHIFT_def)
  then have "core_wf (Core_drop_tx sample_pipe)"
    using Core_drop_tx_inv(1) [OF sample_core_inv] by (simp add: core_inv_wf)
  from wait_disconnected [OF this _ w] w show ?thesis by simp
qed

text \<open>
  \<open>wait\<close> tells each side's error at most once: once the error of the sending side has been
  reported, waiting goes on with the receiving side alone, and the other way round.
\<close>

theorem wait_errors_once:
  assumes "SerBiDi_wait io sched [] polls Select b ptx prx = Done (b', ptx', prx', Inr (Err w))"
  shows "(w = WaitError_Send e \<longrightarrow> \<not> seen_tx_error b \<and> seen_tx_error b') \<and>
    (w = WaitError_Recv e \<longrightarrow> seen_rx_error b' \<and>
       (seen_rx_error b \<longrightarrow> rx_closed ptx))"
proof (cases "Core_reserve io [] ptx")
  case (Done r)
  obtain p1 x where r: "r = (p1, x)" by fastforce
  show ?thesis
  proof (cases x)
    case (Inr permit)
    with Done r assms show ?thesis by (simp add: SerBiDi_wait_def wait_poll_def ser_reserve_poll)
  next
    case (Inl err)
    have closed: "rx_closed ptx" using Done r Inl reserve_err_closed by blast
    show ?thesis
      using assms Done r Inl closed
      by (auto simp: SerBiDi_wait_def wait_poll_def ser_reserve_poll dest!: wait_recv_error
          split: SendError.splits if_splits)
  qed
next
  case Running
  then show ?thesis
    using assms
    by (auto simp: SerBiDi_wait_def wait_poll_def ser_reserve_poll wait_reserve_def
        split: outcome.splits prod.splits poll.splits sum.splits RecvError.splits if_splits)
qed (use assms in \<open>simp_all add: SerBiDi_wait_def wait_poll_def ser_reserve_poll\<close>)

theorem wait_errors_once_witness:
  "\<exists>ptx' prx' b'.
     SerBiDi_wait bitmap_ops [True] [] [Pending] Select SerBiDi_from_pair
       (fst (Core_close_with_error sample_pipe ''gone'')) sample_pipe =
     Done (b', ptx', prx', Inr (Err (WaitError_Send ''gone''))) \<and> seen_tx_error b'"
proof -
  let ?wait = "SerBiDi_wait bitmap_ops [True] [] [Pending] Select SerBiDi_from_pair
    (fst (Core_close_with_error sample_pipe ''gone'')) sample_pipe"
  have "case ?wait of Done (_, _, _, r) \<Rightarrow> r = Inr (Err (WaitError_Send ''gone'')) | _ \<Rightarrow> False"
    by code_simp
  then obtain b' ptx' prx' where w: "?wait = Done (b', ptx', prx', Inr (Err (WaitError_Send ''gone'')))"
    by (auto split: outcome.splits)
  with wait_errors_once [OF w, of "''gone''"] show ?thesis by blast
qed

text \<open>
  Closing a bidirectional channel with an error closes both of its pipes, in both
  directions, and says whether it was the first to do so on either.
\<close>

theorem bidi_close_with_error:
  assumes "core_inv ptx" and "core_inv prx"
    and "SerBiDi_close_with_error ptx prx e = (ptx', prx', first)"
  shows "errored ptx' \<and> errored prx' \<and> rx_closed ptx' \<and> tx_closed ptx' \<and> rx_closed prx' \<and>
    tx_closed prx' \<and> (first \<longleftrightarrow> \<not> (errored ptx \<and> errored prx)) \<and>
    Core_queued ptx' = Core_queued ptx \<and> Core_queued prx' = Core_queued prx"
proof -
  have close: "errored (fst (Core_close_with_error p e)) \<and> rx_closed (fst (Core_close_with_error p e)) \<and>
      tx_closed (fst (Core_close_with_error p e)) \<and>
      (snd (Core_close_with_error p e) \<longleftrightarrow> \<not> errored p) \<and>
      Core_queued (fst (Core_close_with_error p e)) = Core_queued p"
    if "core_inv p" for p :: "('a, 'b, 'c) pipe"
    using close_with_error_first [OF that, of e] close_with_error_again [OF that, of e] that
    by (cases "errored p") (simp_all add: core_inv_def)
  show ?thesis
    using assms(3) close [OF assms(1)] close [OF assms(2)]
    by (auto simp: SerBiDi_close_with_error_def DeserSender_close_with_error_def
        SerReceiver_close_with_error_def Let_def split_beta)
qed

theorem bidi_close_with_error_witness:
  "\<exists>ptx' prx'. SerBiDi_close_with_error sample_pipe sample_pipe ''gone'' = (ptx', prx', True) \<and>
     errored ptx' \<and> tx_closed prx'"
proof -
  obtain ptx' prx' first where c: "SerBiDi_close_with_error sample_pipe sample_pipe ''gone'' = (ptx', prx', first)"
    by (metis surj_pair)
  have "\<not> errored sample_pipe" by (simp add: sample_pipe_def errored_def TX_ONE_value)
  with bidi_close_with_error [OF sample_core_inv sample_core_inv c] c show ?thesis by auto
qed

end
