(* ===== verification/Conn_Table.thy ===== *)
theory Conn_Table
  imports Wire_Message Bidi
begin

section \<open>The connection table (\<open>conn_table.rs\<close>)\<close>

text \<open>
  The table of sockets of one interface. A socket refers to its channels and to the one-shot
  channel of a pending connect by address; the operations take the memory of the node (\<open>world\<close>)
  and the table, and return both updated. Values that go out of scope are dropped explicitly.
  The functions this component calls outside its crate, the registry and \<open>postcard\<close>, are
  arguments.
\<close>

datatype conn_state = Open Id | Connecting nat

record ser_bidi =
  bd_tx :: nat
  bd_tx_type :: type_id
  bd_rx :: nat
  bd_rx_type :: type_id
  bd_flags :: bidi

record socket =
  sock_state :: conn_state
  sock_channel :: ser_bidi

datatype entry = Unused | Entry_Closed Id | Occupied socket

record conn_table =
  conns :: "entry list"
  next_id :: Id
  table_len :: nat
  dead_index :: "Id option"

record OutboundConnect =
  oc_identity :: Identity
  oc_hello :: "nat \<times> type_id"
  oc_channel :: ser_bidi
  oc_rsp :: nat

subsection \<open>Entries\<close>

definition ConnTable_new :: "nat \<Rightarrow> conn_table" where
  "ConnTable_new CAPACITY = \<lparr>conns = replicate CAPACITY Unused, next_id = 1, table_len = 0, dead_index = None\<rparr>"

definition CAPACITY :: "conn_table \<Rightarrow> nat" where
  "CAPACITY ct = length (conns ct)"

definition Entries_get :: "conn_table \<Rightarrow> Id \<Rightarrow> entry option" where
  "Entries_get ct i =
     (if Id_to_index i < length (conns ct) then Some (conns ct ! Id_to_index i) else None)"

fun Entry_socket :: "entry \<Rightarrow> socket option" where
  "Entry_socket (Occupied sock) = Some sock"
| "Entry_socket _ = None"

definition Entries_set :: "conn_table \<Rightarrow> Id \<Rightarrow> entry \<Rightarrow> conn_table" where
  "Entries_set ct i e = ct\<lparr>conns := (conns ct)[Id_to_index i := e]\<rparr>"

definition ConnTable_remove :: "conn_table \<Rightarrow> Id \<Rightarrow> (conn_table \<times> socket option) outcome" where
  "ConnTable_remove ct local_id =
     (case Entries_get ct local_id of
        Some (Occupied sock) \<Rightarrow>
          (let ct1 = Entries_set ct local_id (Entry_Closed (next_id ct));
               ct2 = ct1\<lparr>next_id := local_id\<rparr>
           in if table_len ct2 = 0 then Panic
              else Done (ct2\<lparr>table_len := table_len ct2 - 1\<rparr>, Some sock))
      | _ \<Rightarrow> Done (ct, None))"

definition ConnTable_reserve_id :: "conn_table \<Rightarrow> Id option" where
  "ConnTable_reserve_id ct = (if table_len ct = CAPACITY ct then None else Some (next_id ct))"

definition ConnTable_insert_at :: "conn_table \<Rightarrow> Id \<Rightarrow> socket \<Rightarrow> conn_table outcome" where
  "ConnTable_insert_at ct local_id socket =
     (case Entries_get ct local_id of
        None \<Rightarrow> Panic
      | Some old \<Rightarrow>
          (let ct1 = Entries_set ct local_id (Occupied socket)
           in outcome_map (\<lambda>next. ct1\<lparr>next_id := next, table_len := table_len ct1 + 1\<rparr>)
                (case old of
                   Unused \<Rightarrow> (case Id_checked_add (next_id ct1) 1 of Some n \<Rightarrow> Done n | None \<Rightarrow> Panic)
                 | Entry_Closed next \<Rightarrow> Done next
                 | Occupied _ \<Rightarrow> Panic)))"

definition ConnTable_insert :: "conn_table \<Rightarrow> socket \<Rightarrow> (conn_table \<times> Id option) outcome" where
  "ConnTable_insert ct socket =
     (case ConnTable_reserve_id ct of
        None \<Rightarrow> Done (ct, None)
      | Some local_id \<Rightarrow>
          outcome_map (\<lambda>ct'. (ct', Some local_id)) (ConnTable_insert_at ct local_id socket))"

subsection \<open>The memory a socket refers to\<close>

definition on_pipe ::
  "nat \<Rightarrow> ((Reset, 'ia, 'm) pipe \<Rightarrow> (Reset, 'ia, 'm) pipe outcome) \<Rightarrow> ('ia, 'm) world
    \<Rightarrow> ('ia, 'm) world outcome" where
  "on_pipe a f w = outcome_map (\<lambda>p. w\<lparr>pipe_at := (pipe_at w)(a := p)\<rparr>) (f (pipe_at w a))"

definition drop_channel ::
  "'ia index_ops \<Rightarrow> bool list list \<Rightarrow> ser_bidi \<Rightarrow> ('ia, 'm) world \<Rightarrow> ('ia, 'm) world outcome" where
  "drop_channel io scheds ch w =
     outcome_bind (on_pipe (bd_tx ch) (DeserSender_drop io scheds) w)
       (on_pipe (bd_rx ch) (SerReceiver_drop io scheds))"

definition drop_state :: "conn_state \<Rightarrow> ('ia, 'm) world \<Rightarrow> ('ia, 'm) world outcome" where
  "drop_state st w =
     (case st of
        Open _ \<Rightarrow> Done w
      | Connecting a \<Rightarrow>
          outcome_map (\<lambda>o1. w\<lparr>oneshot_at := (oneshot_at w)(a := o1)\<rparr>)
            (OneshotSender_drop False (oneshot_at w a)))"

definition drop_socket ::
  "'ia index_ops \<Rightarrow> bool list list \<Rightarrow> socket \<Rightarrow> ('ia, 'm) world \<Rightarrow> ('ia, 'm) world outcome" where
  "drop_socket io scheds sock w =
     outcome_bind (drop_state (sock_state sock) w) (drop_channel io scheds (sock_channel sock))"

text \<open>\<open>rsp.send(..)\<close>; the flag says whether it succeeded.\<close>

definition send_rsp ::
  "nat \<Rightarrow> Rejection + unit \<Rightarrow> ('ia, 'm) world \<Rightarrow> (('ia, 'm) world \<times> bool) outcome" where
  "send_rsp a r w =
     outcome_map (\<lambda>(o1, res). (w\<lparr>oneshot_at := (oneshot_at w)(a := o1)\<rparr>, \<not> isl res))
       (OneshotSender_send (oneshot_at w a) r)"

definition drop_consumer :: "nat \<times> type_id \<Rightarrow> ('ia, 'm) world \<Rightarrow> ('ia, 'm) world outcome" where
  "drop_consumer c w =
     outcome_map (\<lambda>s. w\<lparr>box_at := (box_at w)(fst c := s)\<rparr>) (Consumer_drop (snd c) (box_at w (fst c)))"

subsection \<open>Outbound\<close>

definition ConnTable_cleanup_dead ::
  "'ia index_ops \<Rightarrow> bool list list \<Rightarrow> conn_table \<Rightarrow> ('ia, 'm) world
    \<Rightarrow> (conn_table \<times> ('ia, 'm) world) outcome" where
  "ConnTable_cleanup_dead io scheds ct w =
     (case dead_index ct of
        None \<Rightarrow> Done (ct, w)
      | Some local_id \<Rightarrow>
          outcome_bind (ConnTable_remove (ct\<lparr>dead_index := None\<rparr>) local_id) (\<lambda>(ct', removed).
            case removed of
              None \<Rightarrow> Done (ct', w)
            | Some sock \<Rightarrow> outcome_map (Pair ct') (drop_socket io scheds sock w)))"

text \<open>
  One poll over the sockets from \<open>idx\<close> on. \<open>polls idx\<close> is what the wait cell of that socket's
  receiving channel answers. The result has the socket that was found dead, if any.
\<close>

fun poll_sockets ::
  "bool list \<Rightarrow> (nat \<Rightarrow> (Reset, 'ia, 'm) pipe poll list) \<Rightarrow> nat \<Rightarrow> entry list \<Rightarrow> ('ia, 'm) world
    \<Rightarrow> (('ia, 'm) world \<times> Id option \<times> OutboundFrame poll) outcome" where
  "poll_sockets sched polls idx [] w = Done (w, None, Pending)"
| "poll_sockets sched polls idx (e # es) w =
     (case Entry_socket e of
        None \<Rightarrow> poll_sockets sched polls (Suc idx) es w
      | Some sock \<Rightarrow>
          (case sock_state sock of
             Connecting _ \<Rightarrow> poll_sockets sched polls (Suc idx) es w
           | Open remote_id \<Rightarrow>
               (let ch = sock_channel sock
                in outcome_bind (SerReceiver_poll_recv sched (polls idx) (pipe_at w (bd_rx ch))) (\<lambda>(p, r).
                     let w' = w\<lparr>pipe_at := (pipe_at w)(bd_rx ch := p)\<rparr>
                     in case r of
                          Ready (Ok i) \<Rightarrow>
                            outcome_map (\<lambda>local_id.
                                (w', None,
                                 Ready (Frame_data remote_id local_id (bd_rx ch) (bd_rx_type ch) i)))
                              (Id_from_index idx)
                        | Ready (Err err) \<Rightarrow>
                            outcome_map (\<lambda>local_id.
                                (w', Some local_id,
                                 Ready (Frame_reset remote_id
                                   (case err of RecvError_Disconnected \<Rightarrow> BecauseISaidSo
                                              | RecvError_Error reason \<Rightarrow> reason))))
                              (Id_from_index idx)
                        | Pending \<Rightarrow> poll_sockets sched polls (Suc idx) es w'))))"

definition ConnTable_poll_outbound ::
  "bool list \<Rightarrow> (nat \<Rightarrow> (Reset, 'ia, 'm) pipe poll list) \<Rightarrow> conn_table \<Rightarrow> ('ia, 'm) world
    \<Rightarrow> (conn_table \<times> ('ia, 'm) world \<times> OutboundFrame poll) outcome" where
  "ConnTable_poll_outbound sched polls ct w =
     outcome_map (\<lambda>(w', dead, r).
         (case dead of Some i \<Rightarrow> ct\<lparr>dead_index := Some i\<rparr> | None \<Rightarrow> ct, w', r))
       (poll_sockets sched polls 0 (conns ct) w)"

definition ConnTable_next_outbound ::
  "'ia index_ops \<Rightarrow> bool list list \<Rightarrow> bool list \<Rightarrow> (nat \<Rightarrow> (Reset, 'ia, 'm) pipe poll list)
    \<Rightarrow> conn_table \<Rightarrow> ('ia, 'm) world \<Rightarrow> (conn_table \<times> ('ia, 'm) world \<times> OutboundFrame poll) outcome" where
  "ConnTable_next_outbound io scheds sched polls ct w =
     outcome_bind (ConnTable_cleanup_dead io scheds ct w) (\<lambda>(ct', w').
       ConnTable_poll_outbound sched polls ct' w')"

subsection \<open>Connecting\<close>

definition ConnTable_start_connecting ::
  "'ia index_ops \<Rightarrow> bool list list \<Rightarrow> OutboundConnect \<Rightarrow> conn_table \<Rightarrow> ('ia, 'm) world
    \<Rightarrow> (conn_table \<times> ('ia, 'm) world \<times> OutboundFrame option) outcome" where
  "ConnTable_start_connecting io scheds connect ct w =
     (case ConnTable_reserve_id ct of
        None \<Rightarrow>
          outcome_bind (send_rsp (oc_rsp connect) (Err (ConnTableFull (CAPACITY ct))) w) (\<lambda>(w1, _).
            outcome_bind (drop_channel io scheds (oc_channel connect) w1) (\<lambda>w2.
              outcome_map (\<lambda>w3. (ct, w3, None)) (drop_consumer (oc_hello connect) w2)))
      | Some local_id \<Rightarrow>
          outcome_map (\<lambda>ct'. (ct', w, Some (Frame_connect local_id (oc_identity connect)
              (fst (oc_hello connect)) (snd (oc_hello connect)))))
            (ConnTable_insert_at ct local_id
               \<lparr>sock_state = Connecting (oc_rsp connect), sock_channel = oc_channel connect\<rparr>))"

definition ConnTable_process_ack ::
  "conn_table \<Rightarrow> Id \<Rightarrow> Id \<Rightarrow> ('ia, 'm) world
    \<Rightarrow> (conn_table \<times> ('ia, 'm) world \<times> OutboundFrame option) outcome" where
  "ConnTable_process_ack ct local_id remote_id w =
     (case Entries_get ct local_id of
        Some (Occupied sock) \<Rightarrow>
          (case sock_state sock of
             Open _ \<Rightarrow> Done (ct, w, Some (Frame_reset remote_id YesSuchConn))
           | Connecting rsp \<Rightarrow>
               (let ct' = Entries_set ct local_id (Occupied (sock\<lparr>sock_state := Open remote_id\<rparr>))
                in outcome_map (\<lambda>(w', sent).
                       (ct', w', if sent then None else Some (Frame_reset remote_id BecauseISaidSo)))
                     (send_rsp rsp (Ok ()) w)))
      | _ \<Rightarrow> Done (ct, w, Some (Frame_reset remote_id NoSuchConn)))"

definition ConnTable_accept ::
  "'ia index_ops \<Rightarrow> bool list list \<Rightarrow> conn_table \<Rightarrow> Id \<Rightarrow> ser_bidi \<Rightarrow> ('ia, 'm) world
    \<Rightarrow> (conn_table \<times> ('ia, 'm) world \<times> OutboundFrame) outcome" where
  "ConnTable_accept io scheds ct remote_id channel w =
     (let sock = \<lparr>sock_state = Open remote_id, sock_channel = channel\<rparr>
      in outcome_bind (ConnTable_insert ct sock) (\<lambda>(ct', r).
           case r of
             Some local_id \<Rightarrow> Done (ct', w, Frame_ack local_id remote_id)
           | None \<Rightarrow>
               outcome_map (\<lambda>w'. (ct', w', Frame_reject remote_id (ConnTableFull (CAPACITY ct))))
                 (drop_socket io scheds sock w)))"

definition ConnTable_reject ::
  "'ia index_ops \<Rightarrow> bool list list \<Rightarrow> conn_table \<Rightarrow> Id \<Rightarrow> Rejection \<Rightarrow> ('ia, 'm) world
    \<Rightarrow> (conn_table \<times> ('ia, 'm) world \<times> bool) outcome" where
  "ConnTable_reject io scheds ct local_id rejection w =
     outcome_bind (ConnTable_remove ct local_id) (\<lambda>(ct', removed).
       case removed of
         None \<Rightarrow> Done (ct', w, False)
       | Some sock \<Rightarrow>
           (case sock_state sock of
              Open _ \<Rightarrow> outcome_map (\<lambda>w'. (ct', w', False)) (drop_socket io scheds sock w)
            | Connecting rsp \<Rightarrow>
                outcome_bind (send_rsp rsp (Err rejection) w) (\<lambda>(w1, sent).
                  outcome_map (\<lambda>w2. (ct', w2, sent)) (drop_channel io scheds (sock_channel sock) w1))))"

definition ConnTable_reset ::
  "'ia index_ops \<Rightarrow> bool list list \<Rightarrow> conn_table \<Rightarrow> Id \<Rightarrow> Reset \<Rightarrow> ('ia, 'm) world
    \<Rightarrow> (conn_table \<times> ('ia, 'm) world \<times> bool) outcome" where
  "ConnTable_reset io scheds ct local_id reason w =
     outcome_bind (ConnTable_remove ct local_id) (\<lambda>(ct', removed).
       case removed of
         None \<Rightarrow> Done (ct', w, False)
       | Some sock \<Rightarrow>
           (case sock_state sock of
              Connecting rsp \<Rightarrow>
                outcome_bind (drop_channel io scheds (sock_channel sock) w) (\<lambda>w1.
                  outcome_map (\<lambda>w2. (ct', w2, False)) (drop_state (Connecting rsp) w1))
            | Open _ \<Rightarrow>
                (let ch = sock_channel sock;
                     (ptx, tx_closed) = DeserSender_close_with_error (pipe_at w (bd_tx ch)) reason;
                     w1 = w\<lparr>pipe_at := (pipe_at w)(bd_tx ch := ptx)\<rparr>;
                     (prx, rx_closed) = SerReceiver_close_with_error (pipe_at w1 (bd_rx ch)) reason;
                     w2 = w1\<lparr>pipe_at := (pipe_at w1)(bd_rx ch := prx)\<rparr>
                 in outcome_map (\<lambda>w3. (ct', w3, rx_closed \<or> tx_closed)) (drop_channel io scheds ch w2))))"

subsection \<open>Inbound\<close>

text \<open>
  \<open>process_inbound\<close> on a DATA frame: the last arguments are the frame's ids as the remote peer
  sent them and its body; \<open>resumes\<close> belongs to the await of the send.
\<close>

definition process_data ::
  "'ia index_ops \<Rightarrow> ('m, postcard_error) postcard \<Rightarrow> bool list \<Rightarrow> bool list list
    \<Rightarrow> ((Reset, 'ia, 'm) pipe \<times> (unit + unit)) list \<Rightarrow> conn_table \<Rightarrow> ('ia, 'm) world
    \<Rightarrow> Id \<Rightarrow> Id \<Rightarrow> bytes \<Rightarrow> (conn_table \<times> ('ia, 'm) world \<times> OutboundFrame option) outcome" where
  "process_data io pc sched scheds resumes ct w local_id remote_id bs =
     (let i = remote_id
      in case (case Entries_get ct i of Some e \<Rightarrow> Entry_socket e | None \<Rightarrow> None) of
           None \<Rightarrow> Done (ct, w, Some (Frame_reset local_id NoSuchConn))
         | Some sock \<Rightarrow>
             (case sock_state sock of
                Connecting _ \<Rightarrow> Done (ct, w, Some (Frame_reset local_id NoSuchConn))
              | Open actual \<Rightarrow>
                  if local_id \<noteq> actual then Done (ct, w, Some (Frame_reset local_id NoSuchConn))
                  else
                    (let ch = sock_channel sock
                     in outcome_bind
                          (DeserSender_send io pc (bd_tx_type ch) sched resumes (pipe_at w (bd_tx ch)) bs)
                          (\<lambda>(p, r).
                             let w1 = w\<lparr>pipe_at := (pipe_at w)(bd_tx ch := p)\<rparr>
                             in case r of
                                  Ok _ \<Rightarrow> Done (ct, w1, None)
                                | Err err \<Rightarrow>
                                    (let reset = (case err of
                                                    SerSendError_Deserialize e \<Rightarrow> Reset_bad_frame e
                                                  | SerSendError_Disconnected \<Rightarrow> BecauseISaidSo
                                                  | SerSendError_Error e \<Rightarrow> e)
                                     in outcome_bind (ConnTable_remove ct i) (\<lambda>(ct', removed).
                                          outcome_map (\<lambda>w2. (ct', w2, Some (Frame_reset local_id reset)))
                                            (case removed of
                                               Some s \<Rightarrow> drop_socket io scheds s w1
                                             | None \<Rightarrow> Done w1)))))))"

definition ConnTable_process_inbound ::
  "'ia index_ops \<Rightarrow> ('m, postcard_error) postcard \<Rightarrow> bool list \<Rightarrow> bool list list
    \<Rightarrow> ((Reset, 'ia, 'm) pipe \<times> (unit + unit)) list
    \<Rightarrow> (Identity \<Rightarrow> bytes \<Rightarrow> ('ia, 'm) world \<Rightarrow> (('ia, 'm) world \<times> (Rejection + ser_bidi)) outcome)
    \<Rightarrow> conn_table \<Rightarrow> ('ia, 'm) world \<Rightarrow> InboundFrame
    \<Rightarrow> (conn_table \<times> ('ia, 'm) world \<times> OutboundFrame option) outcome" where
  "ConnTable_process_inbound io pc sched scheds resumes registry ct w frame =
     (case header frame of
        Data local_id remote_id \<Rightarrow>
          process_data io pc sched scheds resumes ct w local_id remote_id (body frame)
      | Ack local_id remote_id \<Rightarrow> ConnTable_process_ack ct remote_id local_id w
      | Reject remote_id reason \<Rightarrow>
          outcome_map (\<lambda>(ct', w', _). (ct', w', None)) (ConnTable_reject io scheds ct remote_id reason w)
      | Header_Reset remote_id reason \<Rightarrow>
          outcome_map (\<lambda>(ct', w', _). (ct', w', None)) (ConnTable_reset io scheds ct remote_id reason w)
      | Connect local_id identity \<Rightarrow>
          outcome_bind (registry identity (body frame) w) (\<lambda>(w1, r).
            case r of
              Ok channel \<Rightarrow>
                outcome_map (\<lambda>(ct', w2, f). (ct', w2, Some f))
                  (ConnTable_accept io scheds ct local_id channel w1)
            | Err reason \<Rightarrow> Done (ct, w1, Some (Frame_reject local_id reason))))"

end
