(* ===== verification/Slot_Table.thy ===== *)
theory Slot_Table
  imports Prelude
begin

section \<open>The contract of a table of slots\<close>

text \<open>
  What a table promises that hands out the keys of its entries itself: a new entry gets a key
  that was free, other entries stay, removal frees the key, and a table is full only when it
  holds as many entries as it has slots. What this means for whole histories of insertions and
  removals is proved here; the connection table interprets it.
\<close>

datatype ('k, 's) slot_op = Insert 's | Remove 'k

datatype ('k, 's) slot_result = Inserted "'k option" | Removed "'s option"

fun slot_run ::
  "('t \<Rightarrow> 's \<Rightarrow> ('t \<times> 'k option) outcome) \<Rightarrow> ('t \<Rightarrow> 'k \<Rightarrow> ('t \<times> 's option) outcome)
    \<Rightarrow> ('k, 's) slot_op list \<Rightarrow> 't \<Rightarrow> ('t \<times> ('k, 's) slot_result list) outcome" where
  "slot_run ins rem [] t = Done (t, [])"
| "slot_run ins rem (Insert s # ops) t =
     outcome_bind (ins t s) (\<lambda>(t1, r).
       outcome_map (\<lambda>(t2, rs). (t2, Inserted r # rs)) (slot_run ins rem ops t1))"
| "slot_run ins rem (Remove k # ops) t =
     outcome_bind (rem t k) (\<lambda>(t1, r).
       outcome_map (\<lambda>(t2, rs). (t2, Removed r # rs)) (slot_run ins rem ops t1))"

text \<open>
  The specification: a finite map of at most \<open>n\<close> entries, the results of a history of calls and
  the map after it.
\<close>

fun slot_spec ::
  "nat \<Rightarrow> ('k \<Rightarrow> bool) \<Rightarrow> ('k \<rightharpoonup> 's) \<Rightarrow> ('k, 's) slot_op list \<Rightarrow> ('k, 's) slot_result list
    \<Rightarrow> ('k \<rightharpoonup> 's) \<Rightarrow> bool" where
  "slot_spec n key m [] [] m' = (m' = m)"
| "slot_spec n key m (Insert s # ops) (Inserted None # rs) m' =
     (card (dom m) = n \<and> slot_spec n key m ops rs m')"
| "slot_spec n key m (Insert s # ops) (Inserted (Some k) # rs) m' =
     (card (dom m) < n \<and> key k \<and> m k = None \<and> slot_spec n key (m(k \<mapsto> s)) ops rs m')"
| "slot_spec n key m (Remove k # ops) (Removed r # rs) m' =
     (r = m k \<and> slot_spec n key (m(k := None)) ops rs m')"
| "slot_spec n key m _ _ m' = False"

locale slot_table =
  fixes wf :: "'t \<Rightarrow> bool" and key :: "'k \<Rightarrow> bool" and slots :: "'t \<Rightarrow> 'k \<rightharpoonup> 's" and size_of :: "'t \<Rightarrow> nat"
    and ins :: "'t \<Rightarrow> 's \<Rightarrow> ('t \<times> 'k option) outcome"
    and rem :: "'t \<Rightarrow> 'k \<Rightarrow> ('t \<times> 's option) outcome"
  assumes bounded: "wf t \<Longrightarrow> finite (dom (slots t)) \<and> card (dom (slots t)) \<le> size_of t"
    and ins_full: "wf t \<Longrightarrow> card (dom (slots t)) = size_of t \<Longrightarrow> ins t s = Done (t, None)"
    and ins_room: "wf t \<Longrightarrow> card (dom (slots t)) < size_of t \<Longrightarrow>
      \<exists>t' k. ins t s = Done (t', Some k) \<and> key k \<and> slots t k = None \<and> wf t' \<and>
        slots t' = (slots t)(k \<mapsto> s) \<and> size_of t' = size_of t"
    and rem_law: "wf t \<Longrightarrow> key k \<Longrightarrow>
      \<exists>t'. rem t k = Done (t', slots t k) \<and> wf t' \<and> slots t' = (slots t)(k := None) \<and>
        size_of t' = size_of t"
begin

lemma ins_cases:
  assumes "wf t"
  obtains (full) "card (dom (slots t)) = size_of t" "ins t s = Done (t, None)"
  | (room) t' k where "card (dom (slots t)) < size_of t" "ins t s = Done (t', Some k)" "key k"
      "slots t k = None" "wf t'" "slots t' = (slots t)(k \<mapsto> s)" "size_of t' = size_of t"
  using assms bounded ins_full ins_room by (metis nat_less_le)

lemma run_refines:
  assumes "wf t" and "\<forall>op \<in> set ops. case op of Remove k \<Rightarrow> key k | Insert s \<Rightarrow> True"
  shows "\<exists>t' rs. slot_run ins rem ops t = Done (t', rs) \<and> wf t' \<and> size_of t' = size_of t \<and>
    slot_spec (size_of t) key (slots t) ops rs (slots t')"
  using assms
proof (induction ops arbitrary: t)
  case Nil
  then show ?case by simp
next
  case (Cons op ops)
  show ?case
  proof (cases op)
    case (Insert s)
    from Cons.prems(1) show ?thesis
    proof (cases rule: ins_cases [where s = s])
      case full
      from Cons.IH [OF Cons.prems(1)] Cons.prems(2) obtain t2 rs where
        "slot_run ins rem ops t = Done (t2, rs)" "wf t2" "size_of t2 = size_of t"
        "slot_spec (size_of t) key (slots t) ops rs (slots t2)" by auto
      with full Insert show ?thesis by auto
    next
      case (room t1 k)
      from Cons.IH [OF room(5)] Cons.prems(2) obtain t2 rs where
        "slot_run ins rem ops t1 = Done (t2, rs)" "wf t2" "size_of t2 = size_of t1"
        "slot_spec (size_of t1) key (slots t1) ops rs (slots t2)" by auto
      with room Insert show ?thesis by auto
    qed
  next
    case (Remove k)
    with Cons.prems rem_law [of t k] obtain t1 where t1: "rem t k = Done (t1, slots t k)" "wf t1"
      "slots t1 = (slots t)(k := None)" "size_of t1 = size_of t" by auto
    from Cons.IH [OF t1(2)] Cons.prems(2) obtain t2 rs where
      "slot_run ins rem ops t1 = Done (t2, rs)" "wf t2" "size_of t2 = size_of t1"
      "slot_spec (size_of t1) key (slots t1) ops rs (slots t2)" by auto
    with t1 Remove show ?thesis by auto
  qed
qed

end

end
