(* ===== verification/Conn_Table_Spec.thy ===== *)
theory Conn_Table_Spec
  imports Conn_Table Slot_Table
begin

section \<open>The connection table is a table of slots\<close>

text \<open>
  The free entries form two regions: those never used, from a frontier on, and those closed,
  linked into a list that starts at \<open>next_id\<close> and ends at the frontier. The invariant says so;
  with it the table implements the contract of \<open>Slot_Table\<close>.
\<close>

subsection \<open>Identifiers and indices\<close>

lemma Id_pos: "(i :: Id) \<noteq> 0 \<Longrightarrow> 0 < unat i"
  by (simp add: unat_gt_0)

lemma Id_to_index_inj: "i \<noteq> 0 \<Longrightarrow> j \<noteq> 0 \<Longrightarrow> Id_to_index i = Id_to_index j \<longleftrightarrow> i = j"
  by (auto simp: Id_to_index_def word_unat_eq_iff [of i j] dest!: Id_pos)

lemma Id_to_index_of_unat: "unat i = Suc k \<Longrightarrow> Id_to_index i = k"
  by (simp add: Id_to_index_def)

lemma Id_of_index: "k < 65535 \<Longrightarrow> \<exists>i :: Id. i \<noteq> 0 \<and> Id_to_index i = k"
  by (rule exI [of _ "of_nat (Suc k)"])
    (auto simp: Id_to_index_def unat_of_nat word_unat_eq_iff simp del: of_nat_Suc)

lemma Id_succ:
  assumes "unat i = Suc k" and "Suc k < 65535"
  shows "Id_checked_add i 1 = Some (i + 1)" and "unat (i + 1 :: Id) = Suc (Suc k)"
  using assms by (simp_all add: Id_checked_add_def unat_add_u16)

subsection \<open>The free list\<close>

fun chain :: "entry list \<Rightarrow> Id \<Rightarrow> Id list \<Rightarrow> nat \<Rightarrow> bool" where
  "chain es n [] h = (unat n = Suc h)"
| "chain es n (i # fl) h =
     (n = i \<and> i \<noteq> 0 \<and> Id_to_index i < h \<and>
      (case es ! Id_to_index i of Entry_Closed n' \<Rightarrow> chain es n' fl h | _ \<Rightarrow> False))"

definition free_slots :: "conn_table \<Rightarrow> Id list \<Rightarrow> nat \<Rightarrow> bool" where
  "free_slots ct fl h \<longleftrightarrow>
     length (conns ct) < 65535 \<and> h \<le> length (conns ct) \<and> chain (conns ct) (next_id ct) fl h \<and>
     distinct fl \<and> (\<forall>k < length (conns ct). conns ct ! k = Unused \<longleftrightarrow> h \<le> k) \<and>
     (\<forall>k < length (conns ct). \<forall>n. conns ct ! k = Entry_Closed n \<longrightarrow> k \<in> Id_to_index ` set fl) \<and>
     table_len ct + length fl = h"

definition table_inv :: "conn_table \<Rightarrow> bool" where
  "table_inv ct \<longleftrightarrow> (\<exists>fl h. free_slots ct fl h)"

definition sockets :: "conn_table \<Rightarrow> Id \<rightharpoonup> socket" where
  "sockets ct i =
     (if i = 0 then None else case Entries_get ct i of Some e \<Rightarrow> Entry_socket e | None \<Rightarrow> None)"

lemma chain_closed:
  "chain es n fl h \<Longrightarrow> i \<in> set fl \<Longrightarrow> i \<noteq> 0 \<and> Id_to_index i < h \<and> (\<exists>n. es ! Id_to_index i = Entry_Closed n)"
  by (induction fl arbitrary: n) (auto split: entry.splits)

lemma chain_update:
  "k \<notin> Id_to_index ` set fl \<Longrightarrow> chain (es[k := e]) n fl h = chain es n fl h"
  by (induction fl arbitrary: n) (auto split: entry.splits)

lemma chain_nonzero: "chain es n fl h \<Longrightarrow> n \<noteq> 0"
  by (cases fl) auto

lemma free_slotsE:
  assumes "free_slots ct fl h"
  obtains "length (conns ct) < 65535" "h \<le> length (conns ct)" "chain (conns ct) (next_id ct) fl h"
    "distinct fl" "\<And>k. k < length (conns ct) \<Longrightarrow> conns ct ! k = Unused \<longleftrightarrow> h \<le> k"
    "\<And>k n. k < length (conns ct) \<Longrightarrow> conns ct ! k = Entry_Closed n \<Longrightarrow> k \<in> Id_to_index ` set fl"
    "table_len ct + length fl = h"
  using assms unfolding free_slots_def by blast

lemma new_inv: "n < 65535 \<Longrightarrow> table_inv (ConnTable_new n)"
  unfolding table_inv_def
  by (rule exI [of _ "[]"], rule exI [of _ 0]) (simp add: free_slots_def ConnTable_new_def)

lemma new_empty: "sockets (ConnTable_new n) = Map.empty"
  by (auto simp: fun_eq_iff sockets_def Entries_get_def ConnTable_new_def)

lemma new_capacity [simp]: "CAPACITY (ConnTable_new n) = n"
  by (simp add: CAPACITY_def ConnTable_new_def)

subsection \<open>Counting the sockets\<close>

lemma dom_sockets:
  "dom (sockets ct) =
    {i. i \<noteq> 0 \<and> Id_to_index i < length (conns ct) \<and> (\<exists>s. conns ct ! Id_to_index i = Occupied s)}"
  by (auto simp: sockets_def Entries_get_def split: if_splits option.splits elim!: Entry_socket.elims)

lemma card_sockets:
  assumes "free_slots ct fl h"
  shows "finite (dom (sockets ct)) \<and> card (dom (sockets ct)) = table_len ct"
proof -
  from assms show ?thesis
  proof (rule free_slotsE)
    assume len: "length (conns ct) < 65535" and h: "h \<le> length (conns ct)"
      and c: "chain (conns ct) (next_id ct) fl h" and d: "distinct fl"
      and unused: "\<And>k. k < length (conns ct) \<Longrightarrow> conns ct ! k = Unused \<longleftrightarrow> h \<le> k"
      and closed: "\<And>k n. k < length (conns ct) \<Longrightarrow> conns ct ! k = Entry_Closed n \<Longrightarrow>
        k \<in> Id_to_index ` set fl"
      and sum: "table_len ct + length fl = h"
    let ?F = "Id_to_index ` set fl"
    have F: "?F \<subseteq> {..<h}" using chain_closed [OF c] by auto
    have inj: "inj_on Id_to_index {i. i \<noteq> 0}" by (auto simp: inj_on_def Id_to_index_inj)
    have "set fl \<subseteq> {i. i \<noteq> 0}" using chain_closed [OF c] by auto
    then have card_F: "card ?F = length fl"
      using d by (simp add: card_image inj_on_subset [OF inj] distinct_card)
    have occ: "(\<exists>s. conns ct ! k = Occupied s) \<longleftrightarrow> k < h \<and> k \<notin> ?F" if "k < length (conns ct)" for k
    proof -
      have "\<exists>n. conns ct ! k = Entry_Closed n" if "k \<in> ?F" using that chain_closed [OF c] by auto
      with \<open>k < length (conns ct)\<close> unused [of k] closed [of k] show ?thesis
        by (cases "conns ct ! k") auto
    qed
    have img: "Id_to_index ` dom (sockets ct) = {..<h} - ?F"
    proof (intro set_eqI iffI)
      fix k assume "k \<in> {..<h} - ?F"
      moreover obtain i :: Id where "i \<noteq> 0" "Id_to_index i = k"
        using Id_of_index [of k] calculation h len by auto
      ultimately show "k \<in> Id_to_index ` dom (sockets ct)"
        using occ [of k] h by (auto simp: dom_sockets intro!: image_eqI [of _ _ i])
    qed (use occ in \<open>auto simp: dom_sockets\<close>)
    have inj': "inj_on Id_to_index (dom (sockets ct))"
      by (rule inj_on_subset [OF inj]) (auto simp: dom_sockets)
    have "card (dom (sockets ct)) = card ({..<h} - ?F)" using card_image [OF inj'] img by simp
    also have "\<dots> = h - length fl" using F card_F by (simp add: card_Diff_subset finite_subset)
    finally show ?thesis using sum by (simp add: finite_subset)
  qed
qed


subsection \<open>Insertion and removal\<close>

lemma sockets_upd:
  assumes "i \<noteq> 0" and "Id_to_index i < length (conns ct)"
  shows "sockets (Entries_set ct i e) = (sockets ct)(i := Entry_socket e)"
  using assms by (auto simp: fun_eq_iff sockets_def Entries_get_def Entries_set_def Id_to_index_inj)

lemma sockets_cong: "conns ct = conns ct' \<Longrightarrow> sockets ct = sockets ct'"
  by (auto simp: fun_eq_iff sockets_def Entries_get_def)

lemma insert_full:
  assumes "table_inv ct" and "card (dom (sockets ct)) = CAPACITY ct"
  shows "ConnTable_insert ct s = Done (ct, None)" and "ConnTable_reserve_id ct = None"
  using assms card_sockets
  by (auto simp: table_inv_def ConnTable_insert_def ConnTable_reserve_id_def)

lemma next_free:
  assumes "free_slots ct fl h" and "table_len ct < CAPACITY ct"
  shows "next_id ct \<noteq> 0" and "Id_to_index (next_id ct) < length (conns ct)"
    and "sockets ct (next_id ct) = None"
proof -
  from assms show n: "next_id ct \<noteq> 0" by (auto simp: free_slots_def dest: chain_nonzero)
  from assms show i: "Id_to_index (next_id ct) < length (conns ct)"
    by (cases fl) (auto simp: free_slots_def CAPACITY_def Id_to_index_of_unat)
  from assms i n show "sockets ct (next_id ct) = None"
    by (cases fl)
      (auto simp: free_slots_def sockets_def Entries_get_def CAPACITY_def Id_to_index_of_unat split: entry.splits)
qed

lemma insert_at_next:
  assumes inv: "free_slots ct fl h" and room: "table_len ct < CAPACITY ct"
  shows "\<exists>ct' fl' h'. ConnTable_insert_at ct (next_id ct) s = Done ct' \<and> free_slots ct' fl' h' \<and>
    conns ct' = (conns ct)[Id_to_index (next_id ct) := Occupied s] \<and> dead_index ct' = dead_index ct"
proof (cases fl)
  case Nil
  let ?k = "Id_to_index (next_id ct)"
  from inv Nil have k: "unat (next_id ct) = Suc h" "h = table_len ct" "length (conns ct) < 65535"
    by (auto simp: free_slots_def)
  then have kh: "?k = h" by (simp add: Id_to_index_of_unat)
  have hl: "h < length (conns ct)" using k room by (simp add: CAPACITY_def)
  have un: "conns ct ! h = Unused" using inv hl by (simp add: free_slots_def)
  have sh: "Suc h < 65535" using hl k(3) by simp
  let ?ct' = "ct\<lparr>conns := (conns ct)[h := Occupied s], next_id := next_id ct + 1, table_len := table_len ct + 1\<rparr>"
  have "ConnTable_insert_at ct (next_id ct) s = Done ?ct'"
    using un hl Id_succ(1) [OF k(1) sh]
    by (simp add: ConnTable_insert_at_def Entries_get_def Entries_set_def kh)
  moreover have "free_slots ?ct' [] (Suc h)"
    using inv Nil hl Id_succ(2) [OF k(1) sh] by (auto simp: free_slots_def nth_list_update)
  ultimately show ?thesis using kh by fastforce
next
  case (Cons i fl')
  let ?k = "Id_to_index (next_id ct)"
  from inv Cons obtain n where e: "next_id ct = i" "?k < h" "conns ct ! ?k = Entry_Closed n"
    "chain (conns ct) n fl' h" "i \<notin> set fl'" "distinct fl'" "i \<noteq> 0"
    by (auto simp: free_slots_def split: entry.splits)
  from inv have hl: "h \<le> length (conns ct)" by (simp add: free_slots_def)
  have notin: "?k \<notin> Id_to_index ` set fl'"
    using e(1,5,7) chain_closed [OF e(4)] by (auto simp: Id_to_index_inj)
  let ?ct' = "ct\<lparr>conns := (conns ct)[?k := Occupied s], next_id := n, table_len := table_len ct + 1\<rparr>"
  have "ConnTable_insert_at ct (next_id ct) s = Done ?ct'"
    using e hl by (simp add: ConnTable_insert_at_def Entries_get_def Entries_set_def)
  moreover have "free_slots ?ct' fl' h"
    using inv Cons e notin hl by (auto simp: free_slots_def nth_list_update chain_update)
  ultimately show ?thesis by fastforce
qed

lemma insert_at_spec:
  assumes "table_inv ct" and "card (dom (sockets ct)) < CAPACITY ct"
  shows "\<exists>ct'. ConnTable_reserve_id ct = Some (next_id ct) \<and>
    ConnTable_insert_at ct (next_id ct) s = Done ct' \<and> next_id ct \<noteq> 0 \<and> sockets ct (next_id ct) = None \<and>
    table_inv ct' \<and> sockets ct' = (sockets ct)(next_id ct \<mapsto> s) \<and> CAPACITY ct' = CAPACITY ct \<and>
    dead_index ct' = dead_index ct"
proof -
  from assms(1) obtain fl h where f: "free_slots ct fl h" by (auto simp: table_inv_def)
  have room: "table_len ct < CAPACITY ct" using card_sockets [OF f] assms(2) by simp
  from insert_at_next [OF f room, of s] obtain ct' fl' h' where
    c: "ConnTable_insert_at ct (next_id ct) s = Done ct'" "free_slots ct' fl' h'"
      "conns ct' = (conns ct)[Id_to_index (next_id ct) := Occupied s]" "dead_index ct' = dead_index ct" by blast
  have "sockets ct' = sockets (Entries_set ct (next_id ct) (Occupied s))"
    by (rule sockets_cong) (simp add: c Entries_set_def)
  then show ?thesis
    using c next_free [OF f room] room
    by (auto simp: table_inv_def sockets_upd ConnTable_reserve_id_def CAPACITY_def)
qed

lemma insert_room:
  assumes "table_inv ct" and "card (dom (sockets ct)) < CAPACITY ct"
  shows "\<exists>ct' i. ConnTable_insert ct s = Done (ct', Some i) \<and> i \<noteq> 0 \<and> sockets ct i = None \<and>
    table_inv ct' \<and> sockets ct' = (sockets ct)(i \<mapsto> s) \<and> CAPACITY ct' = CAPACITY ct"
  using insert_at_spec [OF assms, of s] by (auto simp: ConnTable_insert_def)

lemma remove_spec:
  assumes inv: "table_inv ct" and i: "i \<noteq> 0"
  shows "\<exists>ct'. ConnTable_remove ct i = Done (ct', sockets ct i) \<and> table_inv ct' \<and>
    sockets ct' = (sockets ct)(i := None) \<and> CAPACITY ct' = CAPACITY ct \<and> dead_index ct' = dead_index ct \<and>
    (sockets ct i \<noteq> None \<longrightarrow> next_id ct' = i)"
proof (cases "sockets ct i")
  case None
  then have "ConnTable_remove ct i = Done (ct, None)"
    using i by (auto simp: ConnTable_remove_def sockets_def split: option.splits entry.splits)
  with None inv show ?thesis by (auto simp: fun_upd_idem)
next
  case (Some s)
  let ?k = "Id_to_index i"
  from Some have e: "?k < length (conns ct)" "conns ct ! ?k = Occupied s"
    by (auto simp: sockets_def Entries_get_def split: if_splits elim!: Entry_socket.elims)
  from inv obtain fl h where f: "free_slots ct fl h" by (auto simp: table_inv_def)
  have kh: "?k < h" using f e by (auto simp: free_slots_def not_le [symmetric])
  have notin: "?k \<notin> Id_to_index ` set fl"
    using f e(2) by (auto simp: free_slots_def dest!: chain_closed)
  have pos: "0 < table_len ct"
    using card_sockets [OF f] Some by (metis card_gt_0_iff domI emptyE)
  let ?ct' = "ct\<lparr>conns := (conns ct)[?k := Entry_Closed (next_id ct)], next_id := i, table_len := table_len ct - 1\<rparr>"
  have r: "ConnTable_remove ct i = Done (?ct', Some s)"
    using e pos by (simp add: ConnTable_remove_def Entries_get_def Entries_set_def)
  have "free_slots ?ct' (i # fl) h"
    using f e kh notin i pos
    by (auto simp: free_slots_def nth_list_update chain_update)
  moreover have "sockets ?ct' = sockets (Entries_set ct i (Entry_Closed (next_id ct)))"
    by (rule sockets_cong) (simp add: Entries_set_def)
  ultimately show ?thesis
    using r Some i e by (auto simp: table_inv_def sockets_upd CAPACITY_def)
qed

lemma sockets_bounded:
  "table_inv ct \<Longrightarrow> finite (dom (sockets ct)) \<and> card (dom (sockets ct)) \<le> CAPACITY ct"
  using card_sockets by (fastforce simp: table_inv_def free_slots_def CAPACITY_def)

interpretation slot: slot_table table_inv "\<lambda>i. i \<noteq> 0" sockets CAPACITY ConnTable_insert ConnTable_remove
proof
  fix ct s
  assume "table_inv ct" and "card (dom (sockets ct)) < CAPACITY ct"
  from insert_room [OF this] show "\<exists>t' k. ConnTable_insert ct s = Done (t', Some k) \<and> k \<noteq> 0 \<and>
      sockets ct k = None \<and> table_inv t' \<and> sockets t' = (sockets ct)(k \<mapsto> s) \<and> CAPACITY t' = CAPACITY ct" .
next
  fix ct k
  assume "table_inv ct" and "(k :: Id) \<noteq> 0"
  from remove_spec [OF this] show "\<exists>t'. ConnTable_remove ct k = Done (t', sockets ct k) \<and> table_inv t' \<and>
      sockets t' = (sockets ct)(k := None) \<and> CAPACITY t' = CAPACITY ct" by blast
qed (simp_all add: sockets_bounded insert_full)

end
