(* ===== verification/Conn_Protocol.thy ===== *)
theory Conn_Protocol
  imports Conn_Table_Spec
begin

section \<open>The connection protocol\<close>

text \<open>
  An abstract specification of what a table does with the frames of the remote peer, as a step
  relation on the states of its connections, and the proof that \<open>process_inbound\<close> implements it.
  A response is abstracted to its header: only the frames of \<open>next_outbound\<close> and
  \<open>start_connecting\<close> carry data.
\<close>

datatype link = Linked Id | Awaiting

fun link_of :: "conn_state \<Rightarrow> link" where
  "link_of (Open remote_id) = Linked remote_id"
| "link_of (Connecting _) = Awaiting"

definition links :: "conn_table \<Rightarrow> Id \<rightharpoonup> link" where
  "links ct i = map_option (\<lambda>s. link_of (sock_state s)) (sockets ct i)"

fun Header_ids :: "Header \<Rightarrow> Id set" where
  "Header_ids (Connect l _) = {l}"
| "Header_ids (Data l r) = {l, r}"
| "Header_ids (Ack l r) = {l, r}"
| "Header_ids (Reject r _) = {r}"
| "Header_ids (Header_Reset r _) = {r}"

inductive proto_step :: "nat \<Rightarrow> (Id \<rightharpoonup> link) \<Rightarrow> Header \<Rightarrow> (Id \<rightharpoonup> link) \<Rightarrow> Header option \<Rightarrow> bool"
  for n :: nat where
  Data_stray: "m r \<noteq> Some (Linked l) \<Longrightarrow> proto_step n m (Data l r) m (Some (Header_Reset l NoSuchConn))"
| Data_delivered: "m r = Some (Linked l) \<Longrightarrow> proto_step n m (Data l r) m None"
| Data_failed: "m r = Some (Linked l) \<Longrightarrow> proto_step n m (Data l r) (m(r := None)) (Some (Header_Reset l reason))"
| Ack_opens: "m r = Some Awaiting \<Longrightarrow> proto_step n m (Ack l r) (m(r \<mapsto> Linked l)) None"
| Ack_abandoned: "m r = Some Awaiting \<Longrightarrow>
    proto_step n m (Ack l r) (m(r \<mapsto> Linked l)) (Some (Header_Reset l BecauseISaidSo))"
| Ack_repeated: "m r = Some (Linked l') \<Longrightarrow> proto_step n m (Ack l r) m (Some (Header_Reset l YesSuchConn))"
| Ack_stray: "m r = None \<Longrightarrow> proto_step n m (Ack l r) m (Some (Header_Reset l NoSuchConn))"
| Rejected: "proto_step n m (Reject r rejection) (m(r := None)) None"
| Reset: "proto_step n m (Header_Reset r reason) (m(r := None)) None"
| Accepts: "card (dom m) < n \<Longrightarrow> i \<noteq> 0 \<Longrightarrow> m i = None \<Longrightarrow>
    proto_step n m (Connect l ident) (m(i \<mapsto> Linked l)) (Some (Ack i l))"
| Full: "card (dom m) = n \<Longrightarrow> proto_step n m (Connect l ident) m (Some (Reject l (ConnTableFull n)))"
| Refused: "proto_step n m (Connect l ident) m (Some (Reject l reason))"

inductive_cases proto_ConnectE: "proto_step n m (Connect l ident) m' r"
inductive_cases proto_DataE: "proto_step n m (Data l r') m' r"
inductive_cases proto_AckE: "proto_step n m (Ack l r') m' r"

lemma links_cong: "sockets ct = sockets ct' \<Longrightarrow> links ct = links ct'"
  by (simp add: links_def fun_eq_iff)

lemma links_upd: "sockets ct' = (sockets ct)(i := s) \<Longrightarrow>
    links ct' = (links ct)(i := map_option (\<lambda>s. link_of (sock_state s)) s)"
  by (simp add: links_def fun_eq_iff)

lemma dom_links [simp]: "dom (links ct) = dom (sockets ct)"
  by (auto simp: links_def)

lemma lookup_sockets:
  "i \<noteq> 0 \<Longrightarrow> (case Entries_get ct i of None \<Rightarrow> None | Some e \<Rightarrow> Entry_socket e) = sockets ct i"
  by (simp add: sockets_def)

lemma entry_of_socket:
  assumes "i \<noteq> 0"
  shows "sockets ct i = Some s \<longleftrightarrow> Entries_get ct i = Some (Occupied s)"
  using assms by (auto simp: sockets_def split: option.splits elim!: Entry_socket.elims)

text \<open>Replacing the socket of an occupied entry leaves the free list alone.\<close>

lemma set_socket_inv:
  assumes "table_inv ct" and "i \<noteq> 0" and "sockets ct i = Some s"
  shows "table_inv (Entries_set ct i (Occupied s'))"
    and "sockets (Entries_set ct i (Occupied s')) = (sockets ct)(i \<mapsto> s')"
proof -
  let ?k = "Id_to_index i"
  from assms have e: "?k < length (conns ct)" "conns ct ! ?k = Occupied s"
    by (auto simp: entry_of_socket Entries_get_def split: if_splits)
  from assms(1) obtain fl h where f: "free_slots ct fl h" by (auto simp: table_inv_def)
  have notin: "?k \<notin> Id_to_index ` set fl"
    using f e(2) by (auto simp: free_slots_def dest!: chain_closed)
  have "free_slots (Entries_set ct i (Occupied s')) fl h"
    using f e notin by (auto simp: free_slots_def Entries_set_def nth_list_update chain_update)
  then show "table_inv (Entries_set ct i (Occupied s'))" by (auto simp: table_inv_def)
  show "sockets (Entries_set ct i (Occupied s')) = (sockets ct)(i \<mapsto> s')"
    using e assms(2) by (simp add: sockets_upd)
qed

text \<open>What each handler does to the table: the invariant, the size and an abstract step.\<close>

definition handled :: "conn_table \<Rightarrow> Header \<Rightarrow> conn_table \<Rightarrow> OutboundFrame option \<Rightarrow> bool" where
  "handled ct h ct' r \<longleftrightarrow> table_inv ct' \<and> CAPACITY ct' = CAPACITY ct \<and> dead_index ct' = dead_index ct \<and>
     proto_step (CAPACITY ct) (links ct) h (links ct') (map_option header r) \<and>
     (case r of Some f \<Rightarrow> body f = Empty | None \<Rightarrow> True)"

lemma handled_removed:
  assumes "table_inv ct" and "i \<noteq> 0" and "ConnTable_remove ct i = Done (ct', r)"
  shows "table_inv ct' \<and> CAPACITY ct' = CAPACITY ct \<and> dead_index ct' = dead_index ct \<and>
    r = sockets ct i \<and> links ct' = (links ct)(i := None)"
  using remove_spec [OF assms(1,2)] assms(3) by (auto dest!: links_upd)

lemma process_ack_handled:
  assumes "table_inv ct" and "r \<noteq> 0" and "ConnTable_process_ack ct r l w = Done (ct', w', f)"
  shows "handled ct (Ack l r) ct' f"
proof (cases "sockets ct r")
  case None
  then have "links ct r = None" by (simp add: links_def)
  with None assms show ?thesis
    by (auto simp: ConnTable_process_ack_def handled_def Frame_reset_def sockets_def
      split: option.splits entry.splits intro: proto_step.intros)
next
  case (Some s)
  then have e: "Entries_get ct r = Some (Occupied s)" using assms(2) by (simp add: entry_of_socket)
  show ?thesis
  proof (cases "sock_state s")
    case (Open l')
    then have "links ct r = Some (Linked l')" using Some by (simp add: links_def)
    with Open e assms show ?thesis
      by (auto simp: ConnTable_process_ack_def handled_def Frame_reset_def intro: proto_step.intros)
  next
    case (Connecting a)
    let ?ct = "Entries_set ct r (Occupied (s\<lparr>sock_state := Open l\<rparr>))"
    have lk: "links ct r = Some Awaiting" using Some Connecting by (simp add: links_def)
    have upd: "table_inv ?ct" "links ?ct = (links ct)(r \<mapsto> Linked l)" "CAPACITY ?ct = CAPACITY ct"
      "dead_index ?ct = dead_index ct"
      using set_socket_inv [OF assms(1,2) Some]
      by (simp_all add: links_upd Entries_set_def CAPACITY_def)
    from e Connecting assms(3) have "ct' = ?ct"
      "f = None \<or> f = Some (Frame_reset l BecauseISaidSo)"
      by (auto simp: ConnTable_process_ack_def outcome_map_eq_Done_iff split: if_split_asm)
    with lk upd show ?thesis
      by (auto simp: handled_def Frame_reset_def intro: proto_step.intros)
  qed
qed

lemma reject_handled:
  assumes "table_inv ct" and "r \<noteq> 0" and "ConnTable_reject io scheds ct r reason w = Done (ct', w', b)"
  shows "handled ct (Reject r reason) ct' None"
proof -
  from remove_spec [OF assms(1,2)] obtain ct1 where rem: "ConnTable_remove ct r = Done (ct1, sockets ct r)"
    by blast
  with assms(3) have "ct' = ct1"
    by (cases "sockets ct r"; cases "sock_state (the (sockets ct r))")
      (auto simp: ConnTable_reject_def outcome_bind_eq_Done_iff outcome_map_eq_Done_iff)
  with rem have "ConnTable_remove ct r = Done (ct', sockets ct r)" by simp
  from handled_removed [OF assms(1,2) this] show ?thesis
    by (auto simp: handled_def intro: proto_step.intros)
qed

lemma reset_table:
  assumes "table_inv ct" and "r \<noteq> 0" and "ConnTable_reset io scheds ct r reason w = Done (ct', w', b)"
  shows "ConnTable_remove ct r = Done (ct', sockets ct r)"
proof -
  from remove_spec [OF assms(1,2)] obtain ct1 where rem: "ConnTable_remove ct r = Done (ct1, sockets ct r)"
    by blast
  with assms(3) have "ct' = ct1"
    by (cases "sockets ct r"; cases "sock_state (the (sockets ct r))")
      (auto simp: ConnTable_reset_def Let_def outcome_bind_eq_Done_iff outcome_map_eq_Done_iff
        case_prod_beta)
  with rem show ?thesis by simp
qed

lemma reset_handled:
  assumes "table_inv ct" and "r \<noteq> 0" and "ConnTable_reset io scheds ct r reason w = Done (ct', w', b)"
  shows "handled ct (Header_Reset r reason) ct' None"
  using handled_removed [OF assms(1,2) reset_table [OF assms]]
  by (auto simp: handled_def intro: proto_step.intros)

lemma insert_dead: "ConnTable_insert ct s = Done (ct', r) \<Longrightarrow> dead_index ct' = dead_index ct"
  by (auto simp: ConnTable_insert_def ConnTable_insert_at_def Entries_set_def Let_def outcome_map_eq_Done_iff
    split: option.splits)

lemma accept_handled:
  assumes "table_inv ct" and "ConnTable_accept io scheds ct l ch w = Done (ct', w', f)"
  shows "handled ct (Connect l ident) ct' (Some f)"
  using assms(1)
proof (cases rule: slot.ins_cases [where s = "\<lparr>sock_state = Open l, sock_channel = ch\<rparr>"])
  case full
  with assms show ?thesis
    by (auto simp: ConnTable_accept_def handled_def Frame_reject_def outcome_map_eq_Done_iff
      intro: proto_step.intros)
next
  case (room ct1 i)
  then have "links ct i = None" "links ct1 = (links ct)(i \<mapsto> Linked l)"
    by (simp add: links_def, simp add: links_upd)
  with room assms insert_dead [OF room(2)] show ?thesis
    by (auto simp: ConnTable_accept_def handled_def Frame_ack_def intro!: proto_step.Accepts)
qed

lemma process_data_handled:
  assumes "table_inv ct" and "r \<noteq> 0"
    and "process_data io pc sched scheds resumes ct w l r bs = Done (ct', w', f)"
  shows "handled ct (Data l r) ct' f"
proof (cases "links ct r = Some (Linked l)")
  case False
  then have "process_data io pc sched scheds resumes ct w l r bs = Done (ct, w, Some (Frame_reset l NoSuchConn))"
    using assms(2)
    by (auto simp: process_data_def Let_def lookup_sockets links_def split: option.splits conn_state.splits)
  with False assms(1,3) show ?thesis
    by (auto simp: handled_def Frame_reset_def intro: proto_step.intros)
next
  case True
  then obtain s where s: "sockets ct r = Some s" "sock_state s = Open l"
    by (auto simp: links_def elim: link_of.elims)
  from assms(3) s obtain p res where snd: "DeserSender_send io pc (bd_tx_type (sock_channel s)) sched
      resumes (pipe_at w (bd_tx (sock_channel s))) bs = Done (p, res)"
    by (auto simp: process_data_def lookup_sockets [OF assms(2)] Let_def outcome_bind_eq_Done_iff)
  with assms(3) s consider "ct' = ct" "f = None"
    | reason sock where "ConnTable_remove ct r = Done (ct', sock)" "f = Some (Frame_reset l reason)"
    by (cases res)
      (auto simp: process_data_def lookup_sockets [OF assms(2)] Let_def outcome_bind_eq_Done_iff
        outcome_map_eq_Done_iff)
  then show ?thesis
  proof cases
    case 1
    with True assms(1) show ?thesis by (simp add: handled_def Data_delivered)
  next
    case 2
    with handled_removed [OF assms(1,2) 2(1)] True show ?thesis
      by (simp add: handled_def Frame_reset_def Data_failed)
  qed
qed

lemma process_inbound_handled:
  assumes "table_inv ct" and "0 \<notin> Header_ids (header frame)"
    and "ConnTable_process_inbound io pc sched scheds resumes registry ct w frame = Done (ct', w', r)"
  shows "handled ct (header frame) ct' r"
proof (cases "header frame")
  case (Connect l ident)
  with assms(3) obtain w1 res where reg: "registry ident (body frame) w = Done (w1, res)"
    by (auto simp: ConnTable_process_inbound_def outcome_bind_eq_Done_iff)
  show ?thesis
  proof (cases res)
    case (Inl reason)
    with reg Connect assms(1,3) show ?thesis
      by (auto simp: ConnTable_process_inbound_def handled_def Frame_reject_def intro: Refused)
  next
    case (Inr ch)
    with reg Connect assms(1,3) show ?thesis
      by (auto simp: ConnTable_process_inbound_def outcome_map_eq_Done_iff intro: accept_handled)
  qed
next
  case (Data l r)
  with assms show ?thesis
    by (auto simp: ConnTable_process_inbound_def intro: process_data_handled)
next
  case (Ack l r)
  with assms show ?thesis
    by (auto simp: ConnTable_process_inbound_def intro: process_ack_handled)
next
  case (Reject r reason)
  with assms show ?thesis
    by (auto simp: ConnTable_process_inbound_def outcome_map_eq_Done_iff intro: reject_handled)
next
  case (Header_Reset r reason)
  with assms show ?thesis
    by (auto simp: ConnTable_process_inbound_def outcome_map_eq_Done_iff intro: reset_handled)
qed

end
