(* ===== verification/Conn_Properties.thy ===== *)
theory Conn_Properties
  imports Conn_Protocol
begin

section \<open>What the connection table does\<close>

text \<open>
  The properties of the connection table: it is a correct table of slots, its handlers implement
  the connection protocol, its outbound frames are addressed to the right peer, and a handshake
  leaves both peers with matching connections. The last part shows what goes wrong.
\<close>

declare Core_reserve.simps [simp del] Core_poll_dequeue.simps [simp del]

subsection \<open>Polling the sockets\<close>

lemma Id_from_index_Done:
  assumes "k < 65535"
  shows "\<exists>i. Id_from_index k = Done i \<and> i \<noteq> 0 \<and> Id_to_index i = k"
proof -
  have u: "unat (of_nat (k + 1) :: Id) = k + 1" using assms by (simp add: unat_of_nat del: of_nat_add of_nat_Suc)
  then have "(of_nat (k + 1) :: Id) \<noteq> 0" by (metis add_is_0 one_neq_zero unat_0)
  with u assms show ?thesis by (auto simp: Id_from_index_def Let_def Id_to_index_def simp del: of_nat_add)
qed

text \<open>The socket at index \<open>k\<close> is open to \<open>remote_id\<close> and \<open>f\<close> is what it has to say.\<close>

definition says :: "entry list \<Rightarrow> nat \<Rightarrow> Id option \<Rightarrow> OutboundFrame \<Rightarrow> bool" where
  "says es k dead f \<longleftrightarrow> (\<exists>i s remote_id. Id_from_index k = Done i \<and> k < length es \<and>
     es ! k = Occupied s \<and> sock_state s = Open remote_id \<and>
     (dead = None \<and> (\<exists>n. f = Frame_data remote_id i (bd_rx (sock_channel s)) (bd_rx_type (sock_channel s)) n)
      \<or> dead = Some i \<and> (\<exists>reason. f = Frame_reset remote_id reason)))"

lemma poll_sockets_ready:
  assumes "poll_sockets sched polls (length pre) es w = Done (w', dead, Ready f)"
  shows "\<exists>k. says (pre @ es) k dead f"
  using assms
proof (induction es arbitrary: pre w)
  case Nil
  then show ?case by simp
next
  case (Cons e es)
  let ?idx = "length pre"
  have skip: "\<exists>k. says (pre @ e # es) k dead f"
    if "poll_sockets sched polls (Suc ?idx) es w1 = Done (w', dead, Ready f)" for w1
    using Cons.IH [of "pre @ [e]" w1] that by simp
  show ?case
  proof (cases "Entry_socket e")
    case None
    with Cons.prems skip show ?thesis by simp
  next
    case (Some s)
    then have e: "e = Occupied s" by (auto elim: Entry_socket.elims)
    show ?thesis
    proof (cases "sock_state s")
      case (Connecting a)
      with Some Cons.prems skip show ?thesis by simp
    next
      case (Open remote_id)
      let ?ch = "sock_channel s"
      from Some Open Cons.prems obtain p r where
        recv: "SerReceiver_poll_recv sched (polls ?idx) (pipe_at w (bd_rx ?ch)) = Done (p, r)"
        by (auto simp: Let_def outcome_bind_eq_Done_iff)
      have here: "says (pre @ e # es) ?idx dead f"
        if "Id_from_index ?idx = Done i" and
          "dead = None \<and> f = Frame_data remote_id i (bd_rx ?ch) (bd_rx_type ?ch) n
           \<or> dead = Some i \<and> f = Frame_reset remote_id reason" for i n reason
        using that e Open by (auto simp: says_def)
      show ?thesis
      proof (cases r)
        case (Ready res)
        with recv Some Open Cons.prems here show ?thesis
          by (cases res) (auto simp: Let_def outcome_map_eq_Done_iff)
      next
        case Pending
        with recv Some Open Cons.prems skip show ?thesis by (auto simp: Let_def)
      qed
    qed
  qed
qed

definition table_ok :: "conn_table \<Rightarrow> bool" where
  "table_ok ct \<longleftrightarrow> table_inv ct \<and> dead_index ct \<noteq> Some 0"

lemma table_inv_dead [simp]: "table_inv (ct\<lparr>dead_index := d\<rparr>) = table_inv ct"
  by (simp add: table_inv_def free_slots_def)

lemma sockets_dead [simp]: "sockets (ct\<lparr>dead_index := d\<rparr>) = sockets ct"
  by (rule sockets_cong) simp

lemma CAPACITY_dead [simp]: "CAPACITY (ct\<lparr>dead_index := d\<rparr>) = CAPACITY ct"
  by (simp add: CAPACITY_def)

lemma cleanup_dead_spec:
  assumes "table_ok ct" and "ConnTable_cleanup_dead io scheds ct w = Done (ct', w')"
  shows "table_inv ct' \<and> dead_index ct' = None \<and> CAPACITY ct' = CAPACITY ct \<and>
    links ct' = (case dead_index ct of Some i \<Rightarrow> (links ct)(i := None) | None \<Rightarrow> links ct)"
proof (cases "dead_index ct")
  case None
  with assms show ?thesis by (simp add: ConnTable_cleanup_dead_def table_ok_def)
next
  case (Some i)
  with assms(1) have "table_inv (ct\<lparr>dead_index := None\<rparr>)" "i \<noteq> 0" by (auto simp: table_ok_def)
  from remove_spec [OF this] obtain ct1 where
    "ConnTable_remove (ct\<lparr>dead_index := None\<rparr>) i = Done (ct1, sockets ct i)" "table_inv ct1"
    "sockets ct1 = (sockets ct)(i := None)" "CAPACITY ct1 = CAPACITY ct" "dead_index ct1 = None" by auto
  with assms(2) Some show ?thesis
    by (cases "sockets ct i")
      (auto simp: ConnTable_cleanup_dead_def outcome_map_eq_Done_iff links_upd)
qed

lemma says_socket:
  assumes "table_inv ct" and "says (conns ct) k dead f"
  shows "\<exists>i s remote_id. i \<noteq> 0 \<and> sockets ct i = Some s \<and> sock_state s = Open remote_id \<and>
     (dead = None \<and> (\<exists>n. f = Frame_data remote_id i (bd_rx (sock_channel s)) (bd_rx_type (sock_channel s)) n)
      \<or> dead = Some i \<and> (\<exists>reason. f = Frame_reset remote_id reason))"
proof -
  from assms obtain i s remote_id where s: "Id_from_index k = Done i" "k < length (conns ct)"
    "conns ct ! k = Occupied s" "sock_state s = Open remote_id"
    "dead = None \<and> (\<exists>n. f = Frame_data remote_id i (bd_rx (sock_channel s)) (bd_rx_type (sock_channel s)) n)
      \<or> dead = Some i \<and> (\<exists>reason. f = Frame_reset remote_id reason)"
    unfolding says_def by blast
  moreover have "i \<noteq> 0" "Id_to_index i = k"
    using Id_from_index_Done [of k] assms(1) s(1,2)
    by (auto simp: table_inv_def free_slots_def)
  moreover have "sockets ct i = Some s" using calculation by (simp add: entry_of_socket Entries_get_def)
  ultimately show ?thesis by blast
qed

lemma poll_outbound_spec:
  assumes "table_inv ct" and "dead_index ct = None"
    and "ConnTable_poll_outbound sched polls ct w = Done (ct', w', Ready f)"
  shows "table_ok ct' \<and> CAPACITY ct' = CAPACITY ct \<and> sockets ct' = sockets ct \<and>
    (\<exists>i s remote_id. sockets ct i = Some s \<and> sock_state s = Open remote_id \<and>
      (dead_index ct' = None \<and>
         (\<exists>n. f = Frame_data remote_id i (bd_rx (sock_channel s)) (bd_rx_type (sock_channel s)) n)
       \<or> dead_index ct' = Some i \<and> (\<exists>reason. f = Frame_reset remote_id reason)))"
proof -
  from assms(3) obtain dead where p: "poll_sockets sched polls (length ([] :: entry list)) (conns ct) w = Done (w', dead, Ready f)"
    and ct': "ct' = (case dead of Some i \<Rightarrow> ct\<lparr>dead_index := Some i\<rparr> | None \<Rightarrow> ct)"
    by (auto simp: ConnTable_poll_outbound_def outcome_map_eq_Done_iff)
  from poll_sockets_ready [OF p] obtain k where "says (conns ct) k dead f" by auto
  note said = says_socket [OF assms(1) this]
  then have "dead \<noteq> Some 0" by auto
  with ct' assms(1,2) have ok: "dead_index ct' = dead" "table_ok ct'" "CAPACITY ct' = CAPACITY ct"
    "sockets ct' = sockets ct" by (auto simp: table_ok_def split: option.splits)
  with said show ?thesis by blast
qed

lemma poll_sockets_pending:
  "poll_sockets sched polls idx es w = Done (w', dead, Pending) \<Longrightarrow> dead = None"
proof (induction es arbitrary: idx w)
  case (Cons e es)
  show ?case
  proof (cases "Entry_socket e")
    case (Some s)
    show ?thesis
    proof (cases "sock_state s")
      case (Open remote_id)
      with Some Cons.prems obtain p r where
        "SerReceiver_poll_recv sched (polls idx) (pipe_at w (bd_rx (sock_channel s))) = Done (p, r)"
        by (auto simp: Let_def outcome_bind_eq_Done_iff)
      with Some Open Cons show ?thesis
        by (cases r; cases "case r of Ready x \<Rightarrow> x") (auto simp: Let_def outcome_map_eq_Done_iff)
    qed (use Some Cons in auto)
  qed (use Cons in auto)
qed simp

lemma poll_outbound_pending:
  "ConnTable_poll_outbound sched polls ct w = Done (ct', w', Pending) \<Longrightarrow> ct' = ct"
  by (auto simp: ConnTable_poll_outbound_def outcome_map_eq_Done_iff dest!: poll_sockets_pending)


lemma next_outbound_spec:
  assumes "table_ok ct"
    and "ConnTable_next_outbound io scheds sched polls ct w = Done (ct', w', Ready f)"
  shows "table_ok ct' \<and> CAPACITY ct' = CAPACITY ct \<and>
    links ct' = (case dead_index ct of Some i \<Rightarrow> (links ct)(i := None) | None \<Rightarrow> links ct) \<and>
    (\<exists>i s remote_id. sockets ct' i = Some s \<and> sock_state s = Open remote_id \<and>
      (dead_index ct' = None \<and>
         (\<exists>n. f = Frame_data remote_id i (bd_rx (sock_channel s)) (bd_rx_type (sock_channel s)) n)
       \<or> dead_index ct' = Some i \<and> (\<exists>reason. f = Frame_reset remote_id reason)))"
proof -
  from assms(2) obtain ct1 w1 where c: "ConnTable_cleanup_dead io scheds ct w = Done (ct1, w1)"
    "ConnTable_poll_outbound sched polls ct1 w1 = Done (ct', w', Ready f)"
    by (auto simp: ConnTable_next_outbound_def outcome_bind_eq_Done_iff)
  from cleanup_dead_spec [OF assms(1) c(1)] have d: "table_inv ct1" "dead_index ct1 = None"
    "CAPACITY ct1 = CAPACITY ct"
    "links ct1 = (case dead_index ct of Some i \<Rightarrow> (links ct)(i := None) | None \<Rightarrow> links ct)" by auto
  from poll_outbound_spec [OF d(1,2) c(2)] have p: "sockets ct' = sockets ct1" "table_ok ct'"
    "CAPACITY ct' = CAPACITY ct1"
    "\<exists>i s remote_id. sockets ct1 i = Some s \<and> sock_state s = Open remote_id \<and>
      (dead_index ct' = None \<and>
         (\<exists>n. f = Frame_data remote_id i (bd_rx (sock_channel s)) (bd_rx_type (sock_channel s)) n)
       \<or> dead_index ct' = Some i \<and> (\<exists>reason. f = Frame_reset remote_id reason))" by blast+
  with d links_cong [OF p(1)] show ?thesis unfolding p(1) by simp
qed

text \<open>What goes out is addressed to the peer of an open socket, and so is the next removal.\<close>

definition outbound_ok :: "conn_table \<Rightarrow> OutboundFrame \<Rightarrow> bool" where
  "outbound_ok ct f \<longleftrightarrow>
     (case header f of
        Data l r \<Rightarrow> links ct l = Some (Linked r) \<and> dead_index ct = None \<and>
          (\<exists>n. body f = Data_Ref (bd_rx (sock_channel (the (sockets ct l))))
                          (bd_rx_type (sock_channel (the (sockets ct l)))) n)
      | Header_Reset r reason \<Rightarrow>
          body f = Empty \<and> (\<exists>l. dead_index ct = Some l \<and> links ct l = Some (Linked r))
      | _ \<Rightarrow> False)"

subsection \<open>Sample tables\<close>

text \<open>
  A table that serves one connection, to the peer's number 9, over channels 1 and 2, and one with
  a pending connect whose answer is expected at address 3.
\<close>

definition sample_chan :: ser_bidi where
  "sample_chan = \<lparr>bd_tx = 1, bd_tx_type = 7, bd_rx = 2, bd_rx_type = 7, bd_flags = SerBiDi_from_pair\<rparr>"

lemma sample_chan_simps [simp]: "bd_tx sample_chan = 1" "bd_rx sample_chan = 2"
  "bd_tx_type sample_chan = 7" "bd_rx_type sample_chan = 7"
  by (simp_all add: sample_chan_def)

definition sample_socket :: socket where
  "sample_socket = \<lparr>sock_state = Open 9, sock_channel = sample_chan\<rparr>"

definition sample_table :: conn_table where
  "sample_table = \<lparr>conns = [Occupied sample_socket, Unused], next_id = 2, table_len = 1, dead_index = None\<rparr>"

lemma insert_first:
  "ConnTable_insert (ConnTable_new 2) s =
    Done (\<lparr>conns = [Occupied s, Unused], next_id = 2, table_len = 1, dead_index = None\<rparr>, Some 1)"
  by (simp add: ConnTable_insert_def ConnTable_reserve_id_def ConnTable_new_def CAPACITY_def
    ConnTable_insert_at_def Entries_get_def Entries_set_def Id_to_index_def Id_checked_add_def numeral_2_eq_2)

lemma first_inv: "table_inv \<lparr>conns = [Occupied s, Unused], next_id = 2, table_len = 1, dead_index = None\<rparr>"
  using insert_room [of "ConnTable_new 2" s] by (simp add: new_inv new_empty insert_first)

lemma sample_table_inv: "table_inv sample_table"
  using first_inv by (simp add: sample_table_def)

lemma sample_table_ok: "table_ok sample_table" "table_ok (sample_table\<lparr>dead_index := Some 1\<rparr>)"
  using sample_table_inv by (simp_all add: table_ok_def) (simp add: sample_table_def)

text \<open>A channel whose last sender is gone, in a memory where each handle of a channel has another beside it.\<close>

definition closed_pipe :: "(Reset, usize, nat) pipe" where
  "closed_pipe = wire_pipe\<lparr>dequeue_pos := 1, state := 0, storage := Arc 5, cons_wait := [Wake_Close]\<rparr>"

definition closed_world :: "(usize, nat) world" where
  "closed_world = \<lparr>pipe_at = (\<lambda>_. closed_pipe), oneshot_at = (\<lambda>_. OneshotReceiver_new 3),
     box_at = (\<lambda>_. SerBox_new 5 Boxed)\<rparr>"

lemma closed_pipe_drop_tx: "Core_drop_tx (wire_pipe\<lparr>storage := Arc 5\<rparr>) = closed_pipe"
  by (simp add: Core_drop_tx_def Core_close_tx_def wire_pipe_def closed_pipe_def TX_ONE_def TX_SHIFT_def CLOSED_def)

lemma closed_pipe_poll:
  "Core_poll_dequeue [True] [] closed_pipe = Done (closed_pipe, Ready (Err RecvError_Disconnected))"
  by code_simp

subsection \<open>The table of slots\<close>



subsection \<open>The handlers\<close>



text \<open>
  A DATA frame for a connection that does not exist, is still being established, or belongs
  to another peer number is answered with a RESET to its sender; the table and the memory do not
  change.
\<close>

theorem stray_data_harmless:
  assumes "r \<noteq> 0" and "links ct r \<noteq> Some (Linked l)" and "header frame = Data l r"
  shows "ConnTable_process_inbound io pc sched scheds resumes registry ct w frame =
    Done (ct, w, Some (Frame_reset l NoSuchConn))"
  using assms
  by (auto simp: ConnTable_process_inbound_def process_data_def Let_def lookup_sockets links_def
    split: option.splits conn_state.splits)

theorem stray_data_harmless_witness:
  "ConnTable_process_inbound bitmap_ops wire_codec [] [] [] (\<lambda>_ _ w. Done (w, Err NotFound))
      sample_table sample_world \<lparr>header = Data 8 1, body = [5]\<rparr> =
    Done (sample_table, sample_world, Some (Frame_reset 8 NoSuchConn))"
  by (rule stray_data_harmless)
    (simp_all add: links_def sockets_def Entries_get_def Id_to_index_def sample_table_def sample_socket_def)

text \<open>
  \<open>next_outbound\<close> first forgets the socket that died last time; a DATA frame it returns comes
  from the receiving channel of an open socket and is addressed to that socket's peer; a RESET
  goes to the peer of the socket that is marked as dead. The table stays well formed.
\<close>

theorem outbound_addressed:
  assumes "table_ok ct"
    and "ConnTable_next_outbound io scheds sched polls ct w = Done (ct', w', Ready f)"
  shows "table_ok ct' \<and> outbound_ok ct' f \<and>
    links ct' = (case dead_index ct of Some i \<Rightarrow> (links ct)(i := None) | None \<Rightarrow> links ct)"
proof -
  from next_outbound_spec [OF assms] obtain i s remote_id where n: "table_ok ct'"
    "links ct' = (case dead_index ct of Some i \<Rightarrow> (links ct)(i := None) | None \<Rightarrow> links ct)"
    "sockets ct' i = Some s" "sock_state s = Open remote_id"
    "dead_index ct' = None \<and>
       (\<exists>n. f = Frame_data remote_id i (bd_rx (sock_channel s)) (bd_rx_type (sock_channel s)) n)
     \<or> dead_index ct' = Some i \<and> (\<exists>reason. f = Frame_reset remote_id reason)" by blast
  from n(3,4) have "links ct' i = Some (Linked remote_id)" by (simp add: links_def)
  with n(3,5) have "outbound_ok ct' f" by (auto simp: outbound_ok_def Frame_data_def Frame_reset_def)
  with n show ?thesis by simp
qed

theorem outbound_addressed_witness:
  "\<exists>ct' w'. ConnTable_next_outbound bitmap_ops [] [True] (\<lambda>_. []) sample_table closed_world =
      Done (ct', w', Ready (Frame_reset 9 BecauseISaidSo)) \<and>
    outbound_ok ct' (Frame_reset 9 BecauseISaidSo)"
proof -
  have poll: "poll_sockets [True] (\<lambda>_. []) 0 [Occupied sample_socket, Unused] closed_world =
      Done (closed_world, Some 1, Ready (Frame_reset 9 BecauseISaidSo))"
    by (simp add: sample_socket_def sample_chan_def closed_world_def SerReceiver_poll_recv_def
      closed_pipe_poll Id_from_index_def fun_upd_idem Let_def)
  have run: "ConnTable_next_outbound bitmap_ops [] [True] (\<lambda>_. []) sample_table closed_world =
      Done (sample_table\<lparr>dead_index := Some 1\<rparr>, closed_world, Ready (Frame_reset 9 BecauseISaidSo))"
    using poll
    by (simp add: ConnTable_next_outbound_def ConnTable_cleanup_dead_def ConnTable_poll_outbound_def
      sample_table_def)
  from outbound_addressed [OF sample_table_ok(1) run] run show ?thesis by blast
qed

subsection \<open>The handshake\<close>

lemma start_connecting_room:
  assumes "table_inv ct" and "card (dom (sockets ct)) < CAPACITY ct"
  shows "\<exists>ct' i. ConnTable_start_connecting io scheds c ct w =
      Done (ct', w, Some (Frame_connect i (oc_identity c) (fst (oc_hello c)) (snd (oc_hello c)))) \<and>
    i \<noteq> 0 \<and> sockets ct i = None \<and> table_inv ct' \<and> CAPACITY ct' = CAPACITY ct \<and>
    dead_index ct' = dead_index ct \<and>
    sockets ct' = (sockets ct)(i \<mapsto> \<lparr>sock_state = Connecting (oc_rsp c), sock_channel = oc_channel c\<rparr>)"
  using insert_at_spec [OF assms, of "\<lparr>sock_state = Connecting (oc_rsp c), sock_channel = oc_channel c\<rparr>"]
  by (auto simp: ConnTable_start_connecting_def)

lemma accept_room:
  assumes "table_inv ct" and "card (dom (sockets ct)) < CAPACITY ct"
  shows "\<exists>ct'. ConnTable_accept io scheds ct l ch w = Done (ct', w, Frame_ack (next_id ct) l) \<and>
    next_id ct \<noteq> 0 \<and> sockets ct (next_id ct) = None \<and> table_inv ct' \<and> CAPACITY ct' = CAPACITY ct \<and>
    dead_index ct' = dead_index ct \<and>
    sockets ct' = (sockets ct)(next_id ct \<mapsto> \<lparr>sock_state = Open l, sock_channel = ch\<rparr>)"
  using insert_at_spec [OF assms, of "\<lparr>sock_state = Open l, sock_channel = ch\<rparr>"]
  by (auto simp: ConnTable_accept_def ConnTable_insert_def)

lemma ack_opens:
  assumes "table_inv ct" and "i \<noteq> 0" and "sockets ct i = Some s" and "sock_state s = Connecting a"
    and "OneshotSender_send (oneshot_at w a) (Ok ()) = Done (o1, Ok ())"
  shows "\<exists>ct'. ConnTable_process_ack ct i j w = Done (ct', w\<lparr>oneshot_at := (oneshot_at w)(a := o1)\<rparr>, None) \<and>
    table_inv ct' \<and> sockets ct' = (sockets ct)(i \<mapsto> s\<lparr>sock_state := Open j\<rparr>)"
proof -
  have "Entries_get ct i = Some (Occupied s)" using assms(2,3) by (simp add: entry_of_socket)
  then show ?thesis
    using set_socket_inv [OF assms(1-3), of "s\<lparr>sock_state := Open j\<rparr>"] assms(4,5)
    by (simp add: ConnTable_process_ack_def send_rsp_def)
qed

text \<open>
  C21: A connect between two tables with a free slot each succeeds: the initiator sends CONNECT
  with a free number of its own, the other side, if its registry accepts, answers with an ACK
  that carries a free number of its own, and when the initiator has processed the ACK, each side
  has exactly one more connection, open to the number of the other, and the initiator has been
  told.
\<close>

theorem handshake_opens:
  assumes "table_ok a" and "card (dom (sockets a)) < CAPACITY a"
    and "table_ok b" and "card (dom (sockets b)) < CAPACITY b"
    and "registry (oc_identity c) hello wb = Done (wb', Ok ch)"
    and "OneshotSender_send (oneshot_at wa' (oc_rsp c)) (Ok ()) = Done (o1, Ok ())"
  shows "\<exists>a1 a2 b1 i j.
    ConnTable_start_connecting io scheds c a wa =
      Done (a1, wa, Some (Frame_connect i (oc_identity c) (fst (oc_hello c)) (snd (oc_hello c)))) \<and>
    ConnTable_process_inbound io pc sched scheds resumes registry b wb
      \<lparr>header = Connect i (oc_identity c), body = hello\<rparr> = Done (b1, wb', Some (Frame_ack j i)) \<and>
    ConnTable_process_inbound io pc' sched scheds resumes registry' a1 wa' \<lparr>header = Ack j i, body = []\<rparr> =
      Done (a2, wa'\<lparr>oneshot_at := (oneshot_at wa')(oc_rsp c := o1)\<rparr>, None) \<and>
    links a i = None \<and> links a2 = (links a)(i \<mapsto> Linked j) \<and>
    links b j = None \<and> links b1 = (links b)(j \<mapsto> Linked i) \<and> i \<noteq> 0 \<and> j \<noteq> 0"
proof -
  from assms(1,3) have inv: "table_inv a" "table_inv b" by (simp_all add: table_ok_def)
  from start_connecting_room [OF inv(1) assms(2)] obtain a1 i where
    a1: "ConnTable_start_connecting io scheds c a wa =
      Done (a1, wa, Some (Frame_connect i (oc_identity c) (fst (oc_hello c)) (snd (oc_hello c))))"
      "i \<noteq> 0" "sockets a i = None" "table_inv a1"
      "sockets a1 = (sockets a)(i \<mapsto> \<lparr>sock_state = Connecting (oc_rsp c), sock_channel = oc_channel c\<rparr>)"
    by blast
  let ?j = "next_id b"
  from accept_room [OF inv(2) assms(4)] obtain b1 where
    b1: "ConnTable_accept io scheds b i ch wb' = Done (b1, wb', Frame_ack ?j i)" "?j \<noteq> 0"
      "sockets b ?j = None" "sockets b1 = (sockets b)(?j \<mapsto> \<lparr>sock_state = Open i, sock_channel = ch\<rparr>)"
    by blast
  from ack_opens [OF a1(4,2) _ _ assms(6), of "\<lparr>sock_state = Connecting (oc_rsp c), sock_channel = oc_channel c\<rparr>" ?j]
    a1(5) obtain a2 where
    a2: "ConnTable_process_ack a1 i ?j wa' = Done (a2, wa'\<lparr>oneshot_at := (oneshot_at wa')(oc_rsp c := o1)\<rparr>, None)"
      "sockets a2 = (sockets a)(i \<mapsto> \<lparr>sock_state = Open ?j, sock_channel = oc_channel c\<rparr>)"
    by auto
  have "links a i = None" "links b ?j = None" using a1(3) b1(3) by (simp_all add: links_def)
  moreover have "links a2 = (links a)(i \<mapsto> Linked ?j)" "links b1 = (links b)(?j \<mapsto> Linked i)"
    using links_upd [OF a2(2)] links_upd [OF b1(4)] by simp_all
  ultimately show ?thesis
    using a1(1,2) b1(1,2) a2(1) assms(5)
    by (intro exI [of _ a1] exI [of _ a2] exI [of _ b1] exI [of _ i] exI [of _ ?j])
      (simp add: ConnTable_process_inbound_def)
qed

text \<open>A connect request whose answer is expected at address 3, and a one-shot channel to wait for it.\<close>

definition sample_connect :: OutboundConnect where
  "sample_connect = \<lparr>oc_identity = Identity_from_name 1 ''echo'', oc_hello = (4, 5), oc_channel = sample_chan,
     oc_rsp = 3\<rparr>"

definition waiting_oneshot :: "(Rejection + unit) oneshot" where
  "waiting_oneshot = \<lparr>os_state = HAS_RX OR HAS_TX OR RX_WAITING, os_wait = [], os_cell = None,
     os_refs = Arc 2, os_type = 3, os_dropped = []\<rparr>"

definition waiting_world :: "(usize, nat) world" where
  "waiting_world = \<lparr>pipe_at = (\<lambda>_. closed_pipe), oneshot_at = (\<lambda>_. waiting_oneshot),
     box_at = (\<lambda>_. SerBox_new 5 Boxed)\<rparr>"

lemma waiting_send: "OneshotSender_send waiting_oneshot (Ok ()) =
    Done (waiting_oneshot\<lparr>os_state := HAS_RX OR HAS_TX OR RX_WAITING OR SENT, os_cell := Some (Ok ()),
      os_wait := [Wake], os_refs := Arc 1\<rparr>, Ok ())"
  by code_simp

theorem handshake_opens_witness:
  "\<exists>a2 b1 i j. links a2 = Map.empty(i \<mapsto> Linked j) \<and> links b1 = (links sample_table)(j \<mapsto> Linked i) \<and>
     (\<exists>a1. ConnTable_start_connecting bitmap_ops [] sample_connect (ConnTable_new 2) waiting_world =
        Done (a1, waiting_world, Some (Frame_connect i (Identity_from_name 1 ''echo'') 4 5)) \<and>
      ConnTable_process_inbound bitmap_ops wire_codec [] [] [] (\<lambda>_ _ w. Done (w, Ok sample_chan))
        sample_table closed_world \<lparr>header = Connect i (Identity_from_name 1 ''echo''), body = []\<rparr> =
        Done (b1, closed_world, Some (Frame_ack j i)))"
proof -
  have new: "table_ok (ConnTable_new 2)" by (simp add: table_ok_def new_inv) (simp add: ConnTable_new_def)
  have "links (ConnTable_new 2) = Map.empty" by (simp add: links_def new_empty fun_eq_iff)
  moreover have "dom (sockets sample_table) \<subseteq> {1}"
    by (auto simp: dom_sockets sample_table_def Id_to_index_def nth_Cons' word_unat_eq_iff split: if_splits)
  then have "card (dom (sockets sample_table)) < CAPACITY sample_table"
    using card_mono [of "{1 :: Id}" "dom (sockets sample_table)"]
    by (simp add: CAPACITY_def sample_table_def)
  moreover have "OneshotSender_send (oneshot_at waiting_world (oc_rsp sample_connect)) (Ok ()) =
      Done (waiting_oneshot\<lparr>os_state := HAS_RX OR HAS_TX OR RX_WAITING OR SENT, os_cell := Some (Ok ()),
        os_wait := [Wake], os_refs := Arc 1\<rparr>, Ok ())"
    using waiting_send by (simp add: waiting_world_def)
  ultimately show ?thesis
    using handshake_opens [OF new _ sample_table_ok(1), of "\<lambda>_ _ w. Done (w, Ok sample_chan)" sample_connect "[]"
        closed_world closed_world sample_chan waiting_world _ bitmap_ops "[]" waiting_world wire_codec "[]" "[]"]
    by (simp add: new_empty sample_connect_def) blast
qed

subsection \<open>What goes wrong\<close>

lemma next_outbound_links:
  assumes "table_ok ct" and "ConnTable_next_outbound io scheds sched polls ct w = Done (ct', w', r)"
  shows "links ct' = (case dead_index ct of Some i \<Rightarrow> (links ct)(i := None) | None \<Rightarrow> links ct)"
proof -
  from assms(2) obtain ct1 w1 where c: "ConnTable_cleanup_dead io scheds ct w = Done (ct1, w1)"
    "ConnTable_poll_outbound sched polls ct1 w1 = Done (ct', w', r)"
    by (auto simp: ConnTable_next_outbound_def outcome_bind_eq_Done_iff)
  from cleanup_dead_spec [OF assms(1) c(1)] have d: "table_inv ct1" "dead_index ct1 = None"
    "links ct1 = (case dead_index ct of Some i \<Rightarrow> (links ct)(i := None) | None \<Rightarrow> links ct)" by auto
  have "links ct' = links ct1"
  proof (cases r)
    case (Ready f)
    with poll_outbound_spec [OF d(1,2)] c(2) have "sockets ct' = sockets ct1" by blast
    then show ?thesis by (rule links_cong)
  next
    case Pending
    with c(2) show ?thesis using poll_outbound_pending by blast
  qed
  with d(3) show ?thesis by simp
qed

text \<open>
  C39: The number kept in \<open>dead_index\<close> may belong to another connection when it is used. When a
  socket was found dead and the peer's own RESET for it arrives before the next call of
  \<open>next_outbound\<close>, its slot is free again; if a CONNECT follows, the new connection is
  acknowledged under the same number, and the next call of \<open>next_outbound\<close> removes it.
\<close>

theorem dead_index_kills_new_connection:
  assumes "table_ok ct" and "dead_index ct = Some i" and "sockets ct i \<noteq> None" and "l \<noteq> 0"
    and reset: "ConnTable_process_inbound io pc sched scheds resumes registry ct w
      \<lparr>header = Header_Reset i reason, body = b1\<rparr> = Done (ct1, w1, r1)"
    and "registry ident b2 w1 = Done (w2, Ok ch)"
  shows "\<exists>ct2. ConnTable_process_inbound io pc sched scheds resumes registry ct1 w1
      \<lparr>header = Connect l ident, body = b2\<rparr> = Done (ct2, w2, Some (Frame_ack i l)) \<and>
    links ct2 i = Some (Linked l) \<and>
    (\<forall>ct3 w3 r. ConnTable_next_outbound io scheds sched polls ct2 w2 = Done (ct3, w3, r) \<longrightarrow>
       links ct3 = (links ct2)(i := None))"
proof -
  from assms(1,2) have inv: "table_inv ct" "i \<noteq> 0" by (auto simp: table_ok_def)
  from reset obtain b where "ConnTable_reset io scheds ct i reason w = Done (ct1, w1, b)"
    by (auto simp: ConnTable_process_inbound_def outcome_map_eq_Done_iff)
  from reset_table [OF inv this] remove_spec [OF inv] assms(2,3) have
    ct1: "table_inv ct1" "next_id ct1 = i" "sockets ct1 = (sockets ct)(i := None)"
      "CAPACITY ct1 = CAPACITY ct" "dead_index ct1 = Some i" by auto
  have "card (dom (sockets ct1)) < card (dom (sockets ct))"
    using sockets_bounded [OF inv(1)] assms(3) ct1(3) by (auto intro!: psubset_card_mono)
  then have room: "card (dom (sockets ct1)) < CAPACITY ct1"
    using sockets_bounded [OF inv(1)] ct1(4) by simp
  from accept_room [OF ct1(1) room] ct1(2,5) obtain ct2 where
    ct2: "ConnTable_accept io scheds ct1 l ch w2 = Done (ct2, w2, Frame_ack i l)" "table_inv ct2"
      "dead_index ct2 = Some i" "sockets ct2 = (sockets ct1)(i \<mapsto> \<lparr>sock_state = Open l, sock_channel = ch\<rparr>)"
    by metis
  have "table_ok ct2" using ct2(2,3) inv(2) by (simp add: table_ok_def)
  from next_outbound_links [OF this] ct2(3) have "\<forall>ct3 w3 r.
      ConnTable_next_outbound io scheds sched polls ct2 w2 = Done (ct3, w3, r) \<longrightarrow> links ct3 = (links ct2)(i := None)"
    by auto
  moreover have "links ct2 i = Some (Linked l)" using ct2(4) by (simp add: links_def)
  ultimately show ?thesis using ct2(1) assms(6) by (simp add: ConnTable_process_inbound_def)
qed

definition reset_world :: "(usize, nat) world" where
  "reset_world = \<lparr>pipe_at = (\<lambda>_. wire_pipe\<lparr>storage := Static\<rparr>), oneshot_at = (\<lambda>_. OneshotReceiver_new 3),
     box_at = (\<lambda>_. SerBox_new 5 Boxed)\<rparr>"

lemma storage_ops:
  "storage (Core_close_rx p) = storage p" "storage (Core_close_tx p) = storage p"
  "storage (Core_drop_tx p) = storage p" "storage (fst (Core_close_with_error p e)) = storage p"
  by (simp_all add: Core_close_rx_def Core_close_tx_def Core_drop_tx_def Core_close_with_error_def Let_def)

lemma drop_channel_static:
  assumes "\<And>a. storage (pipe_at w a) = Static"
  shows "\<exists>w'. drop_channel io scheds ch w = Done w' \<and> oneshot_at w' = oneshot_at w"
  using assms
  by (simp add: drop_channel_def on_pipe_def DeserSender_drop_def SerReceiver_drop_def ErasedPipe_drop_def
    storage_ops)

lemma sample_reset:
  "\<exists>ct1 w1 r1. ConnTable_process_inbound bitmap_ops wire_codec [] [] [] (\<lambda>_ _ w. Done (w, Ok sample_chan))
     (sample_table\<lparr>dead_index := Some 1\<rparr>) reset_world \<lparr>header = Header_Reset 1 GoAway, body = []\<rparr> = Done (ct1, w1, r1)"
proof -
  define tx where "tx = DeserSender_close_with_error (pipe_at reset_world 1) GoAway"
  define rx where "rx = SerReceiver_close_with_error (pipe_at reset_world 2) GoAway"
  let ?w = "reset_world\<lparr>pipe_at := (pipe_at reset_world)(1 := fst tx, 2 := fst rx)\<rparr>"
  have "storage (pipe_at ?w a) = Static" for a
    by (simp add: tx_def rx_def DeserSender_close_with_error_def SerReceiver_close_with_error_def storage_ops
      reset_world_def)
  from drop_channel_static [of ?w, OF this, of bitmap_ops "[]" sample_chan] show ?thesis
    by (auto simp: ConnTable_process_inbound_def ConnTable_reset_def ConnTable_remove_def Entries_get_def
      Id_to_index_def sample_table_def sample_socket_def Entries_set_def Let_def case_prod_beta
      tx_def rx_def)
qed

theorem dead_index_kills_new_connection_witness:
  "\<exists>ct1 w1 ct2 w2. links ct2 1 = Some (Linked 6) \<and>
    ConnTable_process_inbound bitmap_ops wire_codec [] [] [] (\<lambda>_ _ w. Done (w, Ok sample_chan))
      ct1 w1 \<lparr>header = Connect 6 (Identity_from_name 1 ''echo''), body = []\<rparr> = Done (ct2, w2, Some (Frame_ack 1 6)) \<and>
    (\<forall>ct3 w3 r. ConnTable_next_outbound bitmap_ops [] [] (\<lambda>_. []) ct2 w2 = Done (ct3, w3, r) \<longrightarrow>
       links ct3 = (links ct2)(1 := None))"
proof -
  from sample_reset obtain ct1 w1 r1 where r: "ConnTable_process_inbound bitmap_ops wire_codec [] [] []
      (\<lambda>_ _ w. Done (w, Ok sample_chan)) (sample_table\<lparr>dead_index := Some 1\<rparr>) reset_world
      \<lparr>header = Header_Reset 1 GoAway, body = []\<rparr> = Done (ct1, w1, r1)" by blast
  have "sockets (sample_table\<lparr>dead_index := Some 1\<rparr>) 1 \<noteq> None"
    by (simp add: sockets_def Entries_get_def Id_to_index_def sample_table_def)
  then have "\<exists>ct2. ConnTable_process_inbound bitmap_ops wire_codec [] [] [] (\<lambda>_ _ w. Done (w, Ok sample_chan))
      ct1 w1 \<lparr>header = Connect 6 (Identity_from_name 1 ''echo''), body = []\<rparr> = Done (ct2, w1, Some (Frame_ack 1 6)) \<and>
    links ct2 1 = Some (Linked 6) \<and>
    (\<forall>ct3 w3 r. ConnTable_next_outbound bitmap_ops [] [] (\<lambda>_. []) ct2 w1 = Done (ct3, w3, r) \<longrightarrow>
       links ct3 = (links ct2)(1 := None))"
    by (intro dead_index_kills_new_connection [OF sample_table_ok(2) _ _ _ r]) simp_all
  then show ?thesis by blast
qed

text \<open>
  A RESET for a connection that is still being established closes it without an answer to
  the task that waits for one: its one-shot channel loses its sender, gets no message and is not
  woken.
\<close>

theorem reset_connecting_wakes_nobody:
  assumes "table_ok ct" and "i \<noteq> 0" and "sockets ct i = Some s" and "sock_state s = Connecting a"
    and "ConnTable_process_inbound io pc sched scheds resumes registry ct w
      \<lparr>header = Header_Reset i reason, body = bs\<rparr> = Done (ct', w', r)"
  shows "r = None \<and> links ct' i = None \<and> os_wait (oneshot_at w' a) = os_wait (oneshot_at w a) \<and>
    os_cell (oneshot_at w' a) = os_cell (oneshot_at w a) \<and>
    os_state (oneshot_at w' a) = os_state (oneshot_at w a) AND NOT HAS_TX"
proof -
  from assms(1) have inv: "table_inv ct" by (simp add: table_ok_def)
  from assms(5) obtain b where rs: "ConnTable_reset io scheds ct i reason w = Done (ct', w', b)" "r = None"
    by (auto simp: ConnTable_process_inbound_def outcome_map_eq_Done_iff)
  note rem = reset_table [OF inv assms(2) rs(1)]
  from handled_removed [OF inv assms(2) rem] have "links ct' i = None" by simp
  moreover from rem assms(3,4) rs(1) obtain w1 where
    w1: "drop_channel io scheds (sock_channel s) w = Done w1" "drop_state (Connecting a) w1 = Done w'"
    by (auto simp: ConnTable_reset_def outcome_bind_eq_Done_iff outcome_map_eq_Done_iff)
  moreover have "oneshot_at w1 = oneshot_at w"
    using w1(1) by (auto simp: drop_channel_def on_pipe_def outcome_bind_eq_Done_iff outcome_map_eq_Done_iff)
  moreover have "\<exists>o1. OneshotSender_drop False (oneshot_at w1 a) = Done o1 \<and>
      w' = w1\<lparr>oneshot_at := (oneshot_at w1)(a := o1)\<rparr>"
    using w1(2) by (auto simp: drop_state_def outcome_map_eq_Done_iff)
  ultimately show ?thesis
    using rs(2)
    by (auto simp: OneshotSender_drop_def OneshotHeader_drop_tx_def OneshotRef_drop_def
      split: storage.splits if_splits)
qed

definition pending_table :: conn_table where
  "pending_table = \<lparr>conns = [Occupied \<lparr>sock_state = Connecting 3, sock_channel = sample_chan\<rparr>, Unused],
     next_id = 2, table_len = 1, dead_index = None\<rparr>"

definition pending_world :: "(usize, nat) world" where
  "pending_world = reset_world\<lparr>oneshot_at := (\<lambda>_. waiting_oneshot)\<rparr>"

lemma pending_reset:
  "\<exists>ct1 w1 r1. ConnTable_process_inbound bitmap_ops wire_codec [] [] [] (\<lambda>_ _ w. Done (w, Err NotFound))
     pending_table pending_world \<lparr>header = Header_Reset 1 GoAway, body = []\<rparr> = Done (ct1, w1, r1)"
proof -
  have "storage (pipe_at pending_world a) = Static" for a by (simp add: pending_world_def reset_world_def)
  from drop_channel_static [of pending_world, OF this, of bitmap_ops "[]" sample_chan] show ?thesis
    by (auto simp: ConnTable_process_inbound_def ConnTable_reset_def ConnTable_remove_def Entries_get_def
      Id_to_index_def pending_table_def Entries_set_def drop_state_def OneshotSender_drop_def
      OneshotHeader_drop_tx_def OneshotRef_drop_def) (simp add: pending_world_def waiting_oneshot_def)
qed

theorem reset_connecting_wakes_nobody_witness:
  "\<exists>ct' w'. ConnTable_process_inbound bitmap_ops wire_codec [] [] [] (\<lambda>_ _ w. Done (w, Err NotFound))
      pending_table pending_world \<lparr>header = Header_Reset 1 GoAway, body = []\<rparr> = Done (ct', w', None) \<and>
    os_wait (oneshot_at w' 3) = [] \<and> os_cell (oneshot_at w' 3) = None \<and> links ct' 1 = None"
proof -
  from pending_reset obtain ct' w' r where run: "ConnTable_process_inbound bitmap_ops wire_codec [] [] []
      (\<lambda>_ _ w. Done (w, Err NotFound)) pending_table pending_world
      \<lparr>header = Header_Reset 1 GoAway, body = []\<rparr> = Done (ct', w', r)" by blast
  have "table_ok pending_table" using first_inv by (simp add: table_ok_def pending_table_def)
  moreover have "sockets pending_table 1 = Some \<lparr>sock_state = Connecting 3, sock_channel = sample_chan\<rparr>"
    by (simp add: sockets_def Entries_get_def Id_to_index_def pending_table_def)
  ultimately show ?thesis
    using reset_connecting_wakes_nobody [OF _ _ _ _ run] run
    by (auto simp: pending_world_def reset_world_def waiting_oneshot_def)
qed

subsection \<open>More slots than numbers\<close>

text \<open>The table after \<open>ss\<close> have been inserted into a new one.\<close>

definition filled :: "nat \<Rightarrow> socket list \<Rightarrow> conn_table" where
  "filled n ss = \<lparr>conns = map Occupied ss @ replicate (n - length ss) Unused,
     next_id = of_nat (Suc (length ss)), table_len = length ss, dead_index = None\<rparr>"

lemma filled_insert:
  assumes "length ss < n" and "length ss < 65534"
  shows "ConnTable_insert (filled n ss) s = Done (filled n (ss @ [s]), Some (of_nat (Suc (length ss))))"
proof -
  let ?i = "of_nat (Suc (length ss)) :: Id"
  have u: "unat ?i = Suc (length ss)" using assms by (simp add: unat_of_nat del: of_nat_Suc)
  have "Suc (n - Suc (length ss)) = n - length ss" using assms(1) by simp
  then have r: "replicate (n - length ss) Unused = Unused # replicate (n - Suc (length ss)) Unused"
    by (metis replicate_Suc)
  have "Id_checked_add ?i 1 = Some (?i + 1)" using assms u by (simp add: Id_checked_add_def del: of_nat_Suc)
  with u r assms show ?thesis
    by (simp add: ConnTable_insert_def ConnTable_reserve_id_def CAPACITY_def ConnTable_insert_at_def
      Entries_get_def Entries_set_def Id_to_index_def filled_def nth_append list_update_append add.commute
      del: of_nat_Suc) simp
qed

lemma filled_last:
  assumes "length ss = 65534" and "65535 \<le> n"
  shows "ConnTable_insert (filled n ss) s = Panic"
proof -
  obtain k where k: "n - length ss = Suc k" using assms by (cases "n - length ss") auto
  have i: "of_nat (Suc (length ss)) = (65535 :: Id)" using assms(1) by simp
  have c: "length (conns (filled n ss)) = n" using assms by (simp add: filled_def)
  have e: "Entries_get (filled n ss) 65535 = Some Unused"
    using k assms by (simp add: Entries_get_def c Id_to_index_def) (simp add: filled_def nth_append)
  have "next_id (filled n ss) = 65535" "table_len (filled n ss) \<noteq> n"
    using i assms by (simp_all add: filled_def del: of_nat_Suc)
  moreover have "Id_checked_add 65535 1 = None" by (simp add: Id_checked_add_def)
  ultimately show ?thesis
    using e c
    by (simp add: ConnTable_insert_def ConnTable_reserve_id_def CAPACITY_def ConnTable_insert_at_def
      Entries_set_def)
qed

lemma fill:
  "length (ss @ ss') \<le> 65534 \<Longrightarrow> length (ss @ ss') \<le> n \<Longrightarrow>
    \<exists>rs. slot_run ConnTable_insert ConnTable_remove (map Insert ss' @ ops) (filled n ss) =
      outcome_map (\<lambda>(ct, rs'). (ct, rs @ rs')) (slot_run ConnTable_insert ConnTable_remove ops (filled n (ss @ ss')))"
proof (induction ss' arbitrary: ss)
  case Nil
  show ?case
    by (rule exI [of _ "[]"]) (cases "slot_run ConnTable_insert ConnTable_remove ops (filled n ss)", auto)
next
  case (Cons s ss')
  from Cons.IH [of "ss @ [s]"] Cons.prems obtain rs where
    rs: "slot_run ConnTable_insert ConnTable_remove (map Insert ss' @ ops) (filled n (ss @ [s])) =
      outcome_map (\<lambda>(ct, rs'). (ct, rs @ rs'))
        (slot_run ConnTable_insert ConnTable_remove ops (filled n (ss @ s # ss')))" by auto
  have "ConnTable_insert (filled n ss) s = Done (filled n (ss @ [s]), Some (of_nat (Suc (length ss))))"
    by (rule filled_insert) (use Cons.prems in simp_all)
  with rs show ?case
    by (intro exI [of _ "Inserted (Some (of_nat (Suc (length ss)))) # rs"])
      (cases "slot_run ConnTable_insert ConnTable_remove ops (filled n (ss @ s # ss'))", auto)
qed

text \<open>
  Nothing keeps the number of slots below the number of identifiers: a table of 65535 slots
  or more panics with \<open>connection ID overflow\<close> when the socket number 65535 is inserted, although
  its slot is free.
\<close>

theorem large_table_panics:
  assumes "65535 \<le> n" and "length ss = 65535"
  shows "slot_run ConnTable_insert ConnTable_remove (map Insert ss) (ConnTable_new n) = Panic"
proof -
  obtain ss' s where ss: "ss = ss' @ [s]" using assms(2) by (cases ss rule: rev_cases) auto
  with assms(2) have len: "length ss' = 65534" by simp
  have "filled n [] = ConnTable_new n" by (simp add: filled_def ConnTable_new_def)
  moreover obtain rs where "slot_run ConnTable_insert ConnTable_remove (map Insert ss' @ [Insert s]) (filled n []) =
      outcome_map (\<lambda>(ct, rs'). (ct, rs @ rs')) (slot_run ConnTable_insert ConnTable_remove [Insert s] (filled n ss'))"
    using fill [of "[]" ss' n "[Insert s]"] len assms(1) by auto
  ultimately show ?thesis using filled_last [OF len assms(1)] ss by simp
qed

theorem large_table_panics_witness:
  "slot_run ConnTable_insert ConnTable_remove (map Insert (replicate 65535 sample_socket)) (ConnTable_new 65535) = Panic"
  by (rule large_table_panics) (simp_all only: order_refl length_replicate)

end
