(* ===== verification/Machine.thy ===== *)
theory Machine
  imports Conn_Properties
begin

section \<open>The interface state machine (\<open>lib.rs\<close>)\<close>

text \<open>
  The task that runs an interface: it polls the wire, the connection table and the queue of
  connect requests, in this order, and processes what is ready. The wire is a trait; its two
  methods, the registry and the encodings are fields of \<open>run_env\<close>, together with the schedules
  and resumptions of the calls of one poll. One poll of \<open>Machine::run\<close> is a function, whose
  result says whether the task is suspended, goes round its loop, or returns an error.
\<close>

subsection \<open>Errors\<close>

datatype 'we InterfaceErrorKind = Kind_Send 'we | Kind_Recv 'we | Kind_Proto string

record 'we InterfaceError =
  ie_kind :: "'we InterfaceErrorKind"
  ie_ctx :: "string option"

definition DEFAULT_MAX_CONNS :: nat where
  "DEFAULT_MAX_CONNS = 512"

definition InterfaceError_send :: "'we \<Rightarrow> 'we InterfaceError" where
  "InterfaceError_send e = \<lparr>ie_kind = Kind_Send e, ie_ctx = None\<rparr>"

definition InterfaceError_recv :: "'we \<Rightarrow> 'we InterfaceError" where
  "InterfaceError_recv e = \<lparr>ie_kind = Kind_Recv e, ie_ctx = None\<rparr>"

definition InterfaceError_with_context :: "'we InterfaceError \<Rightarrow> string \<Rightarrow> 'we InterfaceError" where
  "InterfaceError_with_context e ctx = e\<lparr>ie_ctx := Some ctx\<rparr>"

fun InterfaceErrorKind_display :: "('we \<Rightarrow> string) \<Rightarrow> 'we InterfaceErrorKind \<Rightarrow> string" where
  "InterfaceErrorKind_display show_e (Kind_Send e) = ''wire send error: '' @ show_e e"
| "InterfaceErrorKind_display show_e (Kind_Recv e) = ''wire receive error: '' @ show_e e"
| "InterfaceErrorKind_display show_e (Kind_Proto e) = ''protocol error: '' @ e"

definition InterfaceError_display :: "('we \<Rightarrow> string) \<Rightarrow> 'we InterfaceError \<Rightarrow> string" where
  "InterfaceError_display show_e e =
     InterfaceErrorKind_display show_e (ie_kind e) @
     (case ie_ctx e of Some ctx \<Rightarrow> '' ('' @ ctx @ '')'' | None \<Rightarrow> '''')"

subsection \<open>State\<close>

text \<open>\<open>outbound_started\<close>: whether the select that is under way has polled \<open>next_outbound\<close> before.\<close>

record ('wi, 'n, 'ia, 'm) machine =
  m_wire :: 'wi
  m_table :: conn_table
  m_conns :: "('n, 'ia, OutboundConnect) pipe"
  m_world :: "('ia, 'm) world"
  conns_remaining :: bool
  outbound_started :: bool

record ('wi, 'we, 'n, 'ia, 'm) run_env =
  wire_recv :: "'wi \<Rightarrow> 'wi \<times> ('we + bytes) poll"
  wire_send :: "'wi \<Rightarrow> OutboundFrame \<Rightarrow> ('ia, 'm) world \<Rightarrow> ('wi \<times> ('we + unit)) outcome"
  env_registry :: "Identity \<Rightarrow> bytes \<Rightarrow> ('ia, 'm) world \<Rightarrow> (('ia, 'm) world \<times> (Rejection + ser_bidi)) outcome"
  env_io :: "'ia index_ops"
  env_pc :: "('m, postcard_error) postcard"
  env_hc :: header_codec
  env_sched :: "bool list"
  env_scheds :: "bool list list"
  env_resumes :: "((Reset, 'ia, 'm) pipe \<times> (unit + unit)) list"
  env_polls :: "nat \<Rightarrow> (Reset, 'ia, 'm) pipe poll list"
  conns_type :: type_id
  conns_polls :: "('n, 'ia, OutboundConnect) pipe poll list"

definition Interface_new ::
  "'ia index_ops \<Rightarrow> bool list list \<Rightarrow> nat \<Rightarrow> 'wi \<Rightarrow> ('n, 'ia, OutboundConnect) pipe \<Rightarrow> ('ia, 'm) world
    \<Rightarrow> ('wi, 'n, 'ia, 'm) machine outcome" where
  "Interface_new io scheds MAX_CONNS wire conns_pipe w =
     outcome_bind (TrickyPipe_sender conns_pipe) (\<lambda>p1.
       outcome_bind (TrickyPipe_receiver p1) (\<lambda>(p2, r).
         case r of
           None \<Rightarrow> Panic
         | Some _ \<Rightarrow>
             outcome_map (\<lambda>p3. \<lparr>m_wire = wire, m_table = ConnTable_new MAX_CONNS, m_conns = p3,
                 m_world = w, conns_remaining = True, outbound_started = False\<rparr>)
               (TrickyPipe_drop io scheds p2)))"

subsection \<open>One poll of \<open>run\<close>\<close>

fun OutboundData_drop :: "'ia index_ops \<Rightarrow> OutboundData \<Rightarrow> ('ia, 'm) world \<Rightarrow> ('ia, 'm) world outcome" where
  "OutboundData_drop io Empty w = Done w"
| "OutboundData_drop io (Data_Ref a t idx) w = on_pipe a (\<lambda>p. SerRecvRef_drop io t p idx) w"
| "OutboundData_drop io (Rejected a t) w = drop_consumer (a, t) w"
| "OutboundData_drop io (Hello a t) w = drop_consumer (a, t) w"

text \<open>\<open>wire.send(frame).await\<close>: the wire owns the frame and drops it when it has sent it.\<close>

definition Machine_send ::
  "('wi, 'we, 'n, 'ia, 'm) run_env \<Rightarrow> OutboundFrame \<Rightarrow> ('wi, 'n, 'ia, 'm) machine
    \<Rightarrow> (('wi, 'n, 'ia, 'm) machine \<times> ('we + unit)) outcome" where
  "Machine_send env f m =
     outcome_bind (wire_send env (m_wire m) f (m_world m)) (\<lambda>(wi, r).
       outcome_map (\<lambda>w. (m\<lparr>m_wire := wi, m_world := w\<rparr>, r))
         (OutboundData_drop (env_io env) (body f) (m_world m)))"

text \<open>The end of an iteration: \<open>None\<close> goes on with the loop, \<open>Some e\<close> leaves \<open>run\<close> with \<open>Err(e)\<close>.\<close>

definition Machine_respond ::
  "('wi, 'we, 'n, 'ia, 'm) run_env \<Rightarrow> ('we \<Rightarrow> 'we InterfaceError) \<Rightarrow> OutboundFrame
    \<Rightarrow> ('wi, 'n, 'ia, 'm) machine \<Rightarrow> (('wi, 'n, 'ia, 'm) machine \<times> 'we InterfaceError option) outcome" where
  "Machine_respond env map_err f m =
     outcome_map (\<lambda>(m', r). (m', case r of Err e \<Rightarrow> Some (map_err e) | Ok _ \<Rightarrow> None)) (Machine_send env f m)"

definition Machine_inbound ::
  "('wi, 'we, 'n, 'ia, 'm) run_env \<Rightarrow> bytes \<Rightarrow> ('wi, 'n, 'ia, 'm) machine
    \<Rightarrow> (('wi, 'n, 'ia, 'm) machine \<times> 'we InterfaceError option) outcome" where
  "Machine_inbound env buf m =
     outcome_bind (Frame_from_bytes (env_hc env) buf) (\<lambda>d.
       case d of
         Err _ \<Rightarrow> Done (m, None)
       | Ok frame \<Rightarrow>
           if Header_link_id (header frame) = LinkId_INTERFACE then Panic
           else
             outcome_bind
               (ConnTable_process_inbound (env_io env) (env_pc env) (env_sched env) (env_scheds env)
                  (env_resumes env) (env_registry env) (m_table m) (m_world m) frame)
               (\<lambda>(ct, w, rsp).
                  let m' = m\<lparr>m_table := ct, m_world := w\<rparr>
                  in case rsp of
                       None \<Rightarrow> Done (m', None)
                     | Some f \<Rightarrow>
                         Machine_respond env (\<lambda>e. InterfaceError_with_context (InterfaceError_send e)
                             ''while sending inbound frame response (ACK/NAK)'') f m'))"

definition Machine_connect ::
  "('wi, 'we, 'n, 'ia, 'm) run_env \<Rightarrow> OutboundConnect \<Rightarrow> ('wi, 'n, 'ia, 'm) machine
    \<Rightarrow> (('wi, 'n, 'ia, 'm) machine \<times> 'we InterfaceError option) outcome" where
  "Machine_connect env conn m =
     outcome_bind (ConnTable_start_connecting (env_io env) (env_scheds env) conn (m_table m) (m_world m))
       (\<lambda>(ct, w, r).
          let m' = m\<lparr>m_table := ct, m_world := w\<rparr>
          in case r of
               Some f \<Rightarrow>
                 Machine_respond env (\<lambda>e. InterfaceError_with_context (InterfaceError_send e)
                     ''while sending local-initiated CONNECT'') f m'
             | None \<Rightarrow> Done (m', None))"

definition finish_iteration ::
  "(('wi, 'n, 'ia, 'm) machine \<times> 'we InterfaceError option) outcome
    \<Rightarrow> (('wi, 'n, 'ia, 'm) machine \<times> 'we InterfaceError option poll) outcome" where
  "finish_iteration x = outcome_map (\<lambda>(m, r). (m\<lparr>outbound_started := False\<rparr>, Ready r)) x"

text \<open>
  The three branches of \<open>select_biased!\<close>. The future of \<open>next_outbound\<close> cleans the table up only
  when it is polled for the first time; the futures are made anew in each iteration.
\<close>

definition Machine_poll_outbound ::
  "('wi, 'we, 'n, 'ia, 'm) run_env \<Rightarrow> ('wi, 'n, 'ia, 'm) machine
    \<Rightarrow> (('wi, 'n, 'ia, 'm) machine \<times> OutboundFrame poll) outcome" where
  "Machine_poll_outbound env m =
     outcome_map (\<lambda>(ct, w, r). (m\<lparr>m_table := ct, m_world := w, outbound_started := True\<rparr>, r))
       (if outbound_started m
        then ConnTable_poll_outbound (env_sched env) (env_polls env) (m_table m) (m_world m)
        else ConnTable_next_outbound (env_io env) (env_scheds env) (env_sched env) (env_polls env)
               (m_table m) (m_world m))"

definition Machine_poll_conns ::
  "('wi, 'we, 'n, 'ia, 'm) run_env \<Rightarrow> ('wi, 'n, 'ia, 'm) machine
    \<Rightarrow> (('wi, 'n, 'ia, 'm) machine \<times> 'we InterfaceError option poll) outcome" where
  "Machine_poll_conns env m =
     (if \<not> conns_remaining m then Done (m, Pending)
      else
        outcome_bind (Recv_poll (env_io env) (conns_type env) (env_sched env) (conns_polls env) (m_conns m))
          (\<lambda>(p, r).
             let m' = m\<lparr>m_conns := p\<rparr>
             in case r of
                  Pending \<Rightarrow> Done (m', Pending)
                | Ready (Ok conn) \<Rightarrow> finish_iteration (Machine_connect env conn m')
                | Ready (Err _) \<Rightarrow> finish_iteration (Done (m'\<lparr>conns_remaining := False\<rparr>, None))))"

definition Machine_run_poll ::
  "('wi, 'we, 'n, 'ia, 'm) run_env \<Rightarrow> ('wi, 'n, 'ia, 'm) machine
    \<Rightarrow> (('wi, 'n, 'ia, 'm) machine \<times> 'we InterfaceError option poll) outcome" where
  "Machine_run_poll env m =
     (case wire_recv env (m_wire m) of
        (wi, Ready (Err e)) \<Rightarrow> finish_iteration (Done (m\<lparr>m_wire := wi\<rparr>, Some (InterfaceError_recv e)))
      | (wi, Ready (Ok buf)) \<Rightarrow> finish_iteration (Machine_inbound env buf (m\<lparr>m_wire := wi\<rparr>))
      | (wi, Pending) \<Rightarrow>
          outcome_bind (Machine_poll_outbound env (m\<lparr>m_wire := wi\<rparr>)) (\<lambda>(m', r).
            case r of
              Ready f \<Rightarrow> finish_iteration (Machine_respond env InterfaceError_send f m')
            | Pending \<Rightarrow> Machine_poll_conns env m'))"

text \<open>\<open>run\<close> called again after an error starts with a fresh loop.\<close>

definition Machine_run :: "('wi, 'n, 'ia, 'm) machine \<Rightarrow> ('wi, 'n, 'ia, 'm) machine" where
  "Machine_run m = m\<lparr>conns_remaining := True, outbound_started := False\<rparr>"

end
