(* ===== verification/Oneshot_Spec.thy ===== *)
theory Oneshot_Spec
  imports Oneshot
begin

section \<open>One-shot channels: the protocol of their flags\<close>

text \<open>
  The abstract one-shot channel has four phases and a note whether a receiver has ever polled it
  in vain. The flags byte, the cell and the reference count implement it, for every sequence of
  calls by the owners of the receiver and of its senders.
\<close>

datatype 'm phase = Idle bool | Waiting bool | Delivered bool 'm | Shut

datatype 'm os_call = Take_Sender | Os_Send 'm | Os_Drop_Sender | Os_Recv | Os_Close

datatype 'm os_result =
    R_Sender "SenderError + unit" | R_Sent "'m Closed + unit" | R_Recv "(OneshotRecvError + 'm) poll"
  | R_Unit

text \<open>The second component: a sender exists.\<close>

fun os_guard :: "'m phase \<times> bool \<Rightarrow> 'm os_call \<Rightarrow> bool" where
  "os_guard (ph, tx) Take_Sender = (ph \<noteq> Idle True)"
| "os_guard (ph, tx) (Os_Send m) = tx"
| "os_guard (ph, tx) Os_Drop_Sender = tx"
| "os_guard (ph, tx) Os_Recv = True"
| "os_guard (ph, tx) Os_Close = (ph \<noteq> Shut)"

fun os_spec :: "'m os_call \<Rightarrow> 'm phase \<times> bool \<Rightarrow> ('m phase \<times> bool) \<times> 'm os_result" where
  "os_spec Take_Sender (Idle w, tx) = ((Waiting w, True), R_Sender (Ok ()))"
| "os_spec Take_Sender (Waiting w, tx) =
     ((Waiting w, tx), R_Sender (Err SenderError_SenderAlreadyActive))"
| "os_spec Take_Sender (Delivered w m, tx) =
     ((Idle False, tx), R_Sender (Err SenderError_SenderAlreadyActive))"
| "os_spec Take_Sender (Shut, tx) = ((Shut, tx), R_Sender (Err SenderError_Closed))"
| "os_spec (Os_Send m) (Shut, tx) = ((Shut, False), R_Sent (Err (Closed m)))"
| "os_spec (Os_Send m) (ph, tx) =
     ((Delivered (case ph of Waiting w \<Rightarrow> w | _ \<Rightarrow> False) m, False), R_Sent (Ok ()))"
| "os_spec Os_Drop_Sender (Waiting w, tx) = ((Idle w, False), R_Unit)"
| "os_spec Os_Drop_Sender (ph, tx) = ((ph, False), R_Unit)"
| "os_spec Os_Recv (Idle w, tx) = ((Idle True, tx), R_Recv (Ready (Err RecvError_NoSender)))"
| "os_spec Os_Recv (Waiting w, tx) = ((Waiting True, tx), R_Recv Pending)"
| "os_spec Os_Recv (Delivered w m, tx) = ((Idle False, tx), R_Recv (Ready (Ok m)))"
| "os_spec Os_Recv (Shut, tx) = ((Shut, tx), R_Recv (Ready (Err RecvError_Closed)))"
| "os_spec Os_Close (ph, tx) = ((Shut, tx), R_Unit)"

text \<open>The calls on the shared state; a receive is polled once and finds its wait cell not ready.\<close>

fun os_exec :: "'m os_call \<Rightarrow> 'm oneshot \<Rightarrow> ('m oneshot \<times> 'm os_result) outcome" where
  "os_exec Take_Sender o1 = outcome_map (map_prod id R_Sender) (OneshotReceiver_sender (Suc (Suc 0)) o1)"
| "os_exec (Os_Send m) o1 = outcome_map (map_prod id R_Sent) (OneshotSender_send o1 m)"
| "os_exec Os_Drop_Sender o1 = outcome_map (\<lambda>o2. (o2, R_Unit)) (OneshotSender_drop False o1)"
| "os_exec Os_Recv o1 = outcome_map (map_prod id R_Recv) (OneshotReceiver_poll_recv [Pending] o1)"
| "os_exec Os_Close o1 = outcome_map (\<lambda>o2. (o2, R_Unit)) (OneshotReceiver_close o1)"

lemma flag_values [pos_consts]:
  "HAS_RX = 1" "HAS_TX = 2" "RX_WAITING = 4" "SENT = 8" "OS_CLOSED = 16"
  by (simp_all add: HAS_RX_def HAS_TX_def RX_WAITING_def SENT_def OS_CLOSED_def)

declare flag_values [code]

fun phase_flags :: "'m phase \<Rightarrow> u8 set" where
  "phase_flags (Idle w) = {if w then 5 else 1}"
| "phase_flags (Waiting w) = {if w then 7 else 3}"
| "phase_flags (Delivered w m) = {if w then 15 else 11}"
| "phase_flags Shut = {16, 20, 24, 28}"

text \<open>
  The simulation relation. A sender exists in the phase \<open>Waiting\<close> and may survive the closing;
  each handle owns one reference of the allocation.
\<close>

definition os_sim :: "'m oneshot \<Rightarrow> 'm phase \<times> bool \<Rightarrow> bool" where
  "os_sim o1 a \<longleftrightarrow>
     os_state o1 \<in> phase_flags (fst a) \<and> os_refs o1 = Arc (if snd a then 2 else 1) \<and>
     (case fst a of
        Delivered w m \<Rightarrow> os_cell o1 = Some m \<and> \<not> snd a
      | Waiting w \<Rightarrow> snd a | Idle w \<Rightarrow> \<not> snd a | Shut \<Rightarrow> True)"

lemmas os_op_defs =
  OneshotReceiver_sender_def OneshotSender_send_def OneshotSender_drop_def
  OneshotReceiver_poll_recv_def OneshotReceiver_close_def OneshotHeader_close_def
  OneshotHeader_finish_write_def OneshotHeader_drop_tx_def OneshotRef_clone_def OneshotRef_drop_def
  Oneshot_take_value_def OneshotRecv_poll_def Let_def

lemma os_sim_step:
  assumes "os_sim o1 a" and "os_guard a c"
  shows "\<exists>o2. os_exec c o1 = Done (o2, snd (os_spec c a)) \<and> os_sim o2 (fst (os_spec c a))"
proof -
  obtain ph tx where a: "a = (ph, tx)" by fastforce
  show ?thesis
  proof (cases ph)
    case (Idle w)
    with assms show ?thesis unfolding a
      by (cases w; cases c) (auto simp: os_sim_def os_op_defs flag_values)
  next
    case (Waiting w)
    with assms show ?thesis unfolding a
      by (cases w; cases c) (auto simp: os_sim_def os_op_defs flag_values)
  next
    case (Delivered w m)
    with assms show ?thesis unfolding a
      by (cases w; cases c) (auto simp: os_sim_def os_op_defs flag_values)
  next
    case Shut
    with assms show ?thesis unfolding a
      by (cases c) (auto simp: os_sim_def os_op_defs flag_values)
  qed
qed

subsection \<open>Sequences of calls\<close>

fun os_run :: "'m os_call list \<Rightarrow> 'm oneshot \<Rightarrow> ('m oneshot \<times> 'm os_result list) outcome" where
  "os_run [] o1 = Done (o1, [])"
| "os_run (c # cs) o1 =
     outcome_bind (os_exec c o1) (\<lambda>(o2, r).
       outcome_map (\<lambda>(o3, rs). (o3, r # rs)) (os_run cs o2))"

fun os_spec_run ::
  "'m os_call list \<Rightarrow> 'm phase \<times> bool \<Rightarrow> (('m phase \<times> bool) \<times> 'm os_result list) option" where
  "os_spec_run [] a = Some (a, [])"
| "os_spec_run (c # cs) a =
     (if os_guard a c then
        map_option (\<lambda>(a', rs). (a', snd (os_spec c a) # rs)) (os_spec_run cs (fst (os_spec c a)))
      else None)"

lemma os_new_sim: "os_sim (OneshotReceiver_new t) (Idle False, False)"
  by (simp add: os_sim_def OneshotReceiver_new_def flag_values)

lemma os_run_sim:
  assumes "os_sim o1 a" and "os_spec_run cs a = Some (a', rs)"
  shows "\<exists>o2. os_run cs o1 = Done (o2, rs) \<and> os_sim o2 a'"
  using assms
proof (induction cs arbitrary: o1 a rs)
  case Nil
  then show ?case by simp
next
  case (Cons c cs)
  then obtain rs' where guard: "os_guard a c" and rs: "rs = snd (os_spec c a) # rs'"
    and rest: "os_spec_run cs (fst (os_spec c a)) = Some (a', rs')"
    by (auto split: if_splits)
  obtain o2 where "os_exec c o1 = Done (o2, snd (os_spec c a))" "os_sim o2 (fst (os_spec c a))"
    using os_sim_step [OF Cons.prems(1) guard] by blast
  with Cons.IH [OF _ rest] rs show ?case by fastforce
qed



text \<open>
  A one-shot channel delivers and can be used again: from an idle channel, a new sender's
  message is what the next poll returns, whatever polls came between, and the channel is idle
  again.
\<close>

theorem oneshot_delivers:
  assumes "os_sim o1 (Idle False, False)"
  shows "\<exists>o2. os_run ([Take_Sender] @ replicate n Os_Recv @ [Os_Send m, Os_Recv]) o1 =
      Done (o2, [R_Sender (Ok ())] @ replicate n (R_Recv Pending) @
        [R_Sent (Ok ()), R_Recv (Ready (Ok m))]) \<and>
    os_sim o2 (Idle False, False)"
proof -
  have "os_spec_run (replicate n Os_Recv @ [Os_Send m, Os_Recv]) (Waiting w, True) =
      Some ((Idle False, False), replicate n (R_Recv Pending) @ [R_Sent (Ok ()), R_Recv (Ready (Ok m))])"
    for w
    by (induction n arbitrary: w) simp_all
  then have "os_spec_run ([Take_Sender] @ replicate n Os_Recv @ [Os_Send m, Os_Recv]) (Idle False, False) =
      Some ((Idle False, False), [R_Sender (Ok ())] @ replicate n (R_Recv Pending) @
        [R_Sent (Ok ()), R_Recv (Ready (Ok m))])"
    by simp
  from os_run_sim [OF assms this] show ?thesis .
qed

theorem oneshot_delivers_witness:
  "\<exists>o2. os_run ([Take_Sender] @ replicate 2 Os_Recv @ [Os_Send (5 :: nat), Os_Recv])
       (OneshotReceiver_new 3) =
     Done (o2, [R_Sender (Ok ())] @ replicate 2 (R_Recv Pending) @
       [R_Sent (Ok ()), R_Recv (Ready (Ok 5))])"
  using oneshot_delivers [OF os_new_sim [of 3], of 2 5] by blast

text \<open>
  Asking for a sender while a delivered message waits to be received destroys that message
  and then fails with \<open>SenderAlreadyActive\<close>, although no sender is left: the loop decides on the
  flags it read before it received the message.
\<close>

theorem sender_destroys_message:
  assumes "os_sim o1 (Delivered w m, False)"
  shows "\<exists>o2. OneshotReceiver_sender (Suc n) o1 = Done (o2, Err SenderError_SenderAlreadyActive) \<and>
    os_dropped o2 = os_dropped o1 @ [m] \<and> os_cell o2 = None \<and> os_state o2 = HAS_RX"
  using assms by (cases w) (auto simp: os_sim_def os_op_defs flag_values)

theorem sender_destroys_message_witness:
  "\<exists>o1 o2. os_run [Take_Sender, Os_Send 5] (OneshotReceiver_new 3) =
       Done (o1, [R_Sender (Ok ()), R_Sent (Ok ())]) \<and>
     OneshotReceiver_sender 1 o1 = Done (o2, Err SenderError_SenderAlreadyActive) \<and>
     os_cell (o2 :: nat oneshot) = None"
proof -
  obtain o1 :: "nat oneshot" where o1: "os_run [Take_Sender, Os_Send 5] (OneshotReceiver_new 3) =
      Done (o1, [R_Sender (Ok ()), R_Sent (Ok ())])" "os_sim o1 (Delivered False 5, False)"
    using os_run_sim [OF os_new_sim [of 3], of "[Take_Sender, Os_Send 5]"] by fastforce
  with sender_destroys_message [OF o1(2), of 0] show ?thesis by auto
qed

text \<open>
  A receive that finds no sender leaves its flag behind, and the next request for a sender
  spins for ever: the loop of \<open>take_sender\<close> waits for a state it does not change.
\<close>

theorem sender_spins_after_failed_recv:
  assumes "os_sim o1 (Idle w, False)"
  shows "\<exists>o2. OneshotReceiver_poll_recv [] o1 = Done (o2, Ready (Err RecvError_NoSender)) \<and>
    OneshotReceiver_sender fuel o2 = Running"
proof -
  have stuck: "OneshotReceiver_take_sender fuel o2 = Running" if "os_state o2 = 5" for o2 :: "'a oneshot"
    using that by (induction fuel) (simp_all add: flag_values)
  have "os_state (o1\<lparr>os_state := 5\<rparr>) = 5" by simp
  with assms stuck [OF this] show ?thesis
    by (cases w) (auto simp: os_sim_def OneshotReceiver_poll_recv_def OneshotReceiver_sender_def
        flag_values Let_def)
qed

theorem sender_spins_after_failed_recv_witness:
  "\<exists>o2. OneshotReceiver_poll_recv [] (OneshotReceiver_new 3) =
       Done (o2, Ready (Err RecvError_NoSender)) \<and>
     OneshotReceiver_sender 1000 (o2 :: nat oneshot) = Running"
  by (rule sender_spins_after_failed_recv [OF os_new_sim])

text \<open>
  Dropping a sender that has not sent wakes nobody: a receiver that waits for it (its phase is
  \<open>Waiting True\<close>) is not told that its sender is gone, only the next poll finds out.
\<close>

theorem drop_sender_wakes_nobody:
  assumes "os_sim o1 (Waiting w, True)"
  shows "\<exists>o2. OneshotSender_drop False o1 = Done o2 \<and> os_wait o2 = os_wait o1 \<and>
    os_sim o2 (Idle w, False)"
  using assms by (cases w) (auto simp: os_sim_def os_op_defs flag_values)

theorem drop_sender_wakes_nobody_witness:
  "\<exists>o1 o2. os_run [Take_Sender, Os_Recv] (OneshotReceiver_new 3) =
       Done (o1, [R_Sender (Ok ()), R_Recv Pending]) \<and>
     OneshotSender_drop False o1 = Done o2 \<and> os_wait (o2 :: nat oneshot) = os_wait o1"
proof -
  obtain o1 :: "nat oneshot" where o1: "os_run [Take_Sender, Os_Recv] (OneshotReceiver_new 3) =
      Done (o1, [R_Sender (Ok ()), R_Recv Pending])" "os_sim o1 (Waiting True, True)"
    using os_run_sim [OF os_new_sim [of 3], of "[Take_Sender, Os_Recv]"] by fastforce
  with drop_sender_wakes_nobody [OF o1(2)] show ?thesis by auto
qed

text \<open>
  Closing twice around a send that failed is undefined behaviour: the failed send leaves the
  flag SENT behind, and the second close drops the message that the sender took back. Closing a
  channel with a delivered message, on the other hand, never drops it.
\<close>

theorem close_twice_drops_empty_cell:
  assumes "os_sim o1 (Waiting w, True)"
  shows "\<exists>o2 o3. OneshotReceiver_close o1 = Done o2 \<and>
    OneshotSender_send o2 m = Done (o3, Err (Closed m)) \<and> OneshotReceiver_close o3 = UB"
  using assms
  by (cases w) (auto simp: os_sim_def os_op_defs oneshot_drop_cell_def flag_values)

theorem close_twice_drops_empty_cell_witness:
  "\<exists>o1 o2 o3. os_run [Take_Sender] (OneshotReceiver_new 3) = Done (o1, [R_Sender (Ok ())]) \<and>
     OneshotReceiver_close o1 = Done o2 \<and>
     OneshotSender_send o2 (5 :: nat) = Done (o3, Err (Closed 5)) \<and> OneshotReceiver_close o3 = UB"
proof -
  obtain o1 :: "nat oneshot" where o1: "os_run [Take_Sender] (OneshotReceiver_new 3) =
      Done (o1, [R_Sender (Ok ())])" "os_sim o1 (Waiting False, True)"
    using os_run_sim [OF os_new_sim [of 3], of "[Take_Sender]"] by fastforce
  with close_twice_drops_empty_cell [OF o1(2), of 5] show ?thesis by blast
qed

end
