(* ===== verification/Client.thy ===== *)
theory Client
  imports Machine Oneshot_Spec
begin

section \<open>Connecting to a service (\<open>client.rs\<close>, \<open>Interface::connector\<close>)\<close>

text \<open>
  A client makes a pair of channels, hands the serialising ends with its hello message to the
  interface and waits for the answer. The hello box and the response channel of a connector, and
  the channels, are in the memory of the node; the queue of connect requests is a channel of its
  own. \<open>connect\<close> is split at its last await, where the interface takes over: the first part ends
  when the request has been queued, the second is a poll of the response.
\<close>

datatype ConnectError = InterfaceDead | Nak Rejection

record connector =
  hello_sharer :: nat
  rsp :: nat

text \<open>The client's ends: the address and message type of the channel to send on and to receive from.\<close>

record client_bidi =
  cb_tx :: nat
  cb_tx_type :: type_id
  cb_rx :: nat
  cb_rx_type :: type_id
  cb_flags :: bidi

record channels =
  srv_chan :: ser_bidi
  client_chan :: client_bidi

subsection \<open>Channels\<close>

text \<open>
  \<open>Channels::new\<close>: the new channels get the addresses \<open>a\<close> and \<open>b\<close>. The client sends on \<open>s2c\<close>
  and receives from \<open>c2s\<close>. The two \<open>TrickyPipe\<close> handles are dropped at the end.
\<close>

definition Channels_new ::
  "'ia index_ops \<Rightarrow> bool list list \<Rightarrow> type_id \<times> string \<Rightarrow> type_id \<times> string \<Rightarrow> u8 \<Rightarrow> nat \<Rightarrow> nat
    \<Rightarrow> ('ia, 'm) world \<Rightarrow> (('ia, 'm) world \<times> channels) outcome" where
  "Channels_new io scheds client_msg server_msg cap a b w =
     outcome_bind (TrickyPipe_new io (fst client_msg) (snd client_msg) cap) (\<lambda>s2c.
     outcome_bind (TrickyPipe_new io (fst server_msg) (snd server_msg) cap) (\<lambda>c2s.
     outcome_bind (TrickyPipe_deser_sender c2s) (\<lambda>c2s1.
     outcome_bind (TrickyPipe_ser_receiver s2c) (\<lambda>(s2c1, r1).
     if r1 = None then Panic else
     outcome_bind (TrickyPipe_sender s2c1) (\<lambda>s2c2.
     outcome_bind (TrickyPipe_receiver c2s1) (\<lambda>(c2s2, r2).
     if r2 = None then Panic else
     outcome_bind (TrickyPipe_drop io scheds c2s2) (\<lambda>c2s3.
     outcome_bind (TrickyPipe_drop io scheds s2c2) (\<lambda>s2c3.
     Done (w\<lparr>pipe_at := (pipe_at w)(a := s2c3, b := c2s3)\<rparr>,
       \<lparr>srv_chan = \<lparr>bd_tx = b, bd_tx_type = fst server_msg, bd_rx = a, bd_rx_type = fst client_msg,
                     bd_flags = SerBiDi_from_pair\<rparr>,
        client_chan = \<lparr>cb_tx = a, cb_tx_type = fst client_msg, cb_rx = b, cb_rx_type = fst server_msg,
                        cb_flags = BiDi_from_pair\<rparr>\<rparr>)))))))))"

definition drop_client_chan ::
  "'ia index_ops \<Rightarrow> bool list list \<Rightarrow> client_bidi \<Rightarrow> ('ia, 'm) world \<Rightarrow> ('ia, 'm) world outcome" where
  "drop_client_chan io scheds ch w =
     outcome_bind (on_pipe (cb_tx ch) (Sender_drop io scheds) w)
       (on_pipe (cb_rx ch) (Receiver_drop io scheds))"

subsection \<open>Connectors\<close>

definition Interface_connector_with ::
  "nat \<Rightarrow> nat \<Rightarrow> ('n, 'ia, OutboundConnect) pipe \<Rightarrow> (('n, 'ia, OutboundConnect) pipe \<times> connector) outcome" where
  "Interface_connector_with sharer rsp_rx conns_pipe =
     outcome_map (\<lambda>p. (p, \<lparr>hello_sharer = sharer, rsp = rsp_rx\<rparr>)) (Sender_clone conns_pipe)"

definition Interface_connector ::
  "type_id \<Rightarrow> type_id \<Rightarrow> nat \<Rightarrow> nat \<Rightarrow> ('n, 'ia, OutboundConnect) pipe \<Rightarrow> ('ia, 'm) world
    \<Rightarrow> (('n, 'ia, OutboundConnect) pipe \<times> ('ia, 'm) world \<times> connector) outcome" where
  "Interface_connector hello_type rsp_type s r conns_pipe w =
     outcome_bind (Sharer_new hello_type) (\<lambda>box.
       outcome_map (\<lambda>(p, c). (p, w\<lparr>box_at := (box_at w)(s := box),
             oneshot_at := (oneshot_at w)(r := OneshotReceiver_new rsp_type)\<rparr>, c))
         (Interface_connector_with s r conns_pipe))"

text \<open>
  The arguments before the connector are those of the awaits: the resumptions of the reservation
  and of the box, the fuel of the loop that takes a sender, the schedule of the send.
\<close>

definition Connector_connect_send ::
  "'ia index_ops \<Rightarrow> bool list list \<Rightarrow> type_id \<Rightarrow> (('n, 'ia, OutboundConnect) pipe \<times> (unit + unit)) list
    \<Rightarrow> 'm serbox list \<Rightarrow> nat \<Rightarrow> bool list \<Rightarrow> connector \<Rightarrow> nat \<Rightarrow> IdentityKind \<Rightarrow> type_id \<times> 'm \<Rightarrow> channels
    \<Rightarrow> ('n, 'ia, OutboundConnect) pipe \<Rightarrow> ('ia, 'm) world
    \<Rightarrow> (('n, 'ia, OutboundConnect) pipe \<times> ('ia, 'm) world \<times> (ConnectError + unit)) outcome" where
  "Connector_connect_send io scheds t resumes boxes fuel sched c uuid kind hello chans conns_pipe w =
     outcome_bind (Sender_reserve io t resumes conns_pipe) (\<lambda>(p1, r).
       case r of
         Err _ \<Rightarrow>
           outcome_bind (drop_client_chan io scheds (client_chan chans) w) (\<lambda>w1.
             outcome_map (\<lambda>w2. (p1, w2, Err InterfaceDead)) (drop_channel io scheds (srv_chan chans) w1))
       | Ok permit \<Rightarrow>
           outcome_bind (Sharer_share boxes (box_at w (hello_sharer c)) (snd hello)) (\<lambda>box.
             let w1 = w\<lparr>box_at := (box_at w)(hello_sharer c := box)\<rparr>
             in outcome_bind (OneshotReceiver_sender fuel (oneshot_at w1 (rsp c))) (\<lambda>(o1, s).
                  case s of
                    Err _ \<Rightarrow> Panic
                  | Ok _ \<Rightarrow>
                      outcome_map (\<lambda>p2. (p2, w1\<lparr>oneshot_at := (oneshot_at w1)(rsp c := o1)\<rparr>, Ok ()))
                        (Permit_send sched p1 permit
                           \<lparr>oc_identity = Identity_new uuid kind, oc_hello = (hello_sharer c, fst hello),
                            oc_channel = srv_chan chans, oc_rsp = rsp c\<rparr>))))"

definition Connector_connect_recv ::
  "'ia index_ops \<Rightarrow> bool list list \<Rightarrow> ((Rejection + unit) oneshot \<times> (unit + unit)) poll list \<Rightarrow> connector
    \<Rightarrow> client_bidi \<Rightarrow> ('ia, 'm) world
    \<Rightarrow> (('ia, 'm) world \<times> (ConnectError + client_bidi) poll) outcome" where
  "Connector_connect_recv io scheds polls c chan w =
     outcome_bind (OneshotRecv_poll polls (oneshot_at w (rsp c))) (\<lambda>(o1, r).
       let w1 = w\<lparr>oneshot_at := (oneshot_at w)(rsp c := o1)\<rparr>;
           failed = (\<lambda>e. outcome_map (\<lambda>w2. (w2, Ready (Err e))) (drop_client_chan io scheds chan w1))
       in case r of
            Pending \<Rightarrow> Done (w1, Pending)
          | Ready (Err _) \<Rightarrow> failed InterfaceDead
          | Ready (Ok (Err nak)) \<Rightarrow> failed (Nak nak)
          | Ready (Ok (Ok _)) \<Rightarrow> Done (w1, Ready (Ok chan)))"

end
