(* ===== verification/Req_Rsp.thy ===== *)
theory Req_Rsp
  imports Client
begin

section \<open>The request/response client (\<open>req_rsp.rs\<close>)\<close>

text \<open>
  A client numbers its requests, registers a waiter for each in a \<open>WaitMap\<close> and sends them on
  its channel; a dispatcher receives the responses and wakes the waiter with the same number. The
  wait map belongs to \<open>maitake_sync\<close>: it is the record \<open>wait_map\<close>. The channel is two pipes.
\<close>

datatype wait_map_error =
    WaitError_Closed | WaitError_AlreadyConsumed | WaitError_NeverAdded | WaitError_Duplicate
  | WaitError_Other nat

datatype 'r WakeOutcome = Woke | NoMatch 'r | WakeOutcome_Closed 'r

record ('s, 'r) wait_map =
  wm_new :: 's
  wm_enqueue :: "'s \<Rightarrow> usize \<Rightarrow> 's \<times> (wait_map_error + unit)"
  wm_poll :: "'s \<Rightarrow> usize \<Rightarrow> 's \<times> (wait_map_error + 'r) poll"
  wm_wake :: "'s \<Rightarrow> usize \<Rightarrow> 'r \<Rightarrow> 's \<times> 'r WakeOutcome"
  wm_close :: "'s \<Rightarrow> 's"

subsection \<open>Messages\<close>

datatype Seq = Seq usize

record 't Request =
  rq_seq :: usize
  rq_body :: 't

record 't Response =
  rs_seq :: usize
  rs_body :: 't

fun Seq_respond :: "Seq \<Rightarrow> 't \<Rightarrow> 't Response" where
  "Seq_respond (Seq s) b = \<lparr>rs_seq = s, rs_body = b\<rparr>"

definition Request_into_parts :: "'t Request \<Rightarrow> Seq \<times> 't" where
  "Request_into_parts r = (Seq (rq_seq r), rq_body r)"

definition Request_respond :: "'t Request \<Rightarrow> 'u \<Rightarrow> 'u Response" where
  "Request_respond r b = \<lparr>rs_seq = rq_seq r, rs_body = b\<rparr>"

datatype DispatchError = AlreadyRunning | ConnectionReset Reset

datatype RequestError = RequestError_Reset Reset | SeqInUse

subsection \<open>State\<close>

text \<open>\<open>cl_tx\<close> and \<open>cl_rx\<close> are the pipes of the channel; \<open>cl_shutdown\<close>: its wait cell is closed.\<close>

record ('s, 'ia, 'q, 'r) client =
  cl_seq :: usize
  cl_tx :: "(Reset, 'ia, 'q Request) pipe"
  cl_rx :: "(Reset, 'ia, 'r Response) pipe"
  cl_shutdown :: bool
  cl_dispatcher :: 's
  has_dispatcher :: bool

definition Client_new ::
  "('s, 'r) wait_map \<Rightarrow> (Reset, 'ia, 'q Request) pipe \<Rightarrow> (Reset, 'ia, 'r Response) pipe
    \<Rightarrow> ('s, 'ia, 'q, 'r) client" where
  "Client_new wm ptx prx = \<lparr>cl_seq = 0, cl_tx = ptx, cl_rx = prx, cl_shutdown = False,
     cl_dispatcher = wm_new wm, has_dispatcher = False\<rparr>"

subsection \<open>Requests\<close>

text \<open>
  \<open>handle_wait_error\<close>, in a build with debug assertions. When the map was closed it looks the
  reason up in the channel, with a \<open>try_reserve\<close> that must fail.
\<close>

definition handle_wait_error ::
  "'ia index_ops \<Rightarrow> type_id \<Rightarrow> ('s, 'ia, 'q, 'r) client \<Rightarrow> wait_map_error
    \<Rightarrow> (('s, 'ia, 'q, 'r) client \<times> RequestError) outcome" where
  "handle_wait_error io t c err =
     (case err of
        WaitError_Closed \<Rightarrow>
          outcome_bind (Sender_try_reserve io t (cl_tx c)) (\<lambda>(p, r).
            case r of
              Ok _ \<Rightarrow> Panic
            | Err e \<Rightarrow>
                (case e of
                   TrySendError_Error _ reset \<Rightarrow> Done (c\<lparr>cl_tx := p\<rparr>, RequestError_Reset reset)
                 | _ \<Rightarrow> Panic))
      | WaitError_Duplicate \<Rightarrow> Done (c, SeqInUse)
      | WaitError_AlreadyConsumed \<Rightarrow> Panic
      | WaitError_NeverAdded \<Rightarrow> Panic
      | WaitError_Other _ \<Rightarrow> Panic)"

text \<open>
  The loop that looks for a number that is not in use and sends; fuel bounds its iterations. The
  result is the number, to wait on.
\<close>

fun request_loop ::
  "('s, 'r) wait_map \<Rightarrow> 'ia index_ops \<Rightarrow> type_id \<Rightarrow> bool list \<Rightarrow> nat \<Rightarrow> ('s, 'ia, 'q, 'r) client \<Rightarrow> u8 \<Rightarrow> 'q
    \<Rightarrow> (('s, 'ia, 'q, 'r) client \<times> (Reset + usize)) outcome" where
  "request_loop wm io t sched 0 c permit b = Running"
| "request_loop wm io t sched (Suc fuel) c permit b =
     (let seq = cl_seq c;
          c1 = c\<lparr>cl_seq := seq + 1\<rparr>
      in case wm_enqueue wm (cl_dispatcher c1) seq of
           (d, Ok _) \<Rightarrow>
             outcome_map (\<lambda>p. (c1\<lparr>cl_dispatcher := d, cl_tx := p\<rparr>, Ok seq))
               (Permit_send sched (cl_tx c1) permit \<lparr>rq_seq = seq, rq_body = b\<rparr>)
         | (d, Err err) \<Rightarrow>
             outcome_bind (handle_wait_error io t (c1\<lparr>cl_dispatcher := d\<rparr>) err) (\<lambda>(c2, e).
               case e of
                 RequestError_Reset reset \<Rightarrow>
                   Done (c2\<lparr>cl_tx := Permit_drop io (cl_tx c2) permit\<rparr>, Err reset)
               | SeqInUse \<Rightarrow> request_loop wm io t sched fuel c2 permit b))"

definition Client_request ::
  "('s, 'r) wait_map \<Rightarrow> 'ia index_ops \<Rightarrow> type_id \<Rightarrow> ((Reset, 'ia, 'q Request) pipe \<times> (unit + unit)) list
    \<Rightarrow> bool list \<Rightarrow> nat \<Rightarrow> ('s, 'ia, 'q, 'r) client \<Rightarrow> 'q
    \<Rightarrow> (('s, 'ia, 'q, 'r) client \<times> (Reset + usize)) outcome" where
  "Client_request wm io t resumes sched fuel c b =
     outcome_bind (Sender_reserve io t resumes (cl_tx c)) (\<lambda>(p, r).
       let c1 = c\<lparr>cl_tx := p\<rparr>
       in case r of
            Err e \<Rightarrow>
              Done (c1, Err (case e of SendError_Disconnected _ \<Rightarrow> BecauseISaidSo
                                     | SendError_Error _ reset \<Rightarrow> reset))
          | Ok permit \<Rightarrow> request_loop wm io t sched fuel c1 permit b)"

text \<open>A poll of the request that waits under the number \<open>seq\<close>.\<close>

definition request_poll ::
  "('s, 'r) wait_map \<Rightarrow> 'ia index_ops \<Rightarrow> type_id \<Rightarrow> ('s, 'ia, 'q, 'r) client \<Rightarrow> usize
    \<Rightarrow> (('s, 'ia, 'q, 'r) client \<times> (Reset + 'r) poll) outcome" where
  "request_poll wm io t c seq =
     (case wm_poll wm (cl_dispatcher c) seq of
        (d, Pending) \<Rightarrow> Done (c\<lparr>cl_dispatcher := d\<rparr>, Pending)
      | (d, Ready (Ok response)) \<Rightarrow> Done (c\<lparr>cl_dispatcher := d\<rparr>, Ready (Ok response))
      | (d, Ready (Err err)) \<Rightarrow>
          outcome_bind (handle_wait_error io t (c\<lparr>cl_dispatcher := d\<rparr>) err) (\<lambda>(c2, e).
            case e of
              RequestError_Reset reset \<Rightarrow> Done (c2, Ready (Err reset))
            | SeqInUse \<Rightarrow> Panic))"

subsection \<open>Shutting down and dispatching\<close>

definition Client_close_channel :: "Reset \<Rightarrow> ('s, 'ia, 'q, 'r) client \<Rightarrow> ('s, 'ia, 'q, 'r) client" where
  "Client_close_channel reason c =
     (let (ptx, _) = Sender_close_with_error (cl_tx c) reason;
          (prx, _) = Receiver_close_with_error (cl_rx c) reason
      in c\<lparr>cl_tx := ptx, cl_rx := prx\<rparr>)"

definition Client_shutdown :: "('s, 'r) wait_map \<Rightarrow> ('s, 'ia, 'q, 'r) client \<Rightarrow> ('s, 'ia, 'q, 'r) client" where
  "Client_shutdown wm c =
     (let c1 = Client_close_channel BecauseISaidSo (c\<lparr>cl_shutdown := True\<rparr>)
      in c1\<lparr>cl_dispatcher := wm_close wm (cl_dispatcher c1)\<rparr>)"

text \<open>The start of \<open>dispatch\<close>, in a build with debug assertions.\<close>

definition Client_dispatch :: "('s, 'ia, 'q, 'r) client \<Rightarrow> ('s, 'ia, 'q, 'r) client outcome" where
  "Client_dispatch c = (if has_dispatcher c then Panic else Done (c\<lparr>has_dispatcher := True\<rparr>))"

text \<open>
  One iteration of the dispatcher, in two parts, as another thread may run between them: the
  select gives a response to deliver, or the result of \<open>dispatch\<close>; then the response is
  delivered.
\<close>

definition dispatch_recv ::
  "('s, 'r) wait_map \<Rightarrow> 'ia index_ops \<Rightarrow> type_id \<Rightarrow> bool list \<Rightarrow> (Reset, 'ia, 'r Response) pipe poll list
    \<Rightarrow> ('s, 'ia, 'q, 'r) client
    \<Rightarrow> (('s, 'ia, 'q, 'r) client \<times> ((DispatchError + unit) + 'r Response) poll) outcome" where
  "dispatch_recv wm io t sched polls c =
     (if cl_shutdown c then Done (c, Ready (Inl (Ok ())))
      else
        outcome_bind (Recv_poll io t sched polls (cl_rx c)) (\<lambda>(p, r).
          let c1 = c\<lparr>cl_rx := p\<rparr>
          in case r of
               Pending \<Rightarrow> Done (c1, Pending)
             | Ready (Ok msg) \<Rightarrow> Done (c1, Ready (Inr msg))
             | Ready (Err e) \<Rightarrow>
                 (let reset = (case e of RecvError_Error e' \<Rightarrow> e' | RecvError_Disconnected \<Rightarrow> BecauseISaidSo);
                      c2 = Client_close_channel reset c1
                  in Done (c2\<lparr>cl_dispatcher := wm_close wm (cl_dispatcher c2)\<rparr>,
                           Ready (Inl (Err (ConnectionReset reset)))))))"

definition dispatch_wake ::
  "('s, 'r) wait_map \<Rightarrow> 'r Response \<Rightarrow> ('s, 'ia, 'q, 'r) client \<Rightarrow> ('s, 'ia, 'q, 'r) client outcome" where
  "dispatch_wake wm msg c =
     (case wm_wake wm (cl_dispatcher c) (rs_seq msg) (rs_body msg) of
        (d, Woke) \<Rightarrow> Done (c\<lparr>cl_dispatcher := d\<rparr>)
      | (d, NoMatch _) \<Rightarrow> Done (c\<lparr>cl_dispatcher := d\<rparr>)
      | (d, WakeOutcome_Closed _) \<Rightarrow> Panic)"

definition Connector_connect_req_rsp ::
  "('s, 'r) wait_map \<Rightarrow> (ConnectError + ((Reset, 'ia, 'q Request) pipe \<times> (Reset, 'ia, 'r Response) pipe)) poll
    \<Rightarrow> (ConnectError + ('s, 'ia, 'q, 'r) client) poll" where
  "Connector_connect_req_rsp wm x =
     (case x of
        Pending \<Rightarrow> Pending
      | Ready (Err e) \<Rightarrow> Ready (Err e)
      | Ready (Ok (ptx, prx)) \<Rightarrow> Ready (Ok (Client_new wm ptx prx)))"

end
