(* ===== verification/Machine_Properties.thy ===== *)
theory Machine_Properties
  imports Machine
begin

section \<open>What an interface does\<close>

text \<open>
  Invariants of a running interface, whatever arrives on the wire and whatever the other tasks of
  the node do to the memory they share with it.
\<close>

text \<open>\<open>NonZeroU16\<close> refuses to deserialise from zero: the headers that are decoded name no number 0.\<close>

definition codec_nonzero :: "header_codec \<Rightarrow> bool" where
  "codec_nonzero hc \<longleftrightarrow> (\<forall>bs h rest. hc_take_from_bytes hc bs = Ok (h, rest) \<longrightarrow> 0 \<notin> Header_ids h)"

text \<open>The states of a running interface, with the result of the last poll of its task.\<close>

inductive machine_reachable ::
  "nat \<Rightarrow> ('wi, 'n, 'ia, 'm) machine \<Rightarrow> 'we InterfaceError option poll \<Rightarrow> bool" for n :: nat where
  Start: "Interface_new io scheds n wi p w = Done m \<Longrightarrow> machine_reachable n m Pending"
| Poll: "machine_reachable n m r \<Longrightarrow> codec_nonzero (env_hc env) \<Longrightarrow>
    Machine_run_poll env m = Done (m', r') \<Longrightarrow> machine_reachable n m' r'"
| Run_Again: "machine_reachable n m r \<Longrightarrow> machine_reachable n (Machine_run m) Pending"
| Other_Tasks: "machine_reachable n m r \<Longrightarrow> machine_reachable n (m\<lparr>m_world := w, m_conns := p, m_wire := wi\<rparr>) r"

definition machine_inv :: "nat \<Rightarrow> ('wi, 'n, 'ia, 'm) machine \<Rightarrow> bool" where
  "machine_inv n m \<longleftrightarrow> table_ok (m_table m) \<and> CAPACITY (m_table m) = n \<and>
     (outbound_started m \<longrightarrow> dead_index (m_table m) = None)"

text \<open>The parts of a step that may change the table, and those that may not.\<close>

lemma Machine_send_table:
  "Machine_send env f m = Done (m', r) \<Longrightarrow>
    m_table m' = m_table m \<and> outbound_started m' = outbound_started m"
  by (auto simp: Machine_send_def outcome_bind_eq_Done_iff outcome_map_eq_Done_iff)

lemma Machine_respond_table:
  "Machine_respond env map_err f m = Done (m', r) \<Longrightarrow>
    m_table m' = m_table m \<and> outbound_started m' = outbound_started m"
  by (auto simp: Machine_respond_def outcome_map_eq_Done_iff dest: Machine_send_table)

lemma decoded_nonzero:
  assumes "codec_nonzero hc" and "Frame_from_bytes hc buf = Done (Ok frame)"
  shows "0 \<notin> Header_ids (header frame)"
proof -
  from assms(2) obtain h rest where "hc_take_from_bytes hc buf = Ok (h, rest)" "header frame = h"
    by (auto simp: Frame_from_bytes_def Let_def split: sum.splits if_splits)
  with assms(1) show ?thesis unfolding codec_nonzero_def by blast
qed

lemma Machine_inbound_cases:
  assumes "Machine_inbound env buf m = Done (m', r)"
  obtains (bad) d where "Frame_from_bytes (env_hc env) buf = Done (Err d)" "m' = m" "r = None"
  | (frame) frame ct w rsp where "Frame_from_bytes (env_hc env) buf = Done (Ok frame)"
      "ConnTable_process_inbound (env_io env) (env_pc env) (env_sched env) (env_scheds env)
        (env_resumes env) (env_registry env) (m_table m) (m_world m) frame = Done (ct, w, rsp)"
      "m_table m' = ct" "outbound_started m' = outbound_started m" "rsp = None \<longrightarrow> r = None"
proof (cases "Frame_from_bytes (env_hc env) buf")
  case (Done d)
  show ?thesis
  proof (cases d)
    case (Inl e)
    with Done assms bad show ?thesis by (simp add: Machine_inbound_def)
  next
    case (Inr f)
    with Done assms obtain ct w rsp where
      p: "ConnTable_process_inbound (env_io env) (env_pc env) (env_sched env) (env_scheds env)
        (env_resumes env) (env_registry env) (m_table m) (m_world m) f = Done (ct, w, rsp)"
      by (auto simp: Machine_inbound_def link_id_not_interface outcome_bind_eq_Done_iff)
    show ?thesis
    proof (cases rsp)
      case None
      with p Done Inr assms frame show ?thesis by (auto simp: Machine_inbound_def link_id_not_interface Let_def)
    next
      case (Some g)
      with p Done Inr assms obtain map_err where
        "Machine_respond env map_err g (m\<lparr>m_table := ct, m_world := w\<rparr>) = Done (m', r)"
        by (auto simp: Machine_inbound_def Let_def split: if_split_asm)
      with p Done Inr Some frame show ?thesis by (auto dest: Machine_respond_table)
    qed
  qed
qed (use assms in \<open>auto simp: Machine_inbound_def\<close>)

lemma Machine_inbound_inv:
  assumes "machine_inv n m" and "codec_nonzero (env_hc env)" and "Machine_inbound env buf m = Done (m', r)"
  shows "machine_inv n m'"
  using assms(3)
proof (cases rule: Machine_inbound_cases)
  case (frame f ct w rsp)
  have "handled (m_table m) (header f) ct rsp"
    using process_inbound_handled [OF _ decoded_nonzero [OF assms(2) frame(1)] frame(2)] assms(1)
    by (simp add: machine_inv_def table_ok_def)
  with frame(3,4) assms(1) show ?thesis by (simp add: machine_inv_def table_ok_def handled_def)
qed (use assms(1) in simp)

lemma start_connecting_inv:
  assumes "table_inv ct" and "ConnTable_start_connecting io scheds c ct w = Done (ct', w', r)"
  shows "table_inv ct' \<and> CAPACITY ct' = CAPACITY ct \<and> dead_index ct' = dead_index ct"
proof (cases "card (dom (sockets ct)) < CAPACITY ct")
  case True
  from start_connecting_room [OF assms(1) True] assms(2) show ?thesis by (metis outcome.inject prod.inject)
next
  case False
  then have "card (dom (sockets ct)) = CAPACITY ct" using sockets_bounded [OF assms(1)] by simp
  from insert_full(2) [OF assms(1) this] assms show ?thesis
    by (auto simp: ConnTable_start_connecting_def outcome_bind_eq_Done_iff outcome_map_eq_Done_iff)
qed

lemma Machine_connect_inv:
  assumes "machine_inv n m" and "Machine_connect env conn m = Done (m', r)"
  shows "machine_inv n m'"
proof -
  from assms(2) obtain ct w f where
    c: "ConnTable_start_connecting (env_io env) (env_scheds env) conn (m_table m) (m_world m) = Done (ct, w, f)"
    by (auto simp: Machine_connect_def outcome_bind_eq_Done_iff)
  with assms(2) have "m_table m' = ct \<and> outbound_started m' = outbound_started m"
    by (cases f) (auto simp: Machine_connect_def Let_def dest!: Machine_respond_table)
  with start_connecting_inv [OF _ c] assms(1) show ?thesis by (simp add: machine_inv_def table_ok_def)
qed

lemma Machine_poll_outbound_inv:
  assumes "machine_inv n m" and "Machine_poll_outbound env m = Done (m', r)"
  shows "table_ok (m_table m') \<and> CAPACITY (m_table m') = n \<and> outbound_started m' \<and>
    (r = Pending \<longrightarrow> dead_index (m_table m') = None) \<and>
    (\<forall>f. r = Ready f \<longrightarrow> outbound_ok (m_table m') f)"
proof -
  from assms(1) have inv: "table_ok (m_table m)" "CAPACITY (m_table m) = n"
    "outbound_started m \<Longrightarrow> dead_index (m_table m) = None" by (simp_all add: machine_inv_def)
  obtain ct w where ct: "table_inv ct" "dead_index ct = None" "CAPACITY ct = n"
    "ConnTable_poll_outbound (env_sched env) (env_polls env) ct w = Done (m_table m', m_world m', r)"
    "outbound_started m'"
  proof (cases "outbound_started m")
    case True
    with assms(2) inv that [of "m_table m" "m_world m"] show thesis
      by (auto simp: Machine_poll_outbound_def outcome_map_eq_Done_iff table_ok_def)
  next
    case False
    with assms(2) obtain ct w where
      c: "ConnTable_cleanup_dead (env_io env) (env_scheds env) (m_table m) (m_world m) = Done (ct, w)"
        "ConnTable_poll_outbound (env_sched env) (env_polls env) ct w = Done (m_table m', m_world m', r)"
        "outbound_started m'"
      by (auto simp: Machine_poll_outbound_def ConnTable_next_outbound_def outcome_map_eq_Done_iff
        outcome_bind_eq_Done_iff)
    from cleanup_dead_spec [OF inv(1) c(1)] inv(2) have "table_inv ct" "dead_index ct = None" "CAPACITY ct = n"
      by simp_all
    from that [OF this c(2,3)] show thesis .
  qed
  show ?thesis
  proof (cases r)
    case (Ready f)
    with poll_outbound_spec [OF ct(1,2)] ct(4) obtain i s remote_id where
      s: "table_ok (m_table m')" "CAPACITY (m_table m') = CAPACITY ct" "sockets (m_table m') = sockets ct"
        "sockets ct i = Some s" "sock_state s = Open remote_id"
        "dead_index (m_table m') = None \<and>
           (\<exists>k. f = Frame_data remote_id i (bd_rx (sock_channel s)) (bd_rx_type (sock_channel s)) k)
         \<or> dead_index (m_table m') = Some i \<and> (\<exists>reason. f = Frame_reset remote_id reason)" by metis
    then have "outbound_ok (m_table m') f"
      by (auto simp: outbound_ok_def Frame_data_def Frame_reset_def links_def)
    with s ct Ready show ?thesis by simp
  next
    case Pending
    with poll_outbound_pending ct(4) have "m_table m' = ct" by blast
    with ct Pending show ?thesis by (simp add: table_ok_def)
  qed
qed

lemma machine_inv_fields [simp]:
  "machine_inv n (m\<lparr>m_wire := wi\<rparr>) = machine_inv n m" "machine_inv n (m\<lparr>m_world := w\<rparr>) = machine_inv n m"
  "machine_inv n (m\<lparr>m_conns := p\<rparr>) = machine_inv n m" "machine_inv n (m\<lparr>conns_remaining := b\<rparr>) = machine_inv n m"
  by (simp_all add: machine_inv_def)

lemma finish_iterationD:
  assumes "finish_iteration x = Done (m', r)"
  shows "\<exists>m e. x = Done (m, e) \<and> r = Ready e \<and> m' = m\<lparr>outbound_started := False\<rparr>"
  using assms by (auto simp: finish_iteration_def outcome_map_eq_Done_iff)

lemma machine_inv_finish:
  "machine_inv n (m\<lparr>outbound_started := False\<rparr>) \<longleftrightarrow> table_ok (m_table m) \<and> CAPACITY (m_table m) = n"
  by (simp add: machine_inv_def)

lemma machine_inv_table: "machine_inv n m \<Longrightarrow> table_ok (m_table m) \<and> CAPACITY (m_table m) = n"
  by (simp add: machine_inv_def)

lemma Machine_poll_conns_inv:
  assumes "machine_inv n m" and "Machine_poll_conns env m = Done (m', r)"
  shows "machine_inv n m'"
proof (cases "conns_remaining m")
  case False
  with assms show ?thesis by (simp add: Machine_poll_conns_def)
next
  case True
  with assms(2) obtain p x where
    p: "Recv_poll (env_io env) (conns_type env) (env_sched env) (conns_polls env) (m_conns m) = Done (p, x)"
    by (auto simp: Machine_poll_conns_def outcome_bind_eq_Done_iff)
  have inv: "machine_inv n (m\<lparr>m_conns := p\<rparr>)" using assms(1) by simp
  show ?thesis
  proof (cases x)
    case Pending
    with True p assms(2) inv show ?thesis by (auto simp: Machine_poll_conns_def)
  next
    case (Ready res)
    show ?thesis
    proof (cases res)
      case (Inl e)
      with Ready True p assms(2) inv show ?thesis
        by (auto simp: Machine_poll_conns_def finish_iteration_def machine_inv_def)
    next
      case (Inr conn)
      with Ready True p assms(2) have "finish_iteration (Machine_connect env conn (m\<lparr>m_conns := p\<rparr>)) = Done (m', r)"
        by (simp add: Machine_poll_conns_def)
      then show ?thesis
        by (auto simp: machine_inv_finish dest!: finish_iterationD Machine_connect_inv [OF inv] dest: machine_inv_table)
    qed
  qed
qed

lemma Machine_run_poll_inv:
  assumes "machine_inv n m" and "codec_nonzero (env_hc env)" and "Machine_run_poll env m = Done (m', r)"
  shows "machine_inv n m'"
proof -
  obtain wi x where wr: "wire_recv env (m_wire m) = (wi, x)" by fastforce
  have inv: "machine_inv n (m\<lparr>m_wire := wi\<rparr>)" using assms(1) by simp
  show ?thesis
  proof (cases x)
    case (Ready res)
    show ?thesis
    proof (cases res)
      case (Inl e)
      with Ready wr assms(3) inv show ?thesis
        by (auto simp: Machine_run_poll_def finish_iteration_def machine_inv_def)
    next
      case (Inr buf)
      with Ready wr assms(3) have "finish_iteration (Machine_inbound env buf (m\<lparr>m_wire := wi\<rparr>)) = Done (m', r)"
        by (simp add: Machine_run_poll_def)
      then show ?thesis
        by (auto simp: machine_inv_finish dest!: finish_iterationD Machine_inbound_inv [OF inv assms(2)]
          dest: machine_inv_table)
    qed
  next
    case Pending
    with wr assms(3) obtain m1 y where m1: "Machine_poll_outbound env (m\<lparr>m_wire := wi\<rparr>) = Done (m1, y)"
      by (auto simp: Machine_run_poll_def outcome_bind_eq_Done_iff)
    note out = Machine_poll_outbound_inv [OF inv m1]
    show ?thesis
    proof (cases y)
      case (Ready f)
      with Pending wr m1 assms(3) have "finish_iteration (Machine_respond env InterfaceError_send f m1) = Done (m', r)"
        by (simp add: Machine_run_poll_def)
      then show ?thesis
        using out by (auto simp: machine_inv_finish dest!: finish_iterationD Machine_respond_table)
    next
      case Pending
      with \<open>x = Pending\<close> wr m1 assms(3) have "Machine_poll_conns env m1 = Done (m', r)"
        by (simp add: Machine_run_poll_def)
      moreover have "machine_inv n m1" using out Pending by (simp add: machine_inv_def)
      ultimately show ?thesis by (blast intro: Machine_poll_conns_inv)
    qed
  qed
qed

lemma Interface_new_inv:
  assumes "n < 65535" and "Interface_new io scheds n wi p w = Done m"
  shows "machine_inv n m"
  using assms new_inv [OF assms(1)]
  by (auto simp: Interface_new_def outcome_bind_eq_Done_iff outcome_map_eq_Done_iff machine_inv_def
    table_ok_def ConnTable_new_def CAPACITY_def split: option.split_asm)

text \<open>A wire as the frames still to arrive and those sent, and an interface on it.\<close>

definition sample_env :: "(bytes list \<times> OutboundFrame list, string, string, usize, nat) run_env" where
  "sample_env = \<lparr>wire_recv = (\<lambda>(inbox, sent). case inbox of
       [] \<Rightarrow> ((inbox, sent), Pending) | buf # rest \<Rightarrow> ((rest, sent), Ready (Ok buf))),
     wire_send = (\<lambda>(inbox, sent) f w. Done ((inbox, sent @ [f]), Ok ())),
     env_registry = (\<lambda>_ _ w. Done (w, Err NotFound)), env_io = bitmap_ops, env_pc = wire_codec,
     env_hc = sample_codec, env_sched = [True], env_scheds = [], env_resumes = [], env_polls = (\<lambda>_. [Pending]),
     conns_type = 1, conns_polls = [Pending]\<rparr>"

definition sample_conns :: "(string, usize, OutboundConnect) pipe" where
  "sample_conns =
     \<lparr>dequeue_pos = 0, cons_wait = [], enqueue_pos = 0, prod_wait = [],
      indices = ia_with_capacity bitmap_ops 4,
      queue = map (\<lambda>i. push_bit POS_SHIFT (of_nat i)) [0..<64], state = TX_ONE, capacity = 4,
      error = None, elements = replicate 4 None, elem_type = 1, elem_type_name = ''OutboundConnect'',
      storage = Arc 1, dropped = []\<rparr>"

lemma sample_conns_storage: "storage sample_conns = Arc 1" "state sample_conns = TX_ONE"
  by (simp_all add: sample_conns_def)

lemma ucast_eq_zero: "(ucast (b :: u8) :: Id) = 0 \<longleftrightarrow> b = 0"
  by (metis unat_eq_zero unat_ucast_u16)

lemma sample_codec_nonzero: "codec_nonzero sample_codec"
  unfolding codec_nonzero_def
proof (intro allI impI)
  fix bs h rest
  assume ok: "hc_take_from_bytes sample_codec bs = Ok (h, rest)"
  then obtain k l r bs' where bs: "bs = k # l # r # bs'"
    by (auto simp: sample_codec_def split: list.split_asm)
  show "0 \<notin> Header_ids h"
    using ok unfolding bs
    by (auto simp: sample_codec_def eq_commute [of 0] ucast_eq_zero split: if_split_asm)
qed

lemma tx_words:
  "2 * TX_ONE AND RX_CLAIMED = 0" "drop_bit TX_SHIFT (2 * TX_ONE OR RX_CLAIMED) = 2"
  by code_simp+

lemma Interface_new_Done:
  assumes "storage p = Arc 1" and "state p = TX_ONE"
  shows "\<exists>p'. Interface_new io scheds n wi p w = Done \<lparr>m_wire = wi, m_table = ConnTable_new n, m_conns = p',
    m_world = w, conns_remaining = True, outbound_started = False\<rparr>"
  using assms
  by (simp add: Interface_new_def TrickyPipe_sender_def TrickyPipe_pipe_def ErasedPipe_clone_def
    TrickyPipe_receiver_def Core_try_claim_rx_def Core_add_tx_def TrickyPipe_drop_def ErasedPipe_drop_def
    Core_drop_tx_def tx_words Let_def)

text \<open>
  C18: Whatever frames arrive, whatever the wire answers and whatever other tasks do to the shared
  memory between two polls, the connection table of an interface with fewer than 65535
  connections stays well formed: its free list is intact, the numbers in use are non-zero and
  distinct, its size is fixed, and a socket is marked as dead only between two iterations of the
  loop.
\<close>

theorem machine_invariant:
  assumes "machine_reachable n m r" and "n < 65535"
  shows "machine_inv n m"
  using assms
proof (induction rule: machine_reachable.induct)
  case (Start io scheds wi p w m)
  then show ?case by (blast intro: Interface_new_inv)
next
  case (Poll m r env m' r')
  then show ?case by (blast intro: Machine_run_poll_inv)
next
  case (Run_Again m r)
  then show ?case by (simp add: Machine_run_def machine_inv_finish machine_inv_table)
qed (simp_all add: machine_inv_def)

text \<open>A DATA frame from the peer's number 8 to the number 1, which does not exist here.\<close>

lemma sample_decode:
  "Frame_from_bytes sample_codec [2, 8, 1, 5] = Done (Ok \<lparr>header = Data 8 1, body = [5]\<rparr>)"
  by (simp add: Frame_from_bytes_def sample_codec_def)

lemma sample_poll:
  assumes "m_wire m = ([[2, 8, 1, 5]], [])" and "m_table m = ConnTable_new 2"
  shows "Machine_run_poll sample_env m =
    Done (m\<lparr>m_wire := ([], [Frame_reset 8 NoSuchConn]), outbound_started := False\<rparr>, Ready None)"
  using assms
  by (simp add: Machine_run_poll_def sample_env_def Machine_inbound_def sample_decode link_id_not_interface
    ConnTable_process_inbound_def process_data_def Entries_get_def ConnTable_new_def Id_to_index_def
    Machine_respond_def Machine_send_def finish_iteration_def Frame_reset_def)

theorem machine_invariant_witness:
  "\<exists>m :: (bytes list \<times> OutboundFrame list, string, usize, nat) machine.
     m_wire m = ([], [Frame_reset 8 NoSuchConn]) \<and> machine_inv 2 m"
proof -
  obtain m :: "(bytes list \<times> OutboundFrame list, string, usize, nat) machine" where
    m: "Interface_new bitmap_ops [] 2 ([[2, 8, 1, 5]], []) sample_conns sample_world = Done m"
      "m_wire m = ([[2, 8, 1, 5]], [])" "m_table m = ConnTable_new 2"
    using Interface_new_Done [of sample_conns bitmap_ops "[]" 2
      "([[2, 8, 1, 5]], []) :: bytes list \<times> OutboundFrame list" sample_world]
    by (auto simp: sample_conns_storage)
  have "codec_nonzero (env_hc sample_env)" by (simp add: sample_env_def sample_codec_nonzero)
  from machine_invariant [OF machine_reachable.Poll [OF machine_reachable.Start [OF m(1)] this sample_poll [OF m(2,3)]]]
  have "machine_inv 2 (m\<lparr>m_wire := ([], [Frame_reset 8 NoSuchConn]), outbound_started := False\<rparr>)" by simp
  then show ?thesis by (intro exI conjI) simp_all
qed

lemma Machine_respond_err:
  assumes "Machine_respond env map_err f m = Done (m', Some e)"
  shows "\<exists>wi err. wire_send env (m_wire m) f (m_world m) = Done (wi, Err err) \<and> e = map_err err"
proof -
  from assms obtain wi res where "wire_send env (m_wire m) f (m_world m) = Done (wi, res)"
    by (auto simp: Machine_respond_def Machine_send_def outcome_map_eq_Done_iff outcome_bind_eq_Done_iff)
  with assms show ?thesis
    by (cases res) (auto simp: Machine_respond_def Machine_send_def outcome_map_eq_Done_iff)
qed

definition send_failed :: "('wi, 'we, 'n, 'ia, 'm) run_env \<Rightarrow> 'we InterfaceError \<Rightarrow> bool" where
  "send_failed env e \<longleftrightarrow> (\<exists>wi f w wi' err. wire_send env wi f w = Done (wi', Err err) \<and> ie_kind e = Kind_Send err)"

lemma Machine_respond_failed:
  assumes "Machine_respond env map_err f m = Done (m', Some e)" and "\<And>err. ie_kind (map_err err) = Kind_Send err"
  shows "send_failed env e"
  using Machine_respond_err [OF assms(1)] assms(2) unfolding send_failed_def by blast

lemma Machine_inbound_failed:
  assumes "Machine_inbound env buf m = Done (m', Some e)"
  shows "send_failed env e"
proof -
  from assms obtain f where d: "Frame_from_bytes (env_hc env) buf = Done (Ok f)"
    by (cases rule: Machine_inbound_cases) auto
  with assms obtain ct w rsp where "ConnTable_process_inbound (env_io env) (env_pc env) (env_sched env)
      (env_scheds env) (env_resumes env) (env_registry env) (m_table m) (m_world m) f = Done (ct, w, rsp)"
    by (auto simp: Machine_inbound_def link_id_not_interface outcome_bind_eq_Done_iff)
  with assms d show ?thesis
    by (cases rsp)
      (auto simp: Machine_inbound_def link_id_not_interface InterfaceError_with_context_def
        InterfaceError_send_def elim!: Machine_respond_failed)
qed

lemma Machine_connect_failed:
  assumes "Machine_connect env conn m = Done (m', Some e)"
  shows "send_failed env e"
proof -
  from assms obtain ct w f where
    "ConnTable_start_connecting (env_io env) (env_scheds env) conn (m_table m) (m_world m) = Done (ct, w, f)"
    by (auto simp: Machine_connect_def outcome_bind_eq_Done_iff)
  with assms show ?thesis
    by (cases f)
      (auto simp: Machine_connect_def InterfaceError_with_context_def InterfaceError_send_def
        elim!: Machine_respond_failed)
qed

lemma Machine_poll_conns_failed:
  assumes "Machine_poll_conns env m = Done (m', Ready (Some e))"
  shows "send_failed env e"
proof -
  have rem: "conns_remaining m" using assms by (auto simp: Machine_poll_conns_def split: if_split_asm)
  with assms obtain p x where
    p: "Recv_poll (env_io env) (conns_type env) (env_sched env) (conns_polls env) (m_conns m) = Done (p, x)"
    by (auto simp: Machine_poll_conns_def outcome_bind_eq_Done_iff)
  with assms rem obtain res where x: "x = Ready res" by (cases x) (auto simp: Machine_poll_conns_def)
  show ?thesis
  proof (cases res)
    case (Inl err)
    with assms rem p x show ?thesis by (auto simp: Machine_poll_conns_def finish_iteration_def)
  next
    case (Inr conn)
    with assms rem p x show ?thesis
      by (auto simp: Machine_poll_conns_def dest!: finish_iterationD Machine_connect_failed)
  qed
qed



end
