(* ===== verification/Client_Properties.thy ===== *)
theory Client_Properties
  imports Client Machine_Properties
begin

section \<open>From a connect call to the wire and back\<close>

text \<open>
  The components together: a connect request goes through the hello box, the response channel and
  the request queue to the interface, whose table opens a socket for it and sends the CONNECT
  frame; the answer of the peer comes back through the response channel.
\<close>

declare Core_reserve.simps [simp del] Core_poll_dequeue.simps [simp del]

lemma reserve_Ok: "Core_try_reserve io c = (c', Ok i) \<Longrightarrow> Core_reserve io resumes c = Done (c', Ok i)"
  by (subst Core_reserve.simps) simp

lemma poll_dequeue_Ok:
  "Core_try_dequeue sched c = Done (c', Ok i) \<Longrightarrow> Core_poll_dequeue sched polls c = Done (c', Ready (Ok i))"
  by (subst Core_poll_dequeue.simps) simp

lemma Sender_reserve_room:
  assumes "index_alloc io fr" and "pipe_inv fr H p" and "elem_type p = t" and "\<not> rx_closed p"
    and "fr (indices p) \<noteq> {}"
  obtains i p' where "Sender_reserve io t resumes p = Done (p', Ok i)" "unat i \<notin> H"
    "pipe_inv fr (insert (unat i) H) p'" "pipe_messages p' = pipe_messages p" "pipe_same p p'"
    "Core_head p' = Core_head p"
  using assms(1,2)
proof (cases rule: try_reserve_inv)
  case (reserved i p')
  with assms(3) have "elem_type p' = t" by (simp add: pipe_same_def)
  with reserved show ?thesis
    by (intro that [of p' i]) (auto simp: Sender_reserve_def reserve_Ok typed_cell)
qed (use assms(4,5) in auto)

lemma Recv_poll_message:
  assumes "index_alloc io fr" and "pipe_inv fr H p" and "elem_type p = t" and "True \<in> set sched"
    and "pipe_messages p = v # vs" and "Core_head p \<noteq> 1023"
  obtains p' where "Recv_poll io t sched polls p = Done (p', Ready (Ok v))" "pipe_inv fr H p'"
    "pipe_messages p' = vs" "pipe_same p p'"
proof -
  from assms(1-4) show ?thesis
  proof (cases rule: Receiver_try_recv_spec)
    case (got u p')
    then obtain p1 i where d: "Core_try_dequeue sched p = Done (p1, Ok i)"
      "Receiver_take_value io t p1 i = Done (p', u)"
    proof -
      from got(2) obtain p1 res where d: "Core_try_dequeue sched p = Done (p1, res)"
        by (auto simp: Receiver_try_recv_def outcome_bind_eq_Done_iff)
      with got(2) that show thesis
        by (cases res) (auto simp: Receiver_try_recv_def outcome_map_eq_Done_iff)
    qed
    then have "Recv_poll io t sched polls p = Done (p', Ready (Ok u))"
      by (simp add: Recv_poll_def Receiver_poll_recv_def poll_dequeue_Ok)
    with got assms(5) that show ?thesis by auto
  qed (use assms(5,6) in auto)
qed

text \<open>A box that its sharer can use, and what a consumer reads from it then.\<close>

lemma share_ready:
  assumes "sb_state s = HAS_SHARER" and "sb_memory s \<noteq> Freed"
  shows "Sharer_share boxes s v = Done (s\<lparr>sb_state := SHARED, sb_data := Some v\<rparr>)"
  using assms by (simp add: Sharer_try_share_def deref_def SerBox_try_share_def)

lemma consumer_reads:
  assumes "sb_memory s \<noteq> Freed" and "sb_type s = t" and "sb_data s = Some v"
  shows "Consumer_to_vec pc t s = Done (pc_to_allocvec pc v)"
  using assms by (simp add: Consumer_to_vec_def SerBox_with_data_def deref_def)

lemma take_sender_idle:
  assumes "os_sim o1 (Idle False, False)"
  shows "\<exists>o2. OneshotReceiver_sender (Suc fuel) o1 = Done (o2, Ok ()) \<and> os_sim o2 (Waiting False, True)"
  using assms by (auto simp: os_sim_def os_op_defs flag_values)

lemma take_sender_active:
  assumes "os_sim o1 (Waiting b, True)"
  shows "\<exists>o2. OneshotReceiver_sender (Suc fuel) o1 = Done (o2, Err SenderError_SenderAlreadyActive)"
  using assms by (cases b) (auto simp: os_sim_def os_op_defs flag_values)

lemma oneshot_answer:
  assumes "os_sim o1 (Waiting b, True)"
  shows "\<exists>o2 o3. OneshotSender_send o1 v = Done (o2, Ok ()) \<and>
    OneshotRecv_poll [Pending] o2 = Done (o3, Ready (Ok v)) \<and> os_sim o3 (Idle False, False)"
  using assms by (cases b) (auto simp: os_sim_def os_op_defs flag_values)


definition ready_world :: "(usize, nat) world" where
  "ready_world = sample_world\<lparr>box_at := (\<lambda>_. (SerBox_new 5 Boxed)\<lparr>sb_state := HAS_SHARER\<rparr>)\<rparr>"

definition sample_channels :: channels where
  "sample_channels = \<lparr>srv_chan = sample_chan,
     client_chan = \<lparr>cb_tx = 2, cb_tx_type = 7, cb_rx = 1, cb_rx_type = 7, cb_flags = BiDi_from_pair\<rparr>\<rparr>"

definition idle_machine :: "(bytes list \<times> OutboundFrame list, string, usize, nat) machine" where
  "idle_machine = \<lparr>m_wire = ([], []), m_table = ConnTable_new 2, m_conns = sample_conns,
     m_world = sample_world, conns_remaining = True, outbound_started = False\<rparr>"

lemma sample_conns_new: "TrickyPipe_new bitmap_ops 1 ''OutboundConnect'' 4 = Done sample_conns"
  by (simp add: TrickyPipe_new_def Core_new_def MAX_CAPACITY_def core.defs sample_conns_def)

lemma sample_conns_inv: "pipe_inv bitmap_free {} sample_conns" "\<not> rx_closed sample_conns"
    "pipe_messages sample_conns = []" "Core_head sample_conns = 0"
proof -
  show "pipe_inv bitmap_free {} sample_conns"
    using initial_inv(1) [OF bitmap_index_alloc sample_conns_new]
    by (simp add: system_inv_def live_inv_def initial_def handles_def held_def)
  show "\<not> rx_closed sample_conns" "pipe_messages sample_conns = []" "Core_head sample_conns = 0"
    by (simp_all add: rx_closed_def pipe_messages_def Core_queued_def Core_head_def Core_tail_def sample_conns_def)
qed

lemma sample_conns_type: "elem_type sample_conns = 1"
  by (simp add: sample_conns_def)

lemma sample_conns_free: "bitmap_free (indices sample_conns) \<noteq> {}"
proof -
  have "bitmap_free (ia_with_capacity bitmap_ops 4) = {..<4}"
    using bitmap_index_alloc by (simp add: index_alloc_def)
  then show ?thesis by (simp add: sample_conns_def lessThan_empty_iff)
qed


text \<open>
  C23: The answer of the peer reaches the client. While a socket awaits the answer for a connector's
  response channel, an ACK opens the socket and the client's next poll returns its channels; a
  REJECT frees the number and the client's next poll fails with the peer's reason, after its
  channels have been dropped. Either way the response channel is ready for another attempt.
\<close>

theorem connect_answered:
  assumes "table_ok ct" and "i \<noteq> 0" and "sockets ct i = Some s" and "sock_state s = Connecting (rsp c)"
    and "os_sim (oneshot_at w (rsp c)) (Waiting b, True)"
  shows "\<exists>ct1 w1 w2 ct3 w3 w4 o4.
    ConnTable_process_inbound io pc sched scheds resumes registry ct w \<lparr>header = Ack j i, body = bs\<rparr> =
      Done (ct1, w1, None) \<and> links ct1 = (links ct)(i \<mapsto> Linked j) \<and>
    Connector_connect_recv io scheds' [Pending] c chan w1 = Done (w2, Ready (Ok chan)) \<and>
    os_sim (oneshot_at w2 (rsp c)) (Idle False, False) \<and>
    ConnTable_process_inbound io pc sched scheds resumes registry ct w \<lparr>header = Reject i reason, body = bs\<rparr> =
      outcome_map (\<lambda>w. (ct3, w, None)) (drop_channel io scheds (sock_channel s) w3) \<and>
    links ct3 = (links ct)(i := None) \<and>
    Connector_connect_recv io scheds' [Pending] c chan w3 =
      outcome_map (\<lambda>w. (w, Ready (Err (Nak reason)))) (drop_client_chan io scheds' chan w4) \<and>
    w4 = w3\<lparr>oneshot_at := (oneshot_at w3)(rsp c := o4)\<rparr> \<and> os_sim o4 (Idle False, False)"
proof -
  from assms(1) have inv: "table_inv ct" by (simp add: table_ok_def)
  obtain oa ob where ack: "OneshotSender_send (oneshot_at w (rsp c)) (Ok ()) = Done (oa, Ok ())"
    "OneshotRecv_poll [Pending] oa = Done (ob, Ready (Ok (Ok ())))" "os_sim ob (Idle False, False)"
    using oneshot_answer [OF assms(5), of "Ok ()"] by blast
  obtain oc od where nak: "OneshotSender_send (oneshot_at w (rsp c)) (Err reason) = Done (oc, Ok ())"
    "OneshotRecv_poll [Pending] oc = Done (od, Ready (Ok (Err reason)))" "os_sim od (Idle False, False)"
    using oneshot_answer [OF assms(5), of "Err reason"] by blast
  let ?w1 = "w\<lparr>oneshot_at := (oneshot_at w)(rsp c := oa)\<rparr>"
  let ?w3 = "w\<lparr>oneshot_at := (oneshot_at w)(rsp c := oc)\<rparr>"
  obtain ct1 where ct1: "ConnTable_process_ack ct i j w = Done (ct1, ?w1, None)"
    "sockets ct1 = (sockets ct)(i \<mapsto> s\<lparr>sock_state := Open j\<rparr>)"
    using ack_opens [OF inv assms(2-4) ack(1)] by blast
  obtain ct3 where ct3: "ConnTable_remove ct i = Done (ct3, Some s)" "sockets ct3 = (sockets ct)(i := None)"
    using remove_spec [OF inv assms(2)] assms(3) by auto
  have "links ct1 = (links ct)(i \<mapsto> Linked j)" "links ct3 = (links ct)(i := None)"
    using links_upd [OF ct1(2)] links_upd [OF ct3(2)] by simp_all
  moreover have "ConnTable_process_inbound io pc sched scheds resumes registry ct w
      \<lparr>header = Reject i reason, body = bs\<rparr> = outcome_map (\<lambda>w. (ct3, w, None)) (drop_channel io scheds (sock_channel s) ?w3)"
    using ct3(1) assms(4) nak(1)
    by (cases "drop_channel io scheds (sock_channel s) ?w3")
      (simp_all add: ConnTable_process_inbound_def ConnTable_reject_def send_rsp_def)
  moreover have "Connector_connect_recv io scheds' [Pending] c chan ?w1 =
      Done (?w1\<lparr>oneshot_at := (oneshot_at ?w1)(rsp c := ob)\<rparr>, Ready (Ok chan))"
    "Connector_connect_recv io scheds' [Pending] c chan ?w3 =
      outcome_map (\<lambda>w. (w, Ready (Err (Nak reason))))
        (drop_client_chan io scheds' chan (?w3\<lparr>oneshot_at := (oneshot_at ?w3)(rsp c := od)\<rparr>))"
    using ack(2) nak(2) by (simp_all add: Connector_connect_recv_def)
  moreover have "ConnTable_process_inbound io pc sched scheds resumes registry ct w
      \<lparr>header = Ack j i, body = bs\<rparr> = Done (ct1, ?w1, None)"
    using ct1(1) by (simp add: ConnTable_process_inbound_def)
  moreover have "os_sim (oneshot_at (?w1\<lparr>oneshot_at := (oneshot_at ?w1)(rsp c := ob)\<rparr>) (rsp c)) (Idle False, False)"
    using ack(3) by simp
  ultimately show ?thesis using nak(3) by blast
qed

lemma waiting_oneshot_sim: "os_sim waiting_oneshot (Waiting True, True)"
  by (simp add: os_sim_def waiting_oneshot_def flag_values)

theorem connect_answered_witness:
  "\<exists>ct1 w1 w2. ConnTable_process_inbound bitmap_ops wire_codec [] [] [] (\<lambda>_ _ w. Done (w, Err NotFound))
      pending_table pending_world \<lparr>header = Ack 6 1, body = []\<rparr> = Done (ct1, w1, None) \<and>
    Connector_connect_recv bitmap_ops [] [Pending] \<lparr>hello_sharer = 4, rsp = 3\<rparr> (client_chan sample_channels) w1 =
      Done (w2, Ready (Ok (client_chan sample_channels)))"
proof -
  have t: "table_ok pending_table" using first_inv by (simp add: table_ok_def pending_table_def)
  have s: "sockets pending_table 1 = Some \<lparr>sock_state = Connecting 3, sock_channel = sample_chan\<rparr>"
    by (simp add: sockets_def Entries_get_def Id_to_index_def pending_table_def)
  have o: "os_sim (oneshot_at pending_world (rsp \<lparr>hello_sharer = 4, rsp = 3\<rparr>)) (Waiting True, True)"
    by (simp add: pending_world_def waiting_oneshot_sim)
  from connect_answered [OF t _ s _ o, of bitmap_ops wire_codec "[]" "[]" "[]" "\<lambda>_ _ w. Done (w, Err NotFound)" 6 "[]" "[]"
      "client_chan sample_channels" NotFound] show ?thesis by simp blast
qed

text \<open>
  An abandoned attempt poisons its connector: if a call of \<open>connect\<close> is cancelled while it waits
  for its answer, the next call of \<open>connect\<close> panics, as the sender of the first attempt is still
  with the interface and \<open>sender()\<close> is unwrapped.
\<close>

theorem reconnect_after_cancel_panics:
  assumes "index_alloc io fr" and "pipe_inv fr H p" and "elem_type p = t" and "\<not> rx_closed p"
    and "fr (indices p) \<noteq> {}"
    and "sb_state (box_at w (hello_sharer c)) = HAS_SHARER" and "sb_memory (box_at w (hello_sharer c)) \<noteq> Freed"
    and "os_sim (oneshot_at w (rsp c)) (Waiting b, True)"
  shows "Connector_connect_send io scheds t resumes boxes (Suc fuel) sched c uuid kind hello chans p w = Panic"
proof -
  obtain k q where "Sender_reserve io t resumes p = Done (q, Ok k)"
    by (rule Sender_reserve_room [OF assms(1-5)])
  moreover obtain o2 where
    "OneshotReceiver_sender (Suc fuel) (oneshot_at w (rsp c)) = Done (o2, Err SenderError_SenderAlreadyActive)"
    using take_sender_active [OF assms(8)] by blast
  ultimately show ?thesis using share_ready [OF assms(6,7)] by (simp add: Connector_connect_send_def)
qed

theorem reconnect_after_cancel_panics_witness:
  "Connector_connect_send bitmap_ops [] 1 [] [] 1 [True] \<lparr>hello_sharer = 4, rsp = 3\<rparr> 1
     (IdentityKind_Name ''echo'') (5, 9) sample_channels sample_conns
     (ready_world\<lparr>oneshot_at := (\<lambda>_. waiting_oneshot)\<rparr>) = Panic"
  using reconnect_after_cancel_panics [OF bitmap_index_alloc sample_conns_inv(1) sample_conns_type
      sample_conns_inv(2) sample_conns_free, of "ready_world\<lparr>oneshot_at := (\<lambda>_. waiting_oneshot)\<rparr>"
      "\<lparr>hello_sharer = 4, rsp = 3\<rparr>" True "[]" "[]" "[]" 0]
  by (simp add: waiting_oneshot_sim ready_world_def SerBox_new_def)

end
