(* ===== verification/Req_Rsp_Spec.thy ===== *)
theory Req_Rsp_Spec
  imports Req_Rsp Client_Properties
begin

section \<open>Requests get their responses\<close>

text \<open>
  What the client relies on of its wait map, stated with two observations: \<open>waiters s k\<close> is the
  waiter registered under \<open>k\<close>, with the value it was woken with, if it was, and \<open>shut s\<close> says
  whether the map is closed. Whether a number can be registered again while its waiter has been
  woken but not polled is left open.
\<close>

declare Core_reserve.simps [simp del] Core_poll_dequeue.simps [simp del]

definition enqueue_law :: "('s, 'r) wait_map \<Rightarrow> ('s \<Rightarrow> usize \<rightharpoonup> 'r option) \<Rightarrow> ('s \<Rightarrow> bool) \<Rightarrow> bool" where
  "enqueue_law wm waiters shut \<longleftrightarrow>
     (\<forall>s k s' r. wm_enqueue wm s k = (s', r) \<longrightarrow>
        shut s' = shut s \<and>
        (if shut s then r = Err WaitError_Closed \<and> waiters s' = waiters s
         else case waiters s k of
                None \<Rightarrow> r = Ok () \<and> waiters s' = (waiters s)(k \<mapsto> None)
              | Some None \<Rightarrow> r = Err WaitError_Duplicate \<and> waiters s' = waiters s
              | Some (Some _) \<Rightarrow> r = Ok () \<or> r = Err WaitError_Duplicate \<and> waiters s' = waiters s))"

definition wake_law :: "('s, 'r) wait_map \<Rightarrow> ('s \<Rightarrow> usize \<rightharpoonup> 'r option) \<Rightarrow> ('s \<Rightarrow> bool) \<Rightarrow> bool" where
  "wake_law wm waiters shut \<longleftrightarrow>
     (\<forall>s k v s' out. wm_wake wm s k v = (s', out) \<longrightarrow>
        shut s' = shut s \<and>
        (if shut s then out = WakeOutcome_Closed v
         else if waiters s k = Some None then out = Woke \<and> waiters s' = (waiters s)(k \<mapsto> Some v)
         else out = NoMatch v \<and> waiters s' = waiters s))"

definition poll_law :: "('s, 'r) wait_map \<Rightarrow> ('s \<Rightarrow> usize \<rightharpoonup> 'r option) \<Rightarrow> ('s \<Rightarrow> bool) \<Rightarrow> bool" where
  "poll_law wm waiters shut \<longleftrightarrow>
     (\<forall>s k x. waiters s k = Some x \<longrightarrow>
        (case x of
           Some v \<Rightarrow> snd (wm_poll wm s k) = Ready (Ok v)
         | None \<Rightarrow> if shut s then snd (wm_poll wm s k) = Ready (Err WaitError_Closed)
                   else wm_poll wm s k = (s, Pending)))"

definition wait_map_ok :: "('s, 'r) wait_map \<Rightarrow> ('s \<Rightarrow> usize \<rightharpoonup> 'r option) \<Rightarrow> ('s \<Rightarrow> bool) \<Rightarrow> bool" where
  "wait_map_ok wm waiters shut \<longleftrightarrow>
     enqueue_law wm waiters shut \<and> wake_law wm waiters shut \<and> poll_law wm waiters shut \<and>
     (\<forall>s. shut (wm_close wm s) \<and> waiters (wm_close wm s) = waiters s) \<and>
     waiters (wm_new wm) = Map.empty \<and> \<not> shut (wm_new wm)"

lemma wait_map_enqueue:
  assumes "wait_map_ok wm waiters shut" and "wm_enqueue wm s k = (s', r)" and "\<not> shut s"
  shows "\<not> shut s'" "waiters s k = None \<Longrightarrow> r = Ok () \<and> waiters s' = (waiters s)(k \<mapsto> None)"
    "r = Ok () \<or> r = Err WaitError_Duplicate \<and> waiters s' = waiters s \<and> waiters s k \<noteq> None"
proof -
  have "enqueue_law wm waiters shut" using assms(1) by (simp add: wait_map_ok_def)
  note this [unfolded enqueue_law_def, rule_format, OF assms(2)]
  with assms(3) have law: "shut s' = shut s" "case waiters s k of
      None \<Rightarrow> r = Ok () \<and> waiters s' = (waiters s)(k \<mapsto> None)
    | Some None \<Rightarrow> r = Err WaitError_Duplicate \<and> waiters s' = waiters s
    | Some (Some _) \<Rightarrow> r = Ok () \<or> r = Err WaitError_Duplicate \<and> waiters s' = waiters s"
    by simp_all
  from law(1) assms(3) show "\<not> shut s'" by simp
  from law(2) show "waiters s k = None \<Longrightarrow> r = Ok () \<and> waiters s' = (waiters s)(k \<mapsto> None)"
    "r = Ok () \<or> r = Err WaitError_Duplicate \<and> waiters s' = waiters s \<and> waiters s k \<noteq> None"
    by (auto split: option.splits)
qed

lemma enqueue_registered:
  assumes "wait_map_ok wm waiters shut" and "wm_enqueue wm s k = (s', Ok ())" and "\<not> shut s"
  shows "waiters s k \<noteq> Some None"
proof
  assume w: "waiters s k = Some None"
  have "enqueue_law wm waiters shut" using assms(1) by (simp add: wait_map_ok_def)
  from this [unfolded enqueue_law_def, rule_format, OF assms(2)] w assms(3) show False by simp
qed

lemma wait_map_wake:
  assumes "wait_map_ok wm waiters shut" and "wm_wake wm s k v = (s', out)"
  shows "shut s' = shut s" "shut s \<Longrightarrow> out = WakeOutcome_Closed v"
    "\<not> shut s \<Longrightarrow> (if waiters s k = Some None then out = Woke \<and> waiters s' = (waiters s)(k \<mapsto> Some v)
      else out = NoMatch v \<and> waiters s' = waiters s)"
proof -
  have "wake_law wm waiters shut" using assms(1) by (simp add: wait_map_ok_def)
  with assms(2) have "shut s' = shut s \<and>
      (if shut s then out = WakeOutcome_Closed v
       else if waiters s k = Some None then out = Woke \<and> waiters s' = (waiters s)(k \<mapsto> Some v)
       else out = NoMatch v \<and> waiters s' = waiters s)"
    unfolding wake_law_def by blast
  then show "shut s' = shut s" "shut s \<Longrightarrow> out = WakeOutcome_Closed v"
    "\<not> shut s \<Longrightarrow> (if waiters s k = Some None then out = Woke \<and> waiters s' = (waiters s)(k \<mapsto> Some v)
      else out = NoMatch v \<and> waiters s' = waiters s)"
    by simp_all
qed

lemma wait_map_poll:
  assumes "wait_map_ok wm waiters shut" and "waiters s k = Some x"
  shows "case x of
      Some v \<Rightarrow> snd (wm_poll wm s k) = Ready (Ok v)
    | None \<Rightarrow> if shut s then snd (wm_poll wm s k) = Ready (Err WaitError_Closed)
              else wm_poll wm s k = (s, Pending)"
proof -
  have "poll_law wm waiters shut" using assms(1) by (simp add: wait_map_ok_def)
  with assms(2) show ?thesis unfolding poll_law_def by blast
qed

lemma wait_map_close:
  assumes "wait_map_ok wm waiters shut"
  shows "shut (wm_close wm s)" "waiters (wm_close wm s) = waiters s"
  using assms unfolding wait_map_ok_def by blast+

text \<open>A wait map for examples: the waiters and the closed flag themselves.\<close>

type_synonym 'r sample_map = "(usize \<rightharpoonup> 'r option) \<times> bool"

definition sample_wait_map :: "('r sample_map, 'r) wait_map" where
  "sample_wait_map = \<lparr>wm_new = (Map.empty, False),
     wm_enqueue = (\<lambda>(m, c) k. if c then ((m, c), Err WaitError_Closed)
       else if m k = None then ((m(k \<mapsto> None), c), Ok ()) else ((m, c), Err WaitError_Duplicate)),
     wm_poll = (\<lambda>(m, c) k. case m k of
         Some (Some v) \<Rightarrow> ((m(k := None), c), Ready (Ok v))
       | _ \<Rightarrow> if c then ((m, c), Ready (Err WaitError_Closed)) else ((m, c), Pending)),
     wm_wake = (\<lambda>(m, c) k v. if c then ((m, c), WakeOutcome_Closed v)
       else if m k = Some None then ((m(k \<mapsto> Some v), c), Woke) else ((m, c), NoMatch v)),
     wm_close = (\<lambda>(m, c). (m, True))\<rparr>"

lemma sample_wait_map_ok: "wait_map_ok sample_wait_map fst snd"
  by (auto simp: wait_map_ok_def enqueue_law_def wake_law_def poll_law_def sample_wait_map_def
    split: option.splits if_splits)

subsection \<open>The numbering loop\<close>

lemma request_loop_next:
  assumes "wait_map_ok wm waiters shut" and "\<not> shut (cl_dispatcher c)"
    and "wm_enqueue wm (cl_dispatcher c) (cl_seq c) = (d, r)" and "r \<noteq> Ok ()"
  shows "request_loop wm io t sched (Suc fuel) c permit b =
    request_loop wm io t sched fuel (c\<lparr>cl_seq := cl_seq c + 1, cl_dispatcher := d\<rparr>) permit b"
    and "waiters d = waiters (cl_dispatcher c)" "\<not> shut d" "waiters (cl_dispatcher c) (cl_seq c) \<noteq> None"
proof -
  have r: "r = Err WaitError_Duplicate" "waiters d = waiters (cl_dispatcher c)" "\<not> shut d"
    "waiters (cl_dispatcher c) (cl_seq c) \<noteq> None"
    using wait_map_enqueue [OF assms(1,3,2)] assms(4) by auto
  then show "waiters d = waiters (cl_dispatcher c)" "\<not> shut d" "waiters (cl_dispatcher c) (cl_seq c) \<noteq> None"
    by simp_all
  from r(1) assms(3) show "request_loop wm io t sched (Suc fuel) c permit b =
      request_loop wm io t sched fuel (c\<lparr>cl_seq := cl_seq c + 1, cl_dispatcher := d\<rparr>) permit b"
    by (simp add: handle_wait_error_def Let_def)
qed

lemma request_loop_found:
  assumes "wm_enqueue wm (cl_dispatcher c) (cl_seq c) = (d, Ok ())"
  shows "request_loop wm io t sched (Suc fuel) c permit b =
    outcome_map (\<lambda>p. (c\<lparr>cl_seq := cl_seq c + 1, cl_dispatcher := d, cl_tx := p\<rparr>, Ok (cl_seq c)))
      (Permit_send sched (cl_tx c) permit \<lparr>rq_seq = cl_seq c, rq_body = b\<rparr>)"
  using assms by (simp add: Let_def)

declare request_loop.simps [simp del]

text \<open>The loop tries consecutive numbers; it ends at the latest at one that has no waiter.\<close>

lemma request_loop_finds:
  assumes "wait_map_ok wm waiters shut" and "\<not> shut (cl_dispatcher c)" and "n < fuel"
    and "waiters (cl_dispatcher c) (cl_seq c + of_nat n) = None"
  shows "\<exists>d seq. request_loop wm io t sched fuel c permit b =
      outcome_map (\<lambda>p. (c\<lparr>cl_seq := seq + 1, cl_dispatcher := d, cl_tx := p\<rparr>, Ok seq))
        (Permit_send sched (cl_tx c) permit \<lparr>rq_seq = seq, rq_body = b\<rparr>) \<and>
    waiters (cl_dispatcher c) seq \<noteq> Some None \<and>
    (waiters (cl_dispatcher c) seq = None \<longrightarrow>
       waiters d = (waiters (cl_dispatcher c))(seq \<mapsto> None) \<and> \<not> shut d)"
  using assms(2-4)
proof (induction n arbitrary: c fuel)
  case (0 c fuel)
  then obtain fuel' where f: "fuel = Suc fuel'" by (cases fuel) auto
  obtain d r where e: "wm_enqueue wm (cl_dispatcher c) (cl_seq c) = (d, r)" by fastforce
  with wait_map_enqueue [OF assms(1) e 0(1)] 0(3) show ?case
    unfolding f by (intro exI [of _ d] exI [of _ "cl_seq c"]) (simp add: request_loop_found)
next
  case (Suc n c fuel)
  then obtain fuel' where f: "fuel = Suc fuel'" "n < fuel'" by (cases fuel) auto
  obtain d r where e: "wm_enqueue wm (cl_dispatcher c) (cl_seq c) = (d, r)" by fastforce
  show ?case
  proof (cases "r = Ok ()")
    case True
    with e wait_map_enqueue [OF assms(1) e Suc.prems(1)] enqueue_registered [OF assms(1), of "cl_dispatcher c" "cl_seq c" d] Suc.prems(1)
    show ?thesis unfolding f by (intro exI [of _ d] exI [of _ "cl_seq c"]) (simp add: request_loop_found)
  next
    case False
    note nx = request_loop_next [OF assms(1) Suc.prems(1) e False]
    let ?c = "c\<lparr>cl_seq := cl_seq c + 1, cl_dispatcher := d\<rparr>"
    have free: "waiters (cl_dispatcher ?c) (cl_seq ?c + of_nat n) = None"
      using Suc.prems(3) nx(2) by (simp add: add.assoc)
    have "\<not> shut (cl_dispatcher ?c)" using nx(3) by simp
    from Suc.IH [OF this f(2) free] show ?thesis unfolding f nx(1) using nx(2) by simp
  qed
qed

lemma free_number:
  assumes "finite A" and "card A < 2 ^ 64"
  shows "\<exists>n \<le> card A. (s :: usize) + of_nat n \<notin> A"
proof (rule ccontr)
  assume "\<not> ?thesis"
  then have sub: "(\<lambda>n. s + of_nat n) ` {..card A} \<subseteq> A" by auto
  have "inj_on (\<lambda>n. s + of_nat n :: usize) {..card A}"
  proof (rule inj_onI)
    fix x y assume "x \<in> {..card A}" "y \<in> {..card A}" "s + of_nat x = s + (of_nat y :: usize)"
    then have "x < 2 ^ 64" "y < 2 ^ 64" "(of_nat x :: usize) = of_nat y" using assms(2) by auto
    moreover have "unat (of_nat z :: usize) = z" if "z < 2 ^ 64" for z using that by (simp add: unat_of_nat)
    ultimately show "x = y" by metis
  qed
  from card_inj_on_le [OF this sub assms(1)] show False by simp
qed

subsection \<open>Sending requests and delivering responses\<close>

text \<open>
  C25: A request always finds a number: as long as fewer than \<open>2 ^ 64\<close> waiters are registered and the
  client is not shut down, the loop of \<open>request\<close> ends after at most one attempt more than there
  are waiters; the request is queued with a number that no other unanswered request has, and the
  counter moves past it, wrapping at \<open>2 ^ 64\<close>.
\<close>

theorem request_terminates:
  assumes wm: "wait_map_ok wm waiters shut" and io: "index_alloc io fr"
    and p: "pipe_inv fr H (cl_tx c)" "elem_type (cl_tx c) = t" "\<not> rx_closed (cl_tx c)" "fr (indices (cl_tx c)) \<noteq> {}"
    and "True \<in> set sched" and "\<not> shut (cl_dispatcher c)"
    and "finite (dom (waiters (cl_dispatcher c)))" and "card (dom (waiters (cl_dispatcher c))) < fuel"
    and "fuel \<le> 2 ^ 64"
  shows "\<exists>c' seq. Client_request wm io t resumes sched fuel c b = Done (c', Ok seq) \<and>
    waiters (cl_dispatcher c) seq \<noteq> Some None \<and> cl_seq c' = seq + 1 \<and>
    pipe_messages (cl_tx c') = pipe_messages (cl_tx c) @ [\<lparr>rq_seq = seq, rq_body = b\<rparr>] \<and>
    (waiters (cl_dispatcher c) seq = None \<longrightarrow>
       waiters (cl_dispatcher c') = (waiters (cl_dispatcher c))(seq \<mapsto> None) \<and> \<not> shut (cl_dispatcher c'))"
proof -
  obtain i q where q: "Sender_reserve io t resumes (cl_tx c) = Done (q, Ok i)" "unat i \<notin> H"
    "pipe_inv fr (insert (unat i) H) q" "pipe_messages q = pipe_messages (cl_tx c)" "pipe_same (cl_tx c) q"
    by (rule Sender_reserve_room [OF io p])
  let ?c = "c\<lparr>cl_tx := q\<rparr>"
  have op: "\<not> rx_closed q" using q(5) p(3) by (simp add: pipe_same_def)
  obtain n where n: "n \<le> card (dom (waiters (cl_dispatcher c)))"
    "cl_seq c + of_nat n \<notin> dom (waiters (cl_dispatcher c))"
    using free_number [OF assms(9), of "cl_seq c"] assms(10,11) by auto
  have run: "Client_request wm io t resumes sched fuel c b = request_loop wm io t sched fuel ?c i b"
    using q(1) by (simp add: Client_request_def)
  have nf: "n < fuel" using n(1) assms(10) by simp
  have free: "waiters (cl_dispatcher ?c) (cl_seq ?c + of_nat n) = None" using n(2) by (simp add: domIff)
  have "\<exists>d seq. request_loop wm io t sched fuel ?c i b =
      outcome_map (\<lambda>p. (?c\<lparr>cl_seq := seq + 1, cl_dispatcher := d, cl_tx := p\<rparr>, Ok seq))
        (Permit_send sched q i \<lparr>rq_seq = seq, rq_body = b\<rparr>) \<and>
      waiters (cl_dispatcher c) seq \<noteq> Some None \<and>
      (waiters (cl_dispatcher c) seq = None \<longrightarrow>
         waiters d = (waiters (cl_dispatcher c))(seq \<mapsto> None) \<and> \<not> shut d)"
    using request_loop_finds [OF wm _ nf free] assms(8) by simp
  then obtain d seq where "request_loop wm io t sched fuel ?c i b =
      outcome_map (\<lambda>p. (?c\<lparr>cl_seq := seq + 1, cl_dispatcher := d, cl_tx := p\<rparr>, Ok seq))
        (Permit_send sched q i \<lparr>rq_seq = seq, rq_body = b\<rparr>) \<and>
      waiters (cl_dispatcher c) seq \<noteq> Some None \<and>
      (waiters (cl_dispatcher c) seq = None \<longrightarrow>
         waiters d = (waiters (cl_dispatcher c))(seq \<mapsto> None) \<and> \<not> shut d)"
    by (elim exE)
  note loop = conjunct1 [OF this] conjunct2 [OF this]
  obtain p' where "Permit_send sched q i \<lparr>rq_seq = seq, rq_body = b\<rparr> = Done p'"
    "pipe_messages p' = pipe_messages q @ [\<lparr>rq_seq = seq, rq_body = b\<rparr>]"
    using Permit_send_open [OF q(3), of i sched] op assms(7) by auto
  with run loop q(4) show ?thesis by auto
qed

text \<open>A client whose channel is a fresh pair of pipes, with one request under way, number 0.\<close>

definition request_pipe :: "(Reset, usize, nat Request) pipe" where
  "request_pipe =
     \<lparr>dequeue_pos = 0, cons_wait = [], enqueue_pos = 0, prod_wait = [],
      indices = ia_with_capacity bitmap_ops 4,
      queue = map (\<lambda>i. push_bit POS_SHIFT (of_nat i)) [0..<64], state = TX_ONE, capacity = 4,
      error = None, elements = replicate 4 None, elem_type = 7, elem_type_name = ''Request'',
      storage = Arc 1, dropped = []\<rparr>"

definition response_pipe :: "(Reset, usize, string Response) pipe" where
  "response_pipe =
     \<lparr>dequeue_pos = 0, cons_wait = [], enqueue_pos = 0, prod_wait = [],
      indices = ia_with_capacity bitmap_ops 4,
      queue = map (\<lambda>i. push_bit POS_SHIFT (of_nat i)) [0..<64], state = TX_ONE, capacity = 4,
      error = None, elements = replicate 4 None, elem_type = 8, elem_type_name = ''Response'',
      storage = Arc 1, dropped = []\<rparr>"

definition sample_client :: "(string sample_map, usize, nat, string) client" where
  "sample_client = (Client_new sample_wait_map request_pipe response_pipe)\<lparr>
     cl_seq := 1, cl_dispatcher := (Map.empty(0 \<mapsto> None), False), has_dispatcher := True\<rparr>"

lemma request_pipe_new: "TrickyPipe_new bitmap_ops 7 ''Request'' 4 = Done request_pipe"
  by (simp add: TrickyPipe_new_def Core_new_def MAX_CAPACITY_def core.defs request_pipe_def)

lemma request_pipe_inv: "pipe_inv bitmap_free {} request_pipe" "\<not> rx_closed request_pipe"
    "pipe_messages request_pipe = []" "elem_type request_pipe = 7" "bitmap_free (indices request_pipe) \<noteq> {}"
    "\<not> errored request_pipe"
proof -
  show "pipe_inv bitmap_free {} request_pipe"
    using initial_inv(1) [OF bitmap_index_alloc request_pipe_new]
    by (simp add: system_inv_def live_inv_def initial_def handles_def held_def)
  show "\<not> rx_closed request_pipe" "pipe_messages request_pipe = []" "elem_type request_pipe = 7"
    by (simp_all add: rx_closed_def pipe_messages_def Core_queued_def Core_head_def Core_tail_def request_pipe_def)
  have "bitmap_free (ia_with_capacity bitmap_ops 4) = {..<4}"
    using bitmap_index_alloc by (simp add: index_alloc_def)
  then show "bitmap_free (indices request_pipe) \<noteq> {}" by (simp add: request_pipe_def lessThan_empty_iff)
  show "\<not> errored request_pipe" by (simp add: request_pipe_def errored_def TX_ONE_value)
qed

theorem request_terminates_witness:
  "\<exists>c' seq. Client_request sample_wait_map bitmap_ops 7 [] [True] 5 sample_client 9 = Done (c', Ok seq) \<and>
    seq \<noteq> 0 \<and> pipe_messages (cl_tx c') = [\<lparr>rq_seq = seq, rq_body = 9\<rparr>]"
proof -
  have "\<exists>c' seq. Client_request sample_wait_map bitmap_ops 7 [] [True] 5 sample_client 9 = Done (c', Ok seq) \<and>
    fst (cl_dispatcher sample_client) seq \<noteq> Some None \<and> cl_seq c' = seq + 1 \<and>
    pipe_messages (cl_tx c') = pipe_messages (cl_tx sample_client) @ [\<lparr>rq_seq = seq, rq_body = 9\<rparr>] \<and>
    (fst (cl_dispatcher sample_client) seq = None \<longrightarrow>
       fst (cl_dispatcher c') = (fst (cl_dispatcher sample_client))(seq \<mapsto> None) \<and> \<not> snd (cl_dispatcher c'))"
    by (rule request_terminates [OF sample_wait_map_ok bitmap_index_alloc, of "{}"])
      (simp_all add: sample_client_def Client_new_def request_pipe_inv)
  moreover have "pipe_messages (cl_tx sample_client) = []" "fst (cl_dispatcher sample_client) 0 = Some None"
    by (simp_all add: sample_client_def Client_new_def request_pipe_inv)
  ultimately show ?thesis by (metis append_Nil)
qed

fun dispatch_all :: "('s, 'r) wait_map \<Rightarrow> 'r Response list \<Rightarrow> ('s, 'ia, 'q, 'r) client \<Rightarrow> ('s, 'ia, 'q, 'r) client outcome" where
  "dispatch_all wm [] c = Done c"
| "dispatch_all wm (msg # msgs) c = outcome_bind (dispatch_wake wm msg c) (dispatch_all wm msgs)"

lemma dispatch_wake_step:
  assumes "wait_map_ok wm waiters shut" and "\<not> shut (cl_dispatcher c)"
  shows "\<exists>d. dispatch_wake wm msg c = Done (c\<lparr>cl_dispatcher := d\<rparr>) \<and> \<not> shut d \<and>
    waiters d = (if waiters (cl_dispatcher c) (rs_seq msg) = Some None
      then (waiters (cl_dispatcher c))(rs_seq msg \<mapsto> Some (rs_body msg)) else waiters (cl_dispatcher c))"
proof -
  obtain d out where w: "wm_wake wm (cl_dispatcher c) (rs_seq msg) (rs_body msg) = (d, out)" by fastforce
  from wait_map_wake [OF assms(1) w] assms(2) w show ?thesis
    by (auto simp: dispatch_wake_def split: if_splits)
qed

lemma dispatch_all_waiter:
  assumes "wait_map_ok wm waiters shut" and "\<not> shut (cl_dispatcher c)"
    and "waiters (cl_dispatcher c) k = Some x"
  shows "\<exists>d. dispatch_all wm msgs c = Done (c\<lparr>cl_dispatcher := d\<rparr>) \<and> \<not> shut d \<and>
    waiters d k = Some (case x of
        Some v \<Rightarrow> Some v | None \<Rightarrow> map_option rs_body (find (\<lambda>m. rs_seq m = k) msgs))"
  using assms(2,3)
proof (induction msgs arbitrary: c x)
  case Nil
  then show ?case by (intro exI [of _ "cl_dispatcher c"]) (simp split: option.split)
next
  case (Cons msg msgs)
  from dispatch_wake_step [OF assms(1) Cons.prems(1), of msg] obtain d where
    d: "dispatch_wake wm msg c = Done (c\<lparr>cl_dispatcher := d\<rparr>)" "\<not> shut d"
      "waiters d = (if waiters (cl_dispatcher c) (rs_seq msg) = Some None
        then (waiters (cl_dispatcher c))(rs_seq msg \<mapsto> Some (rs_body msg)) else waiters (cl_dispatcher c))"
    by blast
  let ?y = "if rs_seq msg = k \<and> x = None then Some (rs_body msg) else x"
  have "waiters (cl_dispatcher (c\<lparr>cl_dispatcher := d\<rparr>)) k = Some ?y" using d(3) Cons.prems(2) by auto
  from Cons.IH [OF _ this] d(1,2) show ?case by (auto split: option.splits if_splits)
qed

text \<open>
  C24: A request gets its own response: of all the responses the dispatcher receives after a request
  was registered, the request returns the body of the first one that carries its number, and
  stays pending if there is none; responses for other or unknown numbers do not disturb it.
\<close>

theorem request_gets_its_response:
  assumes "wait_map_ok wm waiters shut" and "\<not> shut (cl_dispatcher c)"
    and "waiters (cl_dispatcher c) k = Some None"
  shows "\<exists>c1 c2. dispatch_all wm msgs c = Done c1 \<and>
    request_poll wm io t c1 k = Done (c2,
      case find (\<lambda>m. rs_seq m = k) msgs of Some m \<Rightarrow> Ready (Ok (rs_body m)) | None \<Rightarrow> Pending)"
proof -
  from dispatch_all_waiter [OF assms] obtain d where
    d: "dispatch_all wm msgs c = Done (c\<lparr>cl_dispatcher := d\<rparr>)" "\<not> shut d"
      "waiters d k = Some (map_option rs_body (find (\<lambda>m. rs_seq m = k) msgs))" by auto
  obtain d' res where p: "wm_poll wm d k = (d', res)" by fastforce
  from wait_map_poll [OF assms(1) d(3)] d p show ?thesis
    by (auto simp: request_poll_def split: option.splits)
qed

theorem request_gets_its_response_witness:
  "\<exists>c1 c2. dispatch_all sample_wait_map [\<lparr>rs_seq = 7, rs_body = ''lost''\<rparr>, \<lparr>rs_seq = 0, rs_body = ''pong''\<rparr>]
      sample_client = Done c1 \<and>
    request_poll sample_wait_map bitmap_ops 7 c1 0 = Done (c2, Ready (Ok ''pong''))"
  using request_gets_its_response [OF sample_wait_map_ok, of sample_client 0
    "[\<lparr>rs_seq = 7, rs_body = ''lost''\<rparr>, \<lparr>rs_seq = 0, rs_body = ''pong''\<rparr>]" bitmap_ops 7]
  by (simp add: sample_client_def)

subsection \<open>The end of a connection\<close>

lemma closed_channel_reason:
  assumes "core_inv p" and "\<not> errored p" and "p' = fst (Core_close_with_error p e)"
  shows "Sender_try_reserve io t p' = Done (p', Err (TrySendError_Error () e))"
    and "Core_reserve io resumes p' = Done (p', Err (SendError_Error () e))"
proof -
  note F = close_with_error_first [OF assms(1,2), of e, folded assms(3)]
  have "core_inv p'" unfolding assms(3) by (rule Core_close_with_error_inv [OF assms(1)])
  from close_reason_iff [OF this] F(4,5) have "Core_close_reason p' = Some e" by simp
  with F(3) have r: "Core_try_reserve io p' = (p', Err (TrySendError_Error () e))" by (simp add: try_reserve_cases)
  then show "Sender_try_reserve io t p' = Done (p', Err (TrySendError_Error () e))"
    by (simp add: Sender_try_reserve_def)
  from r show "Core_reserve io resumes p' = Done (p', Err (SendError_Error () e))"
    by (subst Core_reserve.simps) simp
qed

lemma closed_client_fails:
  assumes "wait_map_ok wm waiters shut" and "core_inv p" and "\<not> errored p"
    and "cl_tx c = fst (Core_close_with_error p e)" and "shut (cl_dispatcher c)"
    and "waiters (cl_dispatcher c) k = Some None"
  shows "\<exists>c'. request_poll wm io t c k = Done (c', Ready (Err e))"
    and "\<exists>c'. Client_request wm io t resumes sched fuel c b = Done (c', Err e)"
proof -
  note reason = closed_channel_reason [OF assms(2,3,4)]
  obtain d res where p: "wm_poll wm (cl_dispatcher c) k = (d, res)" by fastforce
  from wait_map_poll [OF assms(1,6)] assms(5) p have "res = Ready (Err WaitError_Closed)" by simp
  with p reason(1) show "\<exists>c'. request_poll wm io t c k = Done (c', Ready (Err e))"
    by (auto simp: request_poll_def handle_wait_error_def)
  from reason(2) show "\<exists>c'. Client_request wm io t resumes sched fuel c b = Done (c', Err e)"
    by (auto simp: Client_request_def Sender_reserve_def)
qed


definition reset_pipe :: "(Reset, usize, string Response) pipe" where
  "reset_pipe = fst (Core_close_with_error response_pipe GoAway)"

lemma polled_errorD:
  assumes "case x of Done (p, Ready (Err e)) \<Rightarrow> e = e' | _ \<Rightarrow> False"
  shows "\<exists>p. x = Done (p, Ready (Err e'))"
proof (cases x)
  case (Done y)
  obtain p r where y: "y = (p, r)" by fastforce
  with assms Done obtain v where r: "r = Ready v" by (cases r) auto
  with assms Done y show ?thesis by (cases v) auto
qed (use assms in auto)

lemma polled_okD:
  assumes "case x of Done (p, Ready (Ok v)) \<Rightarrow> True | _ \<Rightarrow> False"
  shows "\<exists>p v. x = Done (p, Ready (Ok v))"
proof (cases x)
  case (Done y)
  obtain p r where y: "y = (p, r)" by fastforce
  with assms Done obtain v where r: "r = Ready v" by (cases r) auto
  with assms Done y show ?thesis by (cases v) auto
qed (use assms in auto)

lemma reset_pipe_poll:
  "\<exists>p. Recv_poll bitmap_ops 8 [True] [] reset_pipe = Done (p, Ready (Err (RecvError_Error GoAway)))"
proof -
  have "case Recv_poll bitmap_ops 8 [True] [] reset_pipe of
      Done (p, Ready (Err e)) \<Rightarrow> e = RecvError_Error GoAway | _ \<Rightarrow> False"
    by code_simp
  then show ?thesis by (rule polled_errorD)
qed


text \<open>
  \<open>shutdown\<close> races with the dispatcher: if it runs after the dispatcher has taken a response
  from the channel and before it has delivered it, the delivery meets a closed map and the
  \<open>unreachable!\<close> of the dispatcher panics.
\<close>

theorem shutdown_race_panics:
  assumes "wait_map_ok wm waiters shut"
    and "dispatch_recv wm io t sched polls c = Done (c1, Ready (Inr msg))"
  shows "dispatch_wake wm msg (Client_shutdown wm c1) = Panic"
proof -
  let ?s = "wm_close wm (cl_dispatcher c1)"
  obtain d out where w: "wm_wake wm ?s (rs_seq msg) (rs_body msg) = (d, out)" by fastforce
  with wait_map_wake(2) [OF assms(1) w] wait_map_close(1) [OF assms(1)] show ?thesis
    by (simp add: dispatch_wake_def Client_shutdown_def Client_close_channel_def Let_def case_prod_beta)
qed

lemma sample_dispatch_recv:
  "\<exists>p c1 msg. dispatch_recv sample_wait_map bitmap_ops 8 [True] [] (sample_client\<lparr>cl_rx := p\<rparr>) =
    Done (c1, Ready (Inr msg))"
proof -
  let ?msg = "\<lparr>rs_seq = 0, rs_body = ''pong''\<rparr>"
  have "case Sender_try_send bitmap_ops 8 [True] response_pipe ?msg of
      Done (p, _) \<Rightarrow> (case Recv_poll bitmap_ops 8 [True] [] p of Done (q, Ready (Ok msg)) \<Rightarrow> True | _ \<Rightarrow> False)
    | _ \<Rightarrow> False"
    by code_simp
  then obtain p :: "(Reset, usize, string Response) pipe" where
    "case Recv_poll bitmap_ops 8 [True] [] p of Done (q, Ready (Ok msg)) \<Rightarrow> True | _ \<Rightarrow> False"
    by (cases "Sender_try_send bitmap_ops 8 [True] response_pipe ?msg") auto
  from polled_okD [OF this] obtain q msg where "Recv_poll bitmap_ops 8 [True] [] p = Done (q, Ready (Ok msg))"
    by blast
  then have "dispatch_recv sample_wait_map bitmap_ops 8 [True] [] (sample_client\<lparr>cl_rx := p\<rparr>) =
      Done (sample_client\<lparr>cl_rx := q\<rparr>, Ready (Inr msg))"
    by (simp add: dispatch_recv_def sample_client_def Client_new_def)
  then show ?thesis by blast
qed

theorem shutdown_race_panics_witness:
  "\<exists>p c1 msg. dispatch_recv sample_wait_map bitmap_ops 8 [True] [] (sample_client\<lparr>cl_rx := p\<rparr>) =
      Done (c1, Ready (Inr msg)) \<and>
    dispatch_wake sample_wait_map msg (Client_shutdown sample_wait_map c1) = Panic"
  using sample_dispatch_recv shutdown_race_panics [OF sample_wait_map_ok] by blast

end
