(* ===== verification/End_To_End.thy ===== *)
theory End_To_End
  imports Client_Properties
begin

section \<open>From channel to channel over the wire\<close>

text \<open>
  The composition of the parts on two nodes: a message that a client has put into its channel is
  taken out by the connection table of its node, encoded, decoded by the interface of the other
  node and put into the channel of the matching socket.
\<close>

declare Core_reserve.simps [simp del] Core_poll_dequeue.simps [simp del]

subsection \<open>Which message goes out\<close>

lemma poll_dequeue_pending:
  assumes "core_wf p" and "True \<in> set sched" and "Core_poll_dequeue sched [Pending] p = Done (p', Pending)"
  shows "p' = p"
  using assms(3) try_dequeue_cases [OF assms(1,2)]
  by (auto simp: Core_poll_dequeue.simps [of sched "[Pending]" p] recv_closed_error_def
      split: list.split_asm if_split_asm option.split_asm)

lemma poll_dequeue_got:
  assumes "core_wf p" and "True \<in> set sched" and "Core_poll_dequeue sched [Pending] p = Done (p', Ready (Ok i))"
  shows "p' = Core_dequeued p \<and> Core_head p \<noteq> 1023 \<and> (\<exists>q. Core_queued p = i # q)"
  using assms(3) try_dequeue_cases [OF assms(1,2)]
  by (auto simp: Core_poll_dequeue.simps [of sched "[Pending]" p] recv_closed_error_def
      split: list.split_asm if_split_asm option.split_asm)

text \<open>The socket \<open>s\<close> has sent the oldest message of its channel, and nothing else has changed.\<close>

definition sent_from ::
  "socket \<Rightarrow> Id \<Rightarrow> ('ia, 'm) world \<Rightarrow> ('ia, 'm) world \<Rightarrow> OutboundFrame \<Rightarrow> bool" where
  "sent_from s l w w' f \<longleftrightarrow> (\<exists>r i q. let ch = sock_channel s; p = pipe_at w (bd_rx ch) in
     sock_state s = Open r \<and> Core_queued p = i # q \<and> Core_head p \<noteq> 1023 \<and>
     w' = w\<lparr>pipe_at := (pipe_at w)(bd_rx ch := Core_dequeued p)\<rparr> \<and>
     f = Frame_data r l (bd_rx ch) (bd_rx_type ch) i)"

lemma poll_sockets_data:
  assumes "True \<in> set sched"
    and "\<And>s r. Occupied s \<in> set es \<Longrightarrow> sock_state s = Open r \<Longrightarrow> core_wf (pipe_at w (bd_rx (sock_channel s)))"
    and "poll_sockets sched (\<lambda>_. [Pending]) idx es w = Done (w', dead, Ready f)" and "header f = Data l r"
  shows "\<exists>k s. k < length es \<and> es ! k = Occupied s \<and> Id_from_index (idx + k) = Done l \<and> sent_from s l w w' f"
  using assms(2,3)
proof (induction es arbitrary: idx)
  case (Cons e es)
  have skip: ?case if "poll_sockets sched (\<lambda>_. [Pending]) (Suc idx) es w = Done (w', dead, Ready f)"
  proof -
    from Cons.IH [OF _ that] Cons.prems(1) obtain k s where "k < length es" "es ! k = Occupied s"
      "Id_from_index (Suc idx + k) = Done l" "sent_from s l w w' f" by auto
    then show ?thesis by (intro exI [of _ "Suc k"] exI [of _ s]) simp
  qed
  show ?case
  proof (cases "Entry_socket e")
    case None
    with Cons.prems(2) skip show ?thesis by simp
  next
    case (Some s)
    then have e: "e = Occupied s" by (auto elim: Entry_socket.elims)
    show ?thesis
    proof (cases "sock_state s")
      case (Connecting a)
      with Some Cons.prems(2) skip show ?thesis by simp
    next
      case (Open remote)
      let ?ch = "sock_channel s" and ?p = "pipe_at w (bd_rx (sock_channel s))"
      have wf: "core_wf ?p" using Cons.prems(1) e Open by simp
      from Some Open Cons.prems(2) obtain p res where
        recv: "Core_poll_dequeue sched [Pending] ?p = Done (p, res)"
        by (auto simp: Let_def outcome_bind_eq_Done_iff SerReceiver_poll_recv_def)
      show ?thesis
      proof (cases res)
        case Pending
        with poll_dequeue_pending [OF wf assms(1)] recv have "p = ?p" by simp
        with Pending recv Some Open Cons.prems(2) skip show ?thesis
          by (simp add: Let_def SerReceiver_poll_recv_def)
      next
        case (Ready x)
        from Ready recv Some Open Cons.prems(2) assms(4) obtain i where
          i: "x = Ok i" "Id_from_index idx = Done l" "f = Frame_data remote l (bd_rx ?ch) (bd_rx_type ?ch) i"
            "w' = w\<lparr>pipe_at := (pipe_at w)(bd_rx ?ch := p)\<rparr>"
          by (cases x) (auto simp: Let_def SerReceiver_poll_recv_def outcome_map_eq_Done_iff
              Frame_data_def Frame_reset_def)
        with poll_dequeue_got [OF wf assms(1)] recv Ready Open have "sent_from s l w w' f"
          by (auto simp: sent_from_def Let_def)
        with e i(2) show ?thesis by (intro exI [of _ 0] exI [of _ s]) simp
      qed
    qed
  qed
qed simp

lemma dead_free_poll:
  assumes "dead_index (m_table m) = None" and "Machine_poll_outbound env m = Done (m', Ready f)"
  obtains dead where "poll_sockets (env_sched env) (env_polls env) 0 (conns (m_table m)) (m_world m) =
    Done (m_world m', dead, Ready f)"
  using assms
  by (auto simp: Machine_poll_outbound_def ConnTable_next_outbound_def ConnTable_cleanup_dead_def
      ConnTable_poll_outbound_def outcome_map_eq_Done_iff split: if_split_asm)

text \<open>All sockets of a table receive from well-formed channels of their type.\<close>

definition feeds_ok :: "('ia \<Rightarrow> nat set) \<Rightarrow> conn_table \<Rightarrow> ('ia, 'm) world \<Rightarrow> bool" where
  "feeds_ok fr ct w \<longleftrightarrow> (\<forall>i s. sockets ct i = Some s \<longrightarrow>
     (\<exists>H. pipe_inv fr H (pipe_at w (bd_rx (sock_channel s)))) \<and>
     elem_type (pipe_at w (bd_rx (sock_channel s))) = bd_rx_type (sock_channel s))"

lemma nth_sockets:
  assumes "table_inv ct" and "k < length (conns ct)" and "conns ct ! k = Occupied s"
  obtains i where "Id_from_index k = Done i" and "sockets ct i = Some s"
proof -
  have "k < 65535" using assms(1,2) by (auto simp: table_inv_def free_slots_def)
  from Id_from_index_Done [OF this] obtain i where
    "Id_from_index k = Done i" "i \<noteq> 0" "Id_to_index i = k" by blast
  with assms(2,3) show ?thesis by (intro that [of i]) (simp_all add: sockets_def Entries_get_def)
qed

lemma outbound_message:
  assumes "machine_inv n m" and "dead_index (m_table m) = None" and "feeds_ok fr (m_table m) (m_world m)"
    and "True \<in> set (env_sched env)" and "env_polls env = (\<lambda>_. [Pending])"
    and "Machine_poll_outbound env m = Done (m', Ready f)" and "header f = Data l r"
  obtains s where "sockets (m_table m) l = Some s" "sent_from s l (m_world m) (m_world m') f"
proof -
  have inv: "table_inv (m_table m)" using assms(1) by (simp add: machine_inv_def table_ok_def)
  have wf: "core_wf (pipe_at (m_world m) (bd_rx (sock_channel s)))" if "Occupied s \<in> set (conns (m_table m))" for s
  proof -
    from that obtain k where "k < length (conns (m_table m))" "conns (m_table m) ! k = Occupied s"
      by (auto simp: in_set_conv_nth)
    from nth_sockets [OF inv this] obtain i where "sockets (m_table m) i = Some s" by blast
    with assms(3) show ?thesis unfolding feeds_ok_def by (blast dest: pipe_invD(2))
  qed
  from dead_free_poll [OF assms(2,6)] obtain dead where
    "poll_sockets (env_sched env) (\<lambda>_. [Pending]) 0 (conns (m_table m)) (m_world m) =
      Done (m_world m', dead, Ready f)"
    using assms(5) by auto
  from poll_sockets_data [OF assms(4) wf this assms(7)] obtain k s where
    k: "k < length (conns (m_table m))" "conns (m_table m) ! k = Occupied s" "Id_from_index k = Done l"
      "sent_from s l (m_world m) (m_world m') f" by auto
  from nth_sockets [OF inv k(1,2)] k(3,4) show ?thesis by (auto intro: that)
qed

subsection \<open>Where it arrives\<close>

lemma DeserSender_send_room:
  assumes "index_alloc io fr" and "pipe_inv fr H p" and "elem_type p = t" and "True \<in> set sched"
    and "\<not> rx_closed p" and "fr (indices p) \<noteq> {}" and "pc_from_bytes pc bs = Ok v"
  obtains p' where "DeserSender_send io pc t sched resumes p bs = Done (p', Ok ())" "pipe_inv fr H p'"
    "pipe_messages p' = pipe_messages p @ [v]" "pipe_same p p'"
proof -
  from assms(1-4) show ?thesis
  proof (cases rule: DeserSender_try_send_spec [of io fr H p t sched pc bs])
    case (sent m p')
    obtain p1 r where r: "Core_try_reserve io p = (p1, r)" by fastforce
    with sent(4) obtain i y where y: "r = Ok i" "SerPermit_send io pc t sched p1 i bs = Done (p', y)"
      "map_sum SerTrySendError_from_ser_send_error id y = Ok ()"
      by (cases r) (auto simp: DeserSender_try_send_def DeserSender_try_reserve_def outcome_map_eq_Done_iff)
    then have i: "r = Ok i" "SerPermit_send io pc t sched p1 i bs = Done (p', Ok ())"
      by (cases y; simp)+
    with r have "DeserSender_send io pc t sched resumes p bs = Done (p', Ok ())"
      by (simp add: DeserSender_send_def DeserSender_reserve_def reserve_Ok)
    with sent assms(7) show ?thesis by (intro that [of p']) simp_all
  qed (use assms(5-7) in auto)
qed

lemma inbound_message:
  assumes "index_alloc (env_io env) fr" and "True \<in> set (env_sched env)"
    and "Frame_from_bytes (env_hc env) buf = Done (Ok \<lparr>header = Data i j, body = bs\<rparr>)"
    and "sockets (m_table m) j = Some s" and "sock_state s = Open i"
    and "pipe_inv fr H (pipe_at (m_world m) (bd_tx (sock_channel s)))"
    and "elem_type (pipe_at (m_world m) (bd_tx (sock_channel s))) = bd_tx_type (sock_channel s)"
    and "\<not> rx_closed (pipe_at (m_world m) (bd_tx (sock_channel s)))"
    and "fr (indices (pipe_at (m_world m) (bd_tx (sock_channel s)))) \<noteq> {}" and "pc_from_bytes (env_pc env) bs = Ok v"
  obtains p' where "Machine_inbound env buf m =
      Done (m\<lparr>m_world := (m_world m)\<lparr>pipe_at := (pipe_at (m_world m))(bd_tx (sock_channel s) := p')\<rparr>\<rparr>, None)"
    "pipe_inv fr H p'" "pipe_messages p' = pipe_messages (pipe_at (m_world m) (bd_tx (sock_channel s))) @ [v]"
    "pipe_same (pipe_at (m_world m) (bd_tx (sock_channel s))) p'"
proof -
  let ?p = "pipe_at (m_world m) (bd_tx (sock_channel s))"
  from DeserSender_send_room [OF assms(1,6,7,2,8-10)] obtain p' where
    p': "DeserSender_send (env_io env) (env_pc env) (bd_tx_type (sock_channel s)) (env_sched env)
      (env_resumes env) ?p bs = Done (p', Ok ())" "pipe_inv fr H p'" "pipe_messages p' = pipe_messages ?p @ [v]"
    "pipe_same ?p p'" by blast
  from assms(4) obtain e where "Entries_get (m_table m) j = Some e" "Entry_socket e = Some s"
    by (auto simp: sockets_def split: if_split_asm option.split_asm)
  with p'(1) assms(3,5) have "Machine_inbound env buf m =
      Done (m\<lparr>m_world := (m_world m)\<lparr>pipe_at := (pipe_at (m_world m))(bd_tx (sock_channel s) := p')\<rparr>\<rparr>, None)"
    by (simp add: Machine_inbound_def LinkId_INTERFACE_def ConnTable_process_inbound_def process_data_def Let_def)
  from this p'(2-4) show ?thesis by (rule that)
qed

lemma SerRecvRef_reads:
  assumes "elem_type p = t" and "elements p ! unat i = Some v" and "unat i < length (elements p)"
  shows "SerRecvRef_to_vec pc t p i = Done (pc_to_allocvec pc v)"
  using assms by (simp add: SerRecvRef_to_vec_def SerVtable_to_vec_def SerVtable_elem_def
      ErasedSlice_unerase_def cell_ref_def)

text \<open>
  C13: Messages cross the wire once and in order: if the interface of one node takes a DATA frame
  from its table for a connection, the frame carries the oldest message of the channel of that
  socket; once the frame has been sent, the channel holds the other messages and no other channel
  has changed; and when the bytes of the frame reach the interface of the other node, whose socket
  is connected to the first one and whose channel has room, the same message becomes the last one
  of that channel and nothing else changes.
\<close>

theorem message_crosses_wire:
  assumes a: "machine_inv n mA" "dead_index (m_table mA) = None" "feeds_ok frA (m_table mA) (m_world mA)"
      "index_alloc (env_io envA) frA" "True \<in> set (env_sched envA)" "env_polls envA = (\<lambda>_. [Pending])"
      "Machine_poll_outbound envA mA = Done (mA', Ready f)" "header f = Data i j"
    and wire: "header_codec_ok (env_hc envA)" "env_hc envB = env_hc envA" "env_pc envB = env_pc envA"
      "postcard_roundtrip (env_pc envA)" "Frame_to_vec (env_hc envA) (env_pc envA) (m_world mA') f = Done (Ok bs)"
    and b: "sockets (m_table mB) j = Some s'" "sock_state s' = Open i" "index_alloc (env_io envB) frB"
      "True \<in> set (env_sched envB)" "pipe_inv frB H (pipe_at (m_world mB) (bd_tx (sock_channel s')))"
      "elem_type (pipe_at (m_world mB) (bd_tx (sock_channel s'))) = bd_tx_type (sock_channel s')"
      "\<not> rx_closed (pipe_at (m_world mB) (bd_tx (sock_channel s')))"
      "frB (indices (pipe_at (m_world mB) (bd_tx (sock_channel s')))) \<noteq> {}"
  shows "\<exists>s v vs w p. sockets (m_table mA) i = Some s \<and>
    pipe_messages (pipe_at (m_world mA) (bd_rx (sock_channel s))) = v # vs \<and>
    OutboundData_drop (env_io envA) (body f) (m_world mA') = Done w \<and>
    pipe_messages (pipe_at w (bd_rx (sock_channel s))) = vs \<and>
    (\<forall>x. x \<noteq> bd_rx (sock_channel s) \<longrightarrow> pipe_at w x = pipe_at (m_world mA) x) \<and>
    Machine_inbound envB bs mB = Done (mB\<lparr>m_world := (m_world mB)\<lparr>pipe_at :=
      (pipe_at (m_world mB))(bd_tx (sock_channel s') := p)\<rparr>\<rparr>, None) \<and>
    pipe_messages p = pipe_messages (pipe_at (m_world mB) (bd_tx (sock_channel s'))) @ [v]"
proof -
  from outbound_message [OF a(1-3,5-8)] obtain s where
    s: "sockets (m_table mA) i = Some s" "sent_from s i (m_world mA) (m_world mA') f" .
  let ?a = "bd_rx (sock_channel s)" and ?t = "bd_rx_type (sock_channel s)"
  let ?p = "pipe_at (m_world mA) ?a"
  from s(2) a(8) obtain k q where k: "Core_queued ?p = k # q" "Core_head ?p \<noteq> 1023"
    "m_world mA' = (m_world mA)\<lparr>pipe_at := (pipe_at (m_world mA))(?a := Core_dequeued ?p)\<rparr>"
    "f = \<lparr>header = Data i j, body = Data_Ref ?a ?t k\<rparr>"
    by (auto simp: sent_from_def Let_def Frame_data_def)
  from a(3) s(1) obtain H' where p: "pipe_inv frA H' ?p" "elem_type ?p = ?t" unfolding feeds_ok_def by blast
  from dequeue_inv [OF p(1) k(1,2)] obtain v where v: "elements ?p ! unat k = Some v"
    "pipe_messages ?p = v # pipe_messages (Core_dequeued ?p)"
    "pipe_inv frA (insert (unat k) H') (Core_dequeued ?p)" "unat k \<notin> H'" "unat k < length (elements ?p)" .
  from SerRecvRef_drop_inv [OF a(4) v(3,4), of v ?t] v(1) p(2) obtain q' where
    q': "SerRecvRef_drop (env_io envA) ?t (Core_dequeued ?p) k = Done q'"
      "pipe_messages q' = pipe_messages (Core_dequeued ?p)" by (metis Core_dequeued_elem_type(1,2))
  from frame_decodes [OF wire(1,5)] k(4) obtain payload where
    dec: "OutboundData_to_vec (env_pc envA) (m_world mA') (Data_Ref ?a ?t k) = Done (Ok payload)"
      "Frame_from_bytes (env_hc envB) bs = Done (Ok \<lparr>header = Data i j, body = payload\<rparr>)"
    using wire(2) by auto
  have "pc_to_allocvec (env_pc envA) v = Ok payload"
    using dec(1) k(3) SerRecvRef_reads [of "Core_dequeued ?p" ?t k v "env_pc envA"] v(1,5) p(2) by simp
  with wire(3,4) have "pc_from_bytes (env_pc envB) payload = Ok v" by (simp add: postcard_roundtrip_def)
  from inbound_message [OF b(3,4) dec(2) b(1,2,5-8) this] obtain p' where
    "Machine_inbound envB bs mB = Done (mB\<lparr>m_world := (m_world mB)\<lparr>pipe_at :=
      (pipe_at (m_world mB))(bd_tx (sock_channel s') := p')\<rparr>\<rparr>, None)"
    "pipe_messages p' = pipe_messages (pipe_at (m_world mB) (bd_tx (sock_channel s'))) @ [v]" by blast
  moreover have "OutboundData_drop (env_io envA) (body f) (m_world mA') =
      Done ((m_world mA)\<lparr>pipe_at := (pipe_at (m_world mA))(?a := q')\<rparr>)"
    using k(3,4) q'(1) by (simp add: on_pipe_def)
  ultimately show ?thesis
    using s(1) v(2) q'(2) by (intro exI [of _ s] exI [of _ v]) (fastforce intro: exI)
qed

text \<open>Two nodes whose first sockets are connected to each other.\<close>

definition linked_socket :: socket where
  "linked_socket = \<lparr>sock_state = Open 1, sock_channel = sample_chan\<rparr>"

definition linked_machine ::
  "(usize, nat) world \<Rightarrow> (bytes list \<times> OutboundFrame list, string, usize, nat) machine" where
  "linked_machine w = idle_machine\<lparr>m_table := \<lparr>conns = [Occupied linked_socket, Unused], next_id = 2,
     table_len = 1, dead_index = None\<rparr>, m_world := w\<rparr>"

lemma linked_machine_facts:
  "machine_inv 2 (linked_machine w)" "dead_index (m_table (linked_machine w)) = None"
  "sockets (m_table (linked_machine w)) 1 = Some linked_socket" "m_world (linked_machine w) = w"
  using first_inv [of linked_socket]
  by (simp_all add: linked_machine_def machine_inv_def table_ok_def idle_machine_def CAPACITY_def sockets_def
    Entries_get_def Id_to_index_def)

lemma linked_sockets: "sockets (m_table (linked_machine w)) i = Some s \<Longrightarrow> s = linked_socket"
  by (auto simp: linked_machine_def sockets_def Entries_get_def nth_Cons split: if_split_asm nat.split_asm)

lemma wire_pipe_facts: "pipe_inv bitmap_free {} wire_pipe" "\<not> rx_closed wire_pipe" "pipe_messages wire_pipe = []"
    "Core_head wire_pipe = 0" "elem_type wire_pipe = 7" "bitmap_free (indices wire_pipe) \<noteq> {}"
proof -
  show "pipe_inv bitmap_free {} wire_pipe"
    using initial_inv(1) [OF bitmap_index_alloc wire_pipe_new]
    by (simp add: system_inv_def live_inv_def initial_def handles_def held_def)
  show "\<not> rx_closed wire_pipe" "pipe_messages wire_pipe = []" "Core_head wire_pipe = 0" "elem_type wire_pipe = 7"
    by (simp_all add: rx_closed_def pipe_messages_def Core_queued_def Core_head_def Core_tail_def wire_pipe_def)
  have "bitmap_free (ia_with_capacity bitmap_ops 4) = {..<4}"
    using bitmap_index_alloc by (simp add: index_alloc_def)
  then show "bitmap_free (indices wire_pipe) \<noteq> {}" by (simp add: wire_pipe_def lessThan_empty_iff)
qed

lemma full_pipe:
  obtains p :: "(Reset, usize, nat) pipe" where "Sender_try_send bitmap_ops 7 [True] wire_pipe 42 = Done (p, Ok ())"
    "pipe_inv bitmap_free {} p" "pipe_messages p = [42 :: nat]" "elem_type p = 7" "Core_head p = 0"
    "Core_try_dequeue [True] p = Done (Core_dequeued p, Ok (hd (Core_queued p)))" "Core_queued p \<noteq> []"
    "elements p ! unat (hd (Core_queued p)) = Some 42" "unat (hd (Core_queued p)) < length (elements p)"
proof -
  have "True \<in> set [True]" by simp
  from bitmap_index_alloc wire_pipe_facts(1,5) this show ?thesis
  proof (cases rule: Sender_try_send_spec [where m = 42])
    case (sent p)
    then have p: "pipe_inv bitmap_free {} p" "pipe_messages p = [42]" "elem_type p = 7" "Core_head p = 0"
      using wire_pipe_facts by (simp_all add: pipe_same_def)
    then obtain i q where q: "Core_queued p = i # q" by (cases "Core_queued p") (auto simp: pipe_messages_def)
    from dequeue_inv [OF p(1) q] p(4) obtain v where "elements p ! unat i = Some v" "unat i < length (elements p)"
      "pipe_messages p = v # pipe_messages (Core_dequeued p)" by auto
    moreover have "Core_try_dequeue [True] p = Done (Core_dequeued p, Ok i)"
      using try_dequeue_cases [OF pipe_invD(2) [OF p(1)], of "[True]"] q p(4) by simp
    ultimately show ?thesis using sent p q by (intro that [of p]) simp_all
  qed (use wire_pipe_facts in auto)
qed

lemma wire_codec_roundtrip: "postcard_roundtrip wire_codec"
  by (auto simp: postcard_roundtrip_def wire_codec_def unat_of_nat split: if_split_asm)

lemma linked_take:
  fixes p :: "(Reset, usize, nat) pipe"
  assumes "pipe_at w 2 = p" and "Core_try_dequeue [True] p = Done (Core_dequeued p, Ok i)" and "elem_type p = 7"
    and "elements p ! unat i = Some 42" and "unat i < length (elements p)"
  obtains m f where "Machine_poll_outbound sample_env (linked_machine w) = Done (m, Ready f)" "header f = Data 1 1"
    "Frame_to_vec sample_codec wire_codec (m_world m) f = Done (Ok [2, 1, 1, 42])"
proof -
  define f where "f = Frame_data 1 1 2 7 i"
  define w' where "w' = w\<lparr>pipe_at := (pipe_at w)(2 := Core_dequeued p)\<rparr>"
  have "poll_sockets [True] (\<lambda>_. [Pending]) 0 [Occupied linked_socket, Unused] w = Done (w', None, Ready f)"
    by (simp add: linked_socket_def SerReceiver_poll_recv_def poll_dequeue_Ok [OF assms(2)] assms(1) w'_def f_def
      Id_from_index_def Let_def)
  then obtain m where out: "Machine_poll_outbound sample_env (linked_machine w) = Done (m, Ready f)" "m_world m = w'"
    by (simp add: Machine_poll_outbound_def linked_machine_def idle_machine_def sample_env_def
      ConnTable_next_outbound_def ConnTable_cleanup_dead_def ConnTable_poll_outbound_def)
  have "SerRecvRef_to_vec wire_codec 7 (pipe_at w' 2) i = Done (Ok [42])"
    using SerRecvRef_reads [of "Core_dequeued p" 7 i 42 wire_codec] assms by (simp add: w'_def wire_codec_def)
  then have "Frame_to_vec sample_codec wire_codec (m_world m) f = Done (Ok [2, 1, 1, 42])"
    by (simp add: Frame_to_vec_def f_def Frame_data_def out(2) sample_codec_def small_id_def)
  with out(1) show ?thesis by (intro that) (simp_all add: f_def Frame_data_def)
qed

lemma sample_env_facts:
  "index_alloc (env_io sample_env) bitmap_free" "True \<in> set (env_sched sample_env)"
  "env_polls sample_env = (\<lambda>_. [Pending])" "header_codec_ok (env_hc sample_env)"
  "postcard_roundtrip (env_pc sample_env)" "env_io sample_env = bitmap_ops" "env_sched sample_env = [True]"
  "env_hc sample_env = sample_codec" "env_pc sample_env = wire_codec"
  using bitmap_index_alloc sample_codec_ok wire_codec_roundtrip by (simp_all add: sample_env_def)

theorem message_crosses_wire_witness:
  "\<exists>w bs m. pipe_messages (pipe_at w 2) = [42] \<and>
    (\<exists>m' f. Machine_poll_outbound sample_env (linked_machine w) = Done (m', Ready f) \<and>
       Frame_to_vec sample_codec wire_codec (m_world m') f = Done (Ok bs)) \<and>
    Machine_inbound sample_env bs (linked_machine sample_world) = Done (m, None) \<and>
    pipe_messages (pipe_at (m_world m) 1) = [42]"
proof -
  obtain p :: "(Reset, usize, nat) pipe" where
    p: "pipe_inv bitmap_free {} p" "pipe_messages p = [42]" "elem_type p = 7" "Core_head p = 0"
    "Core_try_dequeue [True] p = Done (Core_dequeued p, Ok (hd (Core_queued p)))" "Core_queued p \<noteq> []"
    "elements p ! unat (hd (Core_queued p)) = Some 42" "unat (hd (Core_queued p)) < length (elements p)"
    by (rule full_pipe)
  define w where "w = sample_world\<lparr>pipe_at := (\<lambda>_. p)\<rparr>"
  let ?m = "linked_machine w"
  have feeds: "feeds_ok bitmap_free (m_table ?m) (m_world ?m)"
    using p(1,3) by (auto simp: feeds_ok_def linked_machine_facts w_def linked_socket_def dest!: linked_sockets)
  have "pipe_at w 2 = p" by (simp add: w_def)
  from linked_take [OF this p(5,3,7,8)] obtain m' f where
    out: "Machine_poll_outbound sample_env ?m = Done (m', Ready f)" "header f = Data 1 1" and
    vec: "Frame_to_vec sample_codec wire_codec (m_world m') f = Done (Ok [2, 1, 1, 42])" .
  note env = sample_env_facts(3-5,8,9)
  have pipe: "pipe_at sample_world a = wire_pipe" for a by (simp add: sample_world_def)
  let ?n = "linked_machine sample_world" and ?q = "pipe_at sample_world 1"
  have b: "sock_state linked_socket = Open 1" "bd_tx (sock_channel linked_socket) = 1"
    "bd_rx (sock_channel linked_socket) = 2" "bd_tx_type (sock_channel linked_socket) = 7"
    by (simp_all add: linked_socket_def)
  have "\<exists>s v vs w1 p1. sockets (m_table ?m) 1 = Some s \<and> pipe_messages (pipe_at (m_world ?m) (bd_rx (sock_channel s))) = v # vs \<and>
    OutboundData_drop (env_io sample_env) (body f) (m_world m') = Done w1 \<and>
    pipe_messages (pipe_at w1 (bd_rx (sock_channel s))) = vs \<and>
    (\<forall>x. x \<noteq> bd_rx (sock_channel s) \<longrightarrow> pipe_at w1 x = pipe_at (m_world ?m) x) \<and>
    Machine_inbound sample_env [2, 1, 1, 42] ?n = Done (?n\<lparr>m_world := (m_world ?n)\<lparr>pipe_at :=
      (pipe_at (m_world ?n))(bd_tx (sock_channel linked_socket) := p1)\<rparr>\<rparr>, None) \<and>
    pipe_messages p1 = pipe_messages (pipe_at (m_world ?n) (bd_tx (sock_channel linked_socket))) @ [v]"
    by (rule message_crosses_wire [where H = "{}" and frB = bitmap_free, OF linked_machine_facts(1,2) feeds
        sample_env_facts(1-3) out env(2) refl refl env(3) _ linked_machine_facts(3) b(1) sample_env_facts(1,2)])
      (simp_all add: env vec linked_machine_facts b pipe wire_pipe_facts)
  then obtain v p1 where "v = 42"
    "Machine_inbound sample_env [2, 1, 1, 42] ?n = Done (?n\<lparr>m_world := (m_world ?n)\<lparr>pipe_at :=
      (pipe_at (m_world ?n))(1 := p1)\<rparr>\<rparr>, None)" "pipe_messages p1 = [v]"
    using p(2) by (auto simp: linked_machine_facts b pipe wire_pipe_facts w_def)
  with out vec p(2) show ?thesis by (intro exI [of _ w] exI [of _ "[2, 1, 1, 42]"]) (force simp: w_def)
qed

end
