(* ===== verification/Connection_Fifo.thy ===== *)
theory Connection_Fifo
  imports End_To_End
begin

section \<open>A connection is a lossless, ordered channel\<close>

text \<open>
  One direction of an open connection between two nodes, over any history. The client on the near
  node puts messages into the channel of its socket; the near interface turns them into frames; the
  far interface decodes the frames that arrive into the channel of its own socket; the client on the
  far node takes them out. All other work of the two nodes, on the same connection in the other
  direction and on other connections, may come in between as long as it leaves the two sockets and
  the two channels alone.
\<close>

declare Core_reserve.simps [simp del] Core_poll_dequeue.simps [simp del]

subsection \<open>Nodes, wire and clients\<close>

record ('wi, 'n, 'ia, 'm) link =
  near :: "('wi, 'n, 'ia, 'm) machine"
  far :: "('wi, 'n, 'ia, 'm) machine"
  on_wire :: "bytes list"
  accepted :: "'m list"
  arrived :: "'m list"

text \<open>What does not change: the environments, the sockets and their numbers.\<close>

record ('wi, 'we, 'n, 'ia, 'm) link_ends =
  near_env :: "('wi, 'we, 'n, 'ia, 'm) run_env"
  far_env :: "('wi, 'we, 'n, 'ia, 'm) run_env"
  near_id :: Id
  far_id :: Id
  near_socket :: socket
  far_socket :: socket

definition near_pipe :: "('wi, 'we, 'n, 'ia, 'm) link_ends \<Rightarrow> ('wi, 'n, 'ia, 'm) link \<Rightarrow> (Reset, 'ia, 'm) pipe" where
  "near_pipe E L = pipe_at (m_world (near L)) (bd_rx (sock_channel (near_socket E)))"

definition far_pipe :: "('wi, 'we, 'n, 'ia, 'm) link_ends \<Rightarrow> ('wi, 'n, 'ia, 'm) link \<Rightarrow> (Reset, 'ia, 'm) pipe" where
  "far_pipe E L = pipe_at (m_world (far L)) (bd_tx (sock_channel (far_socket E)))"

definition set_pipe :: "nat \<Rightarrow> (Reset, 'ia, 'm) pipe \<Rightarrow> ('wi, 'n, 'ia, 'm) machine \<Rightarrow> ('wi, 'n, 'ia, 'm) machine" where
  "set_pipe a p m = m\<lparr>m_world := (m_world m)\<lparr>pipe_at := (pipe_at (m_world m))(a := p)\<rparr>\<rparr>"

definition near_ok :: "('ia \<Rightarrow> nat set) \<Rightarrow> ('wi, 'we, 'n, 'ia, 'm) link_ends \<Rightarrow> ('wi, 'n, 'ia, 'm) machine \<Rightarrow> bool" where
  "near_ok fr E m \<longleftrightarrow>
     machine_inv (CAPACITY (m_table m)) m \<and> dead_index (m_table m) = None \<and>
     feeds_ok fr (m_table m) (m_world m) \<and> sockets (m_table m) (near_id E) = Some (near_socket E)"

definition far_ok :: "('ia \<Rightarrow> nat set) \<Rightarrow> ('wi, 'we, 'n, 'ia, 'm) link_ends \<Rightarrow> ('wi, 'n, 'ia, 'm) machine \<Rightarrow> bool" where
  "far_ok fr E m \<longleftrightarrow>
     sockets (m_table m) (far_id E) = Some (far_socket E) \<and>
     (let p = pipe_at (m_world m) (bd_tx (sock_channel (far_socket E)))
      in (\<exists>H. pipe_inv fr H p) \<and> elem_type p = bd_tx_type (sock_channel (far_socket E)) \<and> \<not> rx_closed p)"

inductive link_step ::
  "('ia \<Rightarrow> nat set) \<Rightarrow> ('wi, 'we, 'n, 'ia, 'm) link_ends \<Rightarrow> ('wi, 'n, 'ia, 'm) link \<Rightarrow> ('wi, 'n, 'ia, 'm) link \<Rightarrow> bool"
  for fr :: "'ia \<Rightarrow> nat set" and E :: "('wi, 'we, 'n, 'ia, 'm) link_ends" where
  Accept: "Sender_try_send (env_io (near_env E)) (bd_rx_type (sock_channel (near_socket E)))
      (env_sched (near_env E)) (near_pipe E L) v = Done (p, Ok ()) \<Longrightarrow>
    link_step fr E L (L\<lparr>near := set_pipe (bd_rx (sock_channel (near_socket E))) p (near L),
      accepted := accepted L @ [v]\<rparr>)"
| Take: "Machine_poll_outbound (near_env E) (near L) = Done (m, Ready f) \<Longrightarrow>
    header f = Data (near_id E) (far_id E) \<Longrightarrow>
    Frame_to_vec (env_hc (near_env E)) (env_pc (near_env E)) (m_world m) f = Done (Ok bs) \<Longrightarrow>
    OutboundData_drop (env_io (near_env E)) (body f) (m_world m) = Done w \<Longrightarrow>
    link_step fr E L (L\<lparr>near := m\<lparr>m_world := w, outbound_started := False\<rparr>, on_wire := on_wire L @ [bs]\<rparr>)"
| Cross: "on_wire L = bs # rest \<Longrightarrow> fr (indices (far_pipe E L)) \<noteq> {} \<Longrightarrow>
    Machine_inbound (far_env E) bs (far L) = Done (m, r) \<Longrightarrow>
    link_step fr E L (L\<lparr>far := m, on_wire := rest\<rparr>)"
| Deliver: "Receiver_try_recv (env_io (far_env E)) (bd_tx_type (sock_channel (far_socket E)))
      (env_sched (far_env E)) (far_pipe E L) = Done (p, Ok v) \<Longrightarrow>
    link_step fr E L (L\<lparr>far := set_pipe (bd_tx (sock_channel (far_socket E))) p (far L),
      arrived := arrived L @ [v]\<rparr>)"
| Near_Other: "near_ok fr E m \<Longrightarrow> near_pipe E (L\<lparr>near := m\<rparr>) = near_pipe E L \<Longrightarrow>
    link_step fr E L (L\<lparr>near := m\<rparr>)"
| Far_Other: "far_ok fr E m \<Longrightarrow> far_pipe E (L\<lparr>far := m\<rparr>) = far_pipe E L \<Longrightarrow>
    link_step fr E L (L\<lparr>far := m\<rparr>)"

text \<open>The documented behaviour of the codecs, the schedules, and the numbers of the two sockets.\<close>

definition ends_ok :: "('ia \<Rightarrow> nat set) \<Rightarrow> ('wi, 'we, 'n, 'ia, 'm) link_ends \<Rightarrow> bool" where
  "ends_ok fr E \<longleftrightarrow>
     index_alloc (env_io (near_env E)) fr \<and> index_alloc (env_io (far_env E)) fr \<and>
     True \<in> set (env_sched (near_env E)) \<and> True \<in> set (env_sched (far_env E)) \<and>
     env_polls (near_env E) = (\<lambda>_. [Pending]) \<and> header_codec_ok (env_hc (near_env E)) \<and>
     env_hc (far_env E) = env_hc (near_env E) \<and> env_pc (far_env E) = env_pc (near_env E) \<and>
     postcard_roundtrip (env_pc (near_env E)) \<and> sock_state (far_socket E) = Open (near_id E)"

definition link_start :: "('ia \<Rightarrow> nat set) \<Rightarrow> ('wi, 'we, 'n, 'ia, 'm) link_ends \<Rightarrow> ('wi, 'n, 'ia, 'm) link \<Rightarrow> bool" where
  "link_start fr E L \<longleftrightarrow>
     near_ok fr E (near L) \<and> far_ok fr E (far L) \<and> pipe_messages (near_pipe E L) = [] \<and>
     pipe_messages (far_pipe E L) = [] \<and> on_wire L = [] \<and> accepted L = [] \<and> arrived L = []"

inductive link_history ::
  "('ia \<Rightarrow> nat set) \<Rightarrow> ('wi, 'we, 'n, 'ia, 'm) link_ends \<Rightarrow> ('wi, 'n, 'ia, 'm) link \<Rightarrow> bool"
  for fr :: "'ia \<Rightarrow> nat set" and E :: "('wi, 'we, 'n, 'ia, 'm) link_ends" where
  Linked: "link_start fr E L \<Longrightarrow> link_history fr E L"
| Onward: "link_history fr E L \<Longrightarrow> link_step fr E L L' \<Longrightarrow> link_history fr E L'"

subsection \<open>The messages under way\<close>

text \<open>The message that the far node decodes from a frame of this connection.\<close>

definition frame_message :: "('wi, 'we, 'n, 'ia, 'm) link_ends \<Rightarrow> bytes \<Rightarrow> 'm option" where
  "frame_message E bs =
     (case Frame_from_bytes (env_hc (far_env E)) bs of
        Done (Ok f) \<Rightarrow>
          (if header f = Data (near_id E) (far_id E)
           then (case pc_from_bytes (env_pc (far_env E)) (body f) of Ok v \<Rightarrow> Some v | Err _ \<Rightarrow> None)
           else None)
      | _ \<Rightarrow> None)"

definition link_inv :: "('ia \<Rightarrow> nat set) \<Rightarrow> ('wi, 'we, 'n, 'ia, 'm) link_ends \<Rightarrow> ('wi, 'n, 'ia, 'm) link \<Rightarrow> bool" where
  "link_inv fr E L \<longleftrightarrow>
     near_ok fr E (near L) \<and> far_ok fr E (far L) \<and>
     (\<exists>ws. map (frame_message E) (on_wire L) = map Some ws \<and>
        accepted L = arrived L @ pipe_messages (far_pipe E L) @ ws @ pipe_messages (near_pipe E L))"


subsection \<open>A frame is taken\<close>

lemma poll_sockets_alive:
  assumes "poll_sockets sched polls idx es w = Done (w', dead, Ready f)" and "header f = Data l r"
  shows "dead = None"
  using assms
proof (induction es arbitrary: idx w)
  case (Cons e es)
  show ?case
  proof (cases "Entry_socket e")
    case None
    with Cons show ?thesis by simp
  next
    case (Some s)
    show ?thesis
    proof (cases "SerReceiver_poll_recv sched (polls idx) (pipe_at w (bd_rx (sock_channel s)))")
      case (Done x)
      then show ?thesis
        using Some Cons by (cases x; cases "snd x"; cases "sock_state s")
          (auto simp: Let_def outcome_bind_eq_Done_iff outcome_map_eq_Done_iff Frame_reset_def
            split: sum.split_asm)
    qed (use Some Cons in \<open>auto split: conn_state.split_asm\<close>)
  qed
qed simp

lemma poll_outbound_table:
  assumes "dead_index (m_table m) = None" and "Machine_poll_outbound env m = Done (m', Ready f)"
    and "header f = Data l r"
  shows "m' = m\<lparr>m_world := m_world m', outbound_started := True\<rparr>"
  using assms poll_sockets_alive [of "env_sched env" "env_polls env" 0 "conns (m_table m)" "m_world m" _ _ f l r]
  by (auto simp: Machine_poll_outbound_def ConnTable_next_outbound_def ConnTable_cleanup_dead_def
      ConnTable_poll_outbound_def outcome_map_eq_Done_iff split: if_split_asm)

lemma feeds_ok_update:
  assumes "feeds_ok fr ct w" and "pipe_inv fr H p" and "elem_type p = elem_type (pipe_at w a)"
  shows "feeds_ok fr ct (w\<lparr>pipe_at := (pipe_at w)(a := p)\<rparr>)"
  using assms unfolding feeds_ok_def by auto

lemma take_message:
  assumes ends: "ends_ok fr E" and near: "near_ok fr E m0"
    and poll: "Machine_poll_outbound (near_env E) m0 = Done (m, Ready f)" "header f = Data (near_id E) (far_id E)"
    and vec: "Frame_to_vec (env_hc (near_env E)) (env_pc (near_env E)) (m_world m) f = Done (Ok bs)"
  obtains w v where "OutboundData_drop (env_io (near_env E)) (body f) (m_world m) = Done w"
    "near_ok fr E (m\<lparr>m_world := w, outbound_started := False\<rparr>)" "frame_message E bs = Some v"
    "pipe_messages (pipe_at (m_world m0) (bd_rx (sock_channel (near_socket E)))) =
      v # pipe_messages (pipe_at w (bd_rx (sock_channel (near_socket E))))"
proof -
  let ?s = "near_socket E" and ?A = "near_env E"
  let ?a = "bd_rx (sock_channel ?s)" and ?t = "bd_rx_type (sock_channel ?s)"
  let ?p = "pipe_at (m_world m0) ?a"
  from ends have env: "index_alloc (env_io ?A) fr" "True \<in> set (env_sched ?A)" "env_polls ?A = (\<lambda>_. [Pending])"
    "header_codec_ok (env_hc ?A)" "postcard_roundtrip (env_pc ?A)"
    "env_hc (far_env E) = env_hc ?A" "env_pc (far_env E) = env_pc ?A" by (simp_all add: ends_ok_def)
  from near have inv: "machine_inv (CAPACITY (m_table m0)) m0" "dead_index (m_table m0) = None"
    "feeds_ok fr (m_table m0) (m_world m0)" "sockets (m_table m0) (near_id E) = Some ?s" by (simp_all add: near_ok_def)
  from outbound_message [OF inv(1-3) env(2,3) poll] inv(4)
  have sent: "sent_from ?s (near_id E) (m_world m0) (m_world m) f" by auto
  with poll(2) obtain k q where k: "Core_queued ?p = k # q" "Core_head ?p \<noteq> 1023"
    "m_world m = (m_world m0)\<lparr>pipe_at := (pipe_at (m_world m0))(?a := Core_dequeued ?p)\<rparr>"
    "f = \<lparr>header = Data (near_id E) (far_id E), body = Data_Ref ?a ?t k\<rparr>"
    by (auto simp: sent_from_def Let_def Frame_data_def)
  from inv(3,4) obtain H where p: "pipe_inv fr H ?p" "elem_type ?p = ?t" unfolding feeds_ok_def by blast
  from dequeue_inv [OF p(1) k(1,2)] obtain v where v: "elements ?p ! unat k = Some v"
    "pipe_messages ?p = v # pipe_messages (Core_dequeued ?p)"
    "pipe_inv fr (insert (unat k) H) (Core_dequeued ?p)" "unat k \<notin> H" "unat k < length (elements ?p)" .
  from SerRecvRef_drop_inv [OF env(1) v(3,4), of v ?t] v(1) p(2) obtain q' where
    q': "SerRecvRef_drop (env_io ?A) ?t (Core_dequeued ?p) k = Done q'" "pipe_inv fr H q'"
      "pipe_messages q' = pipe_messages (Core_dequeued ?p)" "elem_type q' = ?t"
    by (metis Core_dequeued_elem_type(1,2))
  let ?w = "(m_world m0)\<lparr>pipe_at := (pipe_at (m_world m0))(?a := q')\<rparr>"
  have drop: "OutboundData_drop (env_io ?A) (body f) (m_world m) = Done ?w"
    using k(3,4) q'(1) by (simp add: on_pipe_def)
  from frame_decodes [OF env(4) vec] k(4) obtain payload where
    dec: "OutboundData_to_vec (env_pc ?A) (m_world m) (Data_Ref ?a ?t k) = Done (Ok payload)"
      "Frame_from_bytes (env_hc ?A) bs = Done (Ok \<lparr>header = Data (near_id E) (far_id E), body = payload\<rparr>)"
    by auto
  have "pc_to_allocvec (env_pc ?A) v = Ok payload"
    using dec(1) k(3) SerRecvRef_reads [of "Core_dequeued ?p" ?t k v "env_pc ?A"] v(1,5) p(2) by simp
  with env(5) have "pc_from_bytes (env_pc ?A) payload = Ok v" by (simp add: postcard_roundtrip_def)
  with dec(2) env(6,7) have msg: "frame_message E bs = Some v" by (simp add: frame_message_def)
  have "feeds_ok fr (m_table m0) ?w"
    using inv(3) q'(2) by (rule feeds_ok_update) (simp add: q'(4) p(2))
  moreover have "m_table m = m_table m0" by (subst poll_outbound_table [OF inv(2) poll]) simp
  ultimately have "near_ok fr E (m\<lparr>m_world := ?w, outbound_started := False\<rparr>)"
    using inv by (simp add: near_ok_def machine_inv_def)
  from drop this msg show ?thesis by (rule that) (simp add: v(2) q'(3))
qed

subsection \<open>The invariant\<close>

lemma set_pipe_simps [simp]:
  "m_table (set_pipe a p m) = m_table m" "outbound_started (set_pipe a p m) = outbound_started m"
  "m_world (set_pipe a p m) = (m_world m)\<lparr>pipe_at := (pipe_at (m_world m))(a := p)\<rparr>"
  by (simp_all add: set_pipe_def)

lemma near_pipe_ok:
  assumes "near_ok fr E (near L)"
  obtains H where "pipe_inv fr H (near_pipe E L)" "elem_type (near_pipe E L) = bd_rx_type (sock_channel (near_socket E))"
  using assms unfolding near_ok_def feeds_ok_def near_pipe_def by blast

lemma far_pipe_ok:
  assumes "far_ok fr E (far L)"
  obtains H where "pipe_inv fr H (far_pipe E L)" "elem_type (far_pipe E L) = bd_tx_type (sock_channel (far_socket E))"
    "\<not> rx_closed (far_pipe E L)"
  using assms unfolding far_ok_def far_pipe_def Let_def by blast

lemma far_ok_set_pipe:
  assumes "far_ok fr E (far L)" and "pipe_inv fr H p" and "pipe_same (far_pipe E L) p"
  shows "far_ok fr E (set_pipe (bd_tx (sock_channel (far_socket E))) p (far L))"
  using assms unfolding far_ok_def by (auto simp: Let_def pipe_same_def far_pipe_def)

lemma accept_message:
  assumes "ends_ok fr E" and "near_ok fr E (near L)"
    and "Sender_try_send (env_io (near_env E)) (bd_rx_type (sock_channel (near_socket E)))
      (env_sched (near_env E)) (near_pipe E L) v = Done (p, Ok ())"
  shows "near_ok fr E (set_pipe (bd_rx (sock_channel (near_socket E))) p (near L)) \<and>
    pipe_messages p = pipe_messages (near_pipe E L) @ [v]"
proof -
  from assms(2) obtain H where p: "pipe_inv fr H (near_pipe E L)"
    "elem_type (near_pipe E L) = bd_rx_type (sock_channel (near_socket E))" by (rule near_pipe_ok)
  from assms(1) have env: "index_alloc (env_io (near_env E)) fr" "True \<in> set (env_sched (near_env E))"
    by (simp_all add: ends_ok_def)
  from env(1) p env(2) show ?thesis
  proof (cases rule: Sender_try_send_spec [where m = v])
    case (sent p')
    with assms(3) have p': "p' = p" by simp
    with sent p(2) have "elem_type p = elem_type (near_pipe E L)" by (simp add: pipe_same_def)
    with assms(2) p' sent(4) have "feeds_ok fr (m_table (near L)) ((m_world (near L))\<lparr>pipe_at :=
        (pipe_at (m_world (near L)))(bd_rx (sock_channel (near_socket E)) := p)\<rparr>)"
      by (intro feeds_ok_update) (simp_all add: near_ok_def near_pipe_def)
    with assms(2) p' sent(5) show ?thesis by (simp add: near_ok_def machine_inv_def)
  qed (use assms(3) in auto)
qed

lemma deliver_message:
  assumes "ends_ok fr E" and "far_ok fr E (far L)"
    and "Receiver_try_recv (env_io (far_env E)) (bd_tx_type (sock_channel (far_socket E)))
      (env_sched (far_env E)) (far_pipe E L) = Done (p, Ok v)"
  shows "far_ok fr E (set_pipe (bd_tx (sock_channel (far_socket E))) p (far L)) \<and>
    pipe_messages (far_pipe E L) = v # pipe_messages p"
proof -
  from assms(2) obtain H where p: "pipe_inv fr H (far_pipe E L)"
    "elem_type (far_pipe E L) = bd_tx_type (sock_channel (far_socket E))" by (rule far_pipe_ok)
  from assms(1) have env: "index_alloc (env_io (far_env E)) fr" "True \<in> set (env_sched (far_env E))"
    by (simp_all add: ends_ok_def)
  from env(1) p env(2) show ?thesis
  proof (cases rule: Receiver_try_recv_spec)
    case (got u p')
    with assms(3) show ?thesis using far_ok_set_pipe [OF assms(2) got(3,5)] by simp
  qed (use assms(3) in auto)
qed

lemma cross_message:
  assumes "ends_ok fr E" and "far_ok fr E (far L)" and "frame_message E bs = Some v"
    and "fr (indices (far_pipe E L)) \<noteq> {}"
  obtains p where "Machine_inbound (far_env E) bs (far L) =
      Done (set_pipe (bd_tx (sock_channel (far_socket E))) p (far L), None)"
    "far_ok fr E (set_pipe (bd_tx (sock_channel (far_socket E))) p (far L))"
    "pipe_messages p = pipe_messages (far_pipe E L) @ [v]"
proof -
  from assms(2) obtain H where p: "pipe_inv fr H (far_pipe E L)"
    "elem_type (far_pipe E L) = bd_tx_type (sock_channel (far_socket E))" "\<not> rx_closed (far_pipe E L)"
    by (rule far_pipe_ok)
  from assms(1) have env: "index_alloc (env_io (far_env E)) fr" "True \<in> set (env_sched (far_env E))"
    "sock_state (far_socket E) = Open (near_id E)" by (simp_all add: ends_ok_def)
  from assms(2) have sock: "sockets (m_table (far L)) (far_id E) = Some (far_socket E)" by (simp add: far_ok_def)
  from assms(3) obtain f where f: "Frame_from_bytes (env_hc (far_env E)) bs = Done (Ok f)"
    "header f = Data (near_id E) (far_id E)" "pc_from_bytes (env_pc (far_env E)) (body f) = Ok v"
    by (auto simp: frame_message_def split: outcome.split_asm sum.split_asm if_split_asm)
  moreover have "f = \<lparr>header = header f, body = body f\<rparr>" by simp
  ultimately have dec: "Frame_from_bytes (env_hc (far_env E)) bs =
      Done (Ok \<lparr>header = Data (near_id E) (far_id E), body = body f\<rparr>)"
    "pc_from_bytes (env_pc (far_env E)) (body f) = Ok v" by simp_all
  from inbound_message [OF env(1,2) dec(1) sock env(3) p [unfolded far_pipe_def]
      assms(4) [unfolded far_pipe_def] dec(2)] obtain p' where
    p': "Machine_inbound (far_env E) bs (far L) =
      Done (set_pipe (bd_tx (sock_channel (far_socket E))) p' (far L), None)" "pipe_inv fr H p'"
      "pipe_messages p' = pipe_messages (far_pipe E L) @ [v]" "pipe_same (far_pipe E L) p'"
    unfolding set_pipe_def far_pipe_def by blast
  with far_ok_set_pipe [OF assms(2) p'(2,4)] show ?thesis by (intro that)
qed

lemma link_start_inv: "link_start fr E L \<Longrightarrow> link_inv fr E L"
  by (simp add: link_start_def link_inv_def)

lemma link_step_inv:
  assumes "link_step fr E L L'" and "ends_ok fr E" and "link_inv fr E L"
  shows "link_inv fr E L'"
proof -
  from assms(3) obtain ws where inv: "near_ok fr E (near L)" "far_ok fr E (far L)"
    "map (frame_message E) (on_wire L) = map Some ws"
    "accepted L = arrived L @ pipe_messages (far_pipe E L) @ ws @ pipe_messages (near_pipe E L)"
    by (auto simp: link_inv_def)
  from assms(1) show ?thesis
  proof cases
    case (Accept v p)
    with accept_message [OF assms(2) inv(1) Accept(2)] inv show ?thesis
      by (auto simp: link_inv_def near_pipe_def far_pipe_def)
  next
    case (Take m f bs w)
    from take_message [OF assms(2) inv(1) Take(2-4)] Take(5) obtain v where
      "near_ok fr E (m\<lparr>m_world := w, outbound_started := False\<rparr>)" "frame_message E bs = Some v"
      "pipe_messages (near_pipe E L) = v # pipe_messages (pipe_at w (bd_rx (sock_channel (near_socket E))))"
      by (auto simp: near_pipe_def)
    with inv Take(1) show ?thesis
      by (auto simp: link_inv_def near_pipe_def far_pipe_def intro!: exI [of _ "ws @ [v]"])
  next
    case (Cross bs rest m r)
    with inv(3) obtain v vs where v: "ws = v # vs" "frame_message E bs = Some v"
      "map (frame_message E) rest = map Some vs" by (cases ws) auto
    from cross_message [OF assms(2) inv(2) v(2) Cross(3)] Cross(4) obtain p where
      "m = set_pipe (bd_tx (sock_channel (far_socket E))) p (far L)" "far_ok fr E m"
      "pipe_messages p = pipe_messages (far_pipe E L) @ [v]" by auto
    with inv v Cross(1) show ?thesis by (auto simp: link_inv_def near_pipe_def far_pipe_def)
  next
    case (Deliver p v)
    with deliver_message [OF assms(2) inv(2) Deliver(2)] inv show ?thesis
      by (auto simp: link_inv_def near_pipe_def far_pipe_def)
  next
    case (Near_Other m)
    with inv show ?thesis by (auto simp: link_inv_def far_pipe_def)
  next
    case (Far_Other m)
    with inv show ?thesis by (auto simp: link_inv_def near_pipe_def)
  qed
qed

lemma link_history_inv: "link_history fr E L \<Longrightarrow> ends_ok fr E \<Longrightarrow> link_inv fr E L"
  by (induction rule: link_history.induct) (blast intro: link_start_inv link_step_inv)+

subsection \<open>The contract of a connection\<close>

text \<open>
  C14: A connection is a lossless, ordered channel between two nodes: after any history of one
  direction of an open connection, with any other work in between, the messages accepted on the near
  node are those that have arrived on the far node, then those in the far channel, those on the
  wire and those in the near channel, in this order; none is lost, repeated or reordered. And as
  long as the far channel has room, the far interface takes the next frame from the wire without
  closing or answering anything.
\<close>

theorem connection_fifo:
  assumes "ends_ok fr E" and "link_history fr E L"
  shows "(\<exists>ws. map (frame_message E) (on_wire L) = map Some ws \<and>
      accepted L = arrived L @ pipe_messages (far_pipe E L) @ ws @ pipe_messages (near_pipe E L)) \<and>
    (\<forall>bs rest. on_wire L = bs # rest \<longrightarrow> fr (indices (far_pipe E L)) \<noteq> {} \<longrightarrow>
      (\<exists>m. Machine_inbound (far_env E) bs (far L) = Done (m, None)))"
proof -
  from link_history_inv [OF assms(2,1)] have inv: "link_inv fr E L" .
  have "\<exists>m. Machine_inbound (far_env E) bs (far L) = Done (m, None)"
    if "on_wire L = bs # rest" "fr (indices (far_pipe E L)) \<noteq> {}" for bs rest
  proof -
    from inv that(1) obtain v where "far_ok fr E (far L)" "frame_message E bs = Some v"
      by (auto simp: link_inv_def Cons_eq_map_conv)
    from cross_message [OF assms(1) this that(2)] show ?thesis by blast
  qed
  with inv show ?thesis by (auto simp: link_inv_def)
qed

text \<open>Two nodes whose first sockets are connected to each other.\<close>

definition sample_ends ::
  "(bytes list \<times> OutboundFrame list, string, string, usize, nat) link_ends" where
  "sample_ends = \<lparr>near_env = sample_env, far_env = sample_env, near_id = 1, far_id = 1,
     near_socket = linked_socket, far_socket = linked_socket\<rparr>"

definition sample_link :: "(bytes list \<times> OutboundFrame list, string, usize, nat) link" where
  "sample_link = \<lparr>near = linked_machine sample_world, far = linked_machine sample_world, on_wire = [],
     accepted = [], arrived = []\<rparr>"

lemma sample_ends_ok: "ends_ok bitmap_free sample_ends"
  using sample_env_facts by (simp add: ends_ok_def sample_ends_def linked_socket_def)

lemma sample_link_start: "link_start bitmap_free sample_ends sample_link"
proof -
  have "feeds_ok bitmap_free (m_table (linked_machine sample_world)) sample_world"
    using wire_pipe_facts by (auto simp: feeds_ok_def sample_world_def linked_socket_def dest!: linked_sockets)
  then show ?thesis
    using linked_machine_facts [of sample_world] wire_pipe_facts
    by (auto simp: link_start_def near_ok_def far_ok_def sample_ends_def sample_link_def near_pipe_def far_pipe_def
        sample_world_def linked_socket_def Let_def machine_inv_def)
qed

lemma linked_set_pipe:
  "set_pipe a p (linked_machine w) = linked_machine (w\<lparr>pipe_at := (pipe_at w)(a := p)\<rparr>)"
  by (simp add: set_pipe_def linked_machine_def)

theorem connection_fifo_witness:
  "\<exists>L. link_history bitmap_free sample_ends L \<and> accepted L = [42] \<and> on_wire L = [] \<and>
    pipe_messages (near_pipe sample_ends L) = [] \<and> pipe_messages (far_pipe sample_ends L) = [42]"
proof -
  obtain p :: "(Reset, usize, nat) pipe" where
    p: "Sender_try_send bitmap_ops 7 [True] wire_pipe 42 = Done (p, Ok ())" "pipe_messages p = [42]" "elem_type p = 7"
    "Core_try_dequeue [True] p = Done (Core_dequeued p, Ok (hd (Core_queued p)))"
    "elements p ! unat (hd (Core_queued p)) = Some 42" "unat (hd (Core_queued p)) < length (elements p)"
    by (rule full_pipe)
  define w where "w = sample_world\<lparr>pipe_at := (pipe_at sample_world)(2 := p)\<rparr>"
  let ?E = sample_ends and ?L1 = "sample_link\<lparr>near := linked_machine w, accepted := [42]\<rparr>"
  have start: "link_history bitmap_free ?E sample_link" by (rule Linked [OF sample_link_start])
  have "link_step bitmap_free ?E sample_link (sample_link\<lparr>near := set_pipe (bd_rx (sock_channel (near_socket ?E))) p (near sample_link),
      accepted := accepted sample_link @ [42]\<rparr>)"
    using p(1) by (intro Accept)
      (simp add: sample_ends_def sample_link_def near_pipe_def sample_env_facts linked_socket_def linked_machine_facts
        sample_world_def)
  then have "link_step bitmap_free ?E sample_link ?L1"
    by (simp add: sample_ends_def sample_link_def linked_socket_def linked_set_pipe w_def)
  with start have L1: "link_history bitmap_free ?E ?L1" by (rule Onward)
  from link_history_inv [OF this sample_ends_ok] have near: "near_ok bitmap_free ?E (linked_machine w)"
    by (simp add: link_inv_def)
  have "pipe_at w 2 = p" by (simp add: w_def)
  from linked_take [OF this p(4,3,5,6)] obtain m f where
    out: "Machine_poll_outbound sample_env (linked_machine w) = Done (m, Ready f)" "header f = Data 1 1"
      "Frame_to_vec sample_codec wire_codec (m_world m) f = Done (Ok [2, 1, 1, 42])" .
  then have "Machine_poll_outbound (near_env ?E) (linked_machine w) = Done (m, Ready f)"
    "header f = Data (near_id ?E) (far_id ?E)"
    "Frame_to_vec (env_hc (near_env ?E)) (env_pc (near_env ?E)) (m_world m) f = Done (Ok [2, 1, 1, 42])"
    by (simp_all add: sample_ends_def sample_env_facts)
  from take_message [OF sample_ends_ok near this] obtain w' v where
    "OutboundData_drop (env_io (near_env ?E)) (body f) (m_world m) = Done w'"
    "pipe_messages (pipe_at (m_world (linked_machine w)) (bd_rx (sock_channel (near_socket ?E)))) =
      v # pipe_messages (pipe_at w' (bd_rx (sock_channel (near_socket ?E))))" .
  then have w': "OutboundData_drop bitmap_ops (body f) (m_world m) = Done w'"
      "pipe_messages p = v # pipe_messages (pipe_at w' 2)"
    by (simp_all add: sample_ends_def sample_env_facts linked_machine_facts linked_socket_def w_def)
  let ?L2 = "?L1\<lparr>near := m\<lparr>m_world := w', outbound_started := False\<rparr>, on_wire := [[2, 1, 1, 42]]\<rparr>"
  have "link_step bitmap_free ?E ?L1 (?L1\<lparr>near := m\<lparr>m_world := w', outbound_started := False\<rparr>,
      on_wire := on_wire ?L1 @ [[2, 1, 1, 42]]\<rparr>)"
    using out w' by (intro Take) (simp_all add: sample_ends_def sample_env_facts)
  then have "link_step bitmap_free ?E ?L1 ?L2" by (simp add: sample_link_def)
  with L1 have L2: "link_history bitmap_free ?E ?L2" by (rule Onward)
  have room: "bitmap_free (indices (far_pipe ?E ?L2)) \<noteq> {}"
    using wire_pipe_facts by (simp add: far_pipe_def sample_ends_def sample_link_def linked_machine_facts sample_world_def)
  with connection_fifo [OF sample_ends_ok L2] obtain n where
    n: "Machine_inbound sample_env [2, 1, 1, 42] (linked_machine sample_world) = Done (n, None)"
    by (auto simp: sample_link_def sample_ends_def)
  have "link_step bitmap_free ?E ?L2 (?L2\<lparr>far := n, on_wire := []\<rparr>)"
    using n room by (intro Cross) (simp_all add: sample_ends_def sample_link_def)
  with L2 have L3: "link_history bitmap_free ?E (?L2\<lparr>far := n, on_wire := []\<rparr>)" by (rule Onward)
  have "pipe_messages (near_pipe ?E (?L2\<lparr>far := n, on_wire := []\<rparr>)) = []"
    using w'(2) p(2) by (simp add: near_pipe_def sample_ends_def linked_socket_def)
  with connection_fifo [OF sample_ends_ok L3] L3 show ?thesis
    by (intro exI [of _ "?L2\<lparr>far := n, on_wire := []\<rparr>"]) (auto simp: sample_link_def)
qed

end
