(* ===== verification/Conn_Types.thy ===== *)
theory Conn_Types
  imports Machine_Properties
begin

section \<open>The types of channels\<close>

text \<open>
  Handles of erased channels carry the vtables of a type, chosen when the channel was erased; the
  table of connections holds them for as long as the connection lasts. This theory shows that a
  running interface keeps every handle together with a channel of its type, so that the check of
  \<open>ErasedSlice::unerase\<close> never fails. A typing gives the type of the channel at each address.
\<close>

declare Core_reserve.simps [simp del] Core_poll_dequeue.simps [simp del]

subsection \<open>No operation of a channel changes its type\<close>

text \<open>The operations of the core leave the rest of the pipe alone.\<close>

lemma more_fields:
  "core.more p = core.more p' \<Longrightarrow> elem_type p = elem_type p' \<and> elements p = elements p'"
  by (cases p; cases p') simp

lemma Core_try_reserve_more: "Core_try_reserve io c = (c', r) \<Longrightarrow> core.more c' = core.more c"
  by (auto simp: Core_try_reserve_def split: if_split_asm prod.split_asm)

lemma try_dequeue_loop_more:
  "Core_try_dequeue_loop sched c head = Done (c', r) \<Longrightarrow> core.more c' = core.more c"
  by (induction sched arbitrary: head) (auto simp: Let_def split: if_split_asm)

lemma Core_try_dequeue_more: "Core_try_dequeue sched c = Done (c', r) \<Longrightarrow> core.more c' = core.more c"
  by (auto simp: Core_try_dequeue_def dest: try_dequeue_loop_more)

lemma commit_send_loop_more:
  "Core_commit_send_loop sched c i tail = Done (c', r) \<Longrightarrow> core.more c' = core.more c"
  by (induction sched arbitrary: tail) (auto simp: Let_def split: if_split_asm)

lemma core_more [simp]:
  "core.more (Core_close_rx c) = core.more c" "core.more (Core_close_tx c) = core.more c"
  "core.more (Core_drop_tx c) = core.more c" "core.more (Core_add_tx c) = core.more c"
  "core.more (fst (Core_close_with_error c e)) = core.more c"
  "core.more (Reservation_drop io c i) = core.more c"
  by (simp_all add: Core_close_rx_def Core_close_tx_def Core_drop_tx_def Core_add_tx_def
      Core_close_with_error_def Reservation_drop_def Core_uncommit_def Let_def)

text \<open>What the other tasks do to a channel while a call awaits its turn does not change its type.\<close>

lemma Core_reserve_type:
  assumes "Core_reserve io resumes p = Done (p', r)" and "elem_type p = t"
    and "\<And>q b. (q, b) \<in> set resumes \<Longrightarrow> elem_type q = t"
  shows "elem_type p' = t"
  using assms
proof (induction resumes arbitrary: p)
  case Nil
  then show ?case
    by (auto simp: Core_reserve.simps [of io "[]" p] split: prod.split_asm sum.split_asm TrySendError.split_asm
        dest!: Core_try_reserve_more more_fields)
next
  case (Cons x resumes)
  obtain p1 y where y: "Core_try_reserve io p = (p1, y)" by fastforce
  with Cons.prems(2) have "elem_type p1 = t" by (auto dest!: Core_try_reserve_more more_fields)
  moreover obtain q b where "x = (q, b)" by fastforce
  ultimately show ?case
    using Cons.prems(1,3) y Cons.IH [of q]
    by (auto simp: Core_reserve.simps [of io "(q, b) # resumes" p] split: sum.split_asm TrySendError.split_asm)
qed

lemma Core_poll_dequeue_type:
  assumes "Core_poll_dequeue sched polls p = Done (p', r)" and "P p"
    and "\<And>q. Ready q \<in> set polls \<Longrightarrow> P q" and "\<And>q q'. core.more q' = core.more q \<Longrightarrow> P q \<Longrightarrow> P q'"
  shows "P p'"
  using assms
proof (induction polls arbitrary: p)
  case Nil
  then show ?case
    by (auto simp: Core_poll_dequeue.simps [of sched "[]" p] dest!: Core_try_dequeue_more
        split: outcome.split_asm sum.split_asm TryRecvError.split_asm)
next
  case (Cons x polls)
  from Cons.prems(1) obtain p1 y where y: "Core_try_dequeue sched p = Done (p1, y)"
    by (auto simp: Core_poll_dequeue.simps [of sched "x # polls" p] split: outcome.split_asm)
  have "P p1" using Core_try_dequeue_more [OF y] Cons.prems(2) by (rule Cons.prems(4))
  with Cons.prems y Cons.IH show ?case
    by (auto simp: Core_poll_dequeue.simps [of sched "x # polls" p]
        split: sum.split_asm TryRecvError.split_asm poll.split_asm)
qed

lemma SharedState_drop_type: "SharedState_drop io scheds p = Done p' \<Longrightarrow> elem_type p' = elem_type p"
proof (induction io scheds p rule: SharedState_drop.induct)
  case (2 io sched scheds p)
  from 2(2) obtain p1 x where x: "Core_try_dequeue sched p = Done (p1, x)"
    by (auto split: outcome.split_asm)
  with Core_try_dequeue_more [OF x] have t: "elem_type p1 = elem_type p" by (auto dest: more_fields)
  show ?case
  proof (cases x)
    case (Inl e)
    with 2(2) x t show ?thesis by simp
  next
    case (Inr i)
    with 2(2) x obtain v where v: "cell_ref (elements p1) i = Done v"
      by (auto split: outcome.split_asm)
    with 2 x Inr t show ?thesis by simp
  qed
qed simp

lemma ErasedPipe_drop_type: "ErasedPipe_drop io scheds p = Done p' \<Longrightarrow> elem_type p' = elem_type p"
  by (auto simp: ErasedPipe_drop_def dest: SharedState_drop_type split: storage.split_asm if_split_asm)

lemma close_fields_type:
  "elem_type (Core_close_rx p) = elem_type p" "elem_type (Core_drop_tx p) = elem_type p"
  "elem_type (fst (Core_close_with_error p e)) = elem_type p"
  by (rule conjunct1 [OF more_fields], simp)+

lemma handle_drop_type:
  "DeserSender_drop io scheds p = Done p' \<Longrightarrow> elem_type p' = elem_type p"
  "SerReceiver_drop io scheds p = Done p' \<Longrightarrow> elem_type p' = elem_type p"
  by (simp_all add: DeserSender_drop_def SerReceiver_drop_def close_fields_type ErasedPipe_drop_type)

lemma SerRecvRef_drop_type: "SerRecvRef_drop io t p i = Done p' \<Longrightarrow> elem_type p' = elem_type p"
  by (auto simp: SerRecvRef_drop_def SerVtable_drop_elem_def outcome_map_eq_Done_iff outcome_bind_eq_Done_iff)

lemma SerPermit_send_type:
  assumes "SerPermit_send io pc t sched p i bs = Done (p', r)"
  shows "elem_type p' = elem_type p"
proof -
  from assms obtain p1 x where x: "DeserVtable_from_bytes pc t p i bs = Done (p1, x)"
    by (auto simp: SerPermit_send_def outcome_bind_eq_Done_iff)
  then have "elem_type p1 = elem_type p"
    by (auto simp: DeserVtable_from_bytes_def outcome_bind_eq_Done_iff outcome_map_eq_Done_iff split: sum.split_asm)
  with assms x show ?thesis
    by (auto simp: SerPermit_send_def Reservation_commit_send_def Core_commit_send_def outcome_map_eq_Done_iff
        split: sum.split_asm if_split_asm dest!: commit_send_loop_more more_fields)
qed

lemma DeserSender_send_type:
  assumes "DeserSender_send io pc t sched resumes p bs = Done (p', r)" and "elem_type p = t'"
    and "\<And>q b. (q, b) \<in> set resumes \<Longrightarrow> elem_type q = t'"
  shows "elem_type p' = t'"
proof -
  from assms(1) obtain p1 x where x: "Core_reserve io resumes p = Done (p1, x)"
    by (auto simp: DeserSender_send_def DeserSender_reserve_def outcome_bind_eq_Done_iff)
  have "elem_type p1 = t'" by (rule Core_reserve_type [OF x assms(2,3)])
  with assms(1) x show ?thesis
    by (auto simp: DeserSender_send_def DeserSender_reserve_def split: sum.split_asm dest: SerPermit_send_type)
qed

subsection \<open>Typed nodes\<close>

text \<open>The typing: the type of the channel at each address.\<close>

type_synonym pipe_types = "nat \<Rightarrow> type_id"

definition chan_typed :: "pipe_types \<Rightarrow> ser_bidi \<Rightarrow> bool" where
  "chan_typed G ch \<longleftrightarrow> bd_tx_type ch = G (bd_tx ch) \<and> bd_rx_type ch = G (bd_rx ch)"

definition world_typed :: "pipe_types \<Rightarrow> ('ia, 'm) world \<Rightarrow> bool" where
  "world_typed G w \<longleftrightarrow> (\<forall>a. elem_type (pipe_at w a) = G a)"

definition table_typed :: "pipe_types \<Rightarrow> conn_table \<Rightarrow> bool" where
  "table_typed G ct \<longleftrightarrow> (\<forall>s. Occupied s \<in> set (conns ct) \<longrightarrow> chan_typed G (sock_channel s))"

text \<open>The requests in the queue of an interface hold typed channels, too.\<close>

definition requests_typed :: "pipe_types \<Rightarrow> ('n, 'ia, OutboundConnect) pipe \<Rightarrow> bool" where
  "requests_typed G p \<longleftrightarrow> (\<forall>c. Some c \<in> set (elements p) \<longrightarrow> chan_typed G (oc_channel c))"

definition machine_typed :: "pipe_types \<Rightarrow> ('wi, 'n, 'ia, 'm) machine \<Rightarrow> bool" where
  "machine_typed G m \<longleftrightarrow> world_typed G (m_world m) \<and> table_typed G (m_table m) \<and> requests_typed G (m_conns m)"

lemma world_typed_upd:
  assumes "world_typed G w" and "elem_type p = elem_type (pipe_at w a)"
  shows "world_typed G (w\<lparr>pipe_at := (pipe_at w)(a := p)\<rparr>)"
  using assms by (simp add: world_typed_def)

lemma world_typed_other [simp]:
  "world_typed G (w\<lparr>oneshot_at := f\<rparr>) = world_typed G w" "world_typed G (w\<lparr>box_at := g\<rparr>) = world_typed G w"
  by (simp_all add: world_typed_def)

lemma on_pipe_typed:
  assumes "on_pipe a f w = Done w'" and "world_typed G w" and "\<And>p p'. f p = Done p' \<Longrightarrow> elem_type p' = elem_type p"
  shows "world_typed G w'"
  using assms by (auto simp: on_pipe_def outcome_map_eq_Done_iff intro: world_typed_upd)

lemma drop_channel_typed:
  assumes "drop_channel io scheds ch w = Done w'" and "world_typed G w"
  shows "world_typed G w'"
proof -
  from assms(1) obtain w1 where w1: "on_pipe (bd_tx ch) (DeserSender_drop io scheds) w = Done w1"
    "on_pipe (bd_rx ch) (SerReceiver_drop io scheds) w1 = Done w'"
    by (auto simp: drop_channel_def outcome_bind_eq_Done_iff)
  have "world_typed G w1" using w1(1) assms(2) handle_drop_type(1) by (rule on_pipe_typed)
  with w1(2) show ?thesis using handle_drop_type(2) by (rule on_pipe_typed)
qed

lemma drop_state_typed: "drop_state st w = Done w' \<Longrightarrow> world_typed G w \<Longrightarrow> world_typed G w'"
  by (auto simp: drop_state_def outcome_map_eq_Done_iff split: conn_state.split_asm)

lemma drop_socket_typed: "drop_socket io scheds s w = Done w' \<Longrightarrow> world_typed G w \<Longrightarrow> world_typed G w'"
  by (auto simp: drop_socket_def outcome_bind_eq_Done_iff dest: drop_state_typed drop_channel_typed)

lemma send_rsp_typed: "send_rsp a r w = Done (w', b) \<Longrightarrow> world_typed G w \<Longrightarrow> world_typed G w'"
  by (auto simp: send_rsp_def outcome_map_eq_Done_iff)

lemma drop_consumer_typed: "drop_consumer c w = Done w' \<Longrightarrow> world_typed G w \<Longrightarrow> world_typed G w'"
  by (auto simp: drop_consumer_def outcome_map_eq_Done_iff)

lemma OutboundData_drop_typed: "OutboundData_drop io d w = Done w' \<Longrightarrow> world_typed G w \<Longrightarrow> world_typed G w'"
  by (cases d) (auto elim!: on_pipe_typed dest: SerRecvRef_drop_type drop_consumer_typed)

lemmas world_typed_dests = drop_channel_typed drop_state_typed drop_socket_typed send_rsp_typed drop_consumer_typed

subsection \<open>Typed tables\<close>

lemma table_typed_set:
  assumes "table_typed G ct" and "\<And>s. e = Occupied s \<Longrightarrow> chan_typed G (sock_channel s)"
  shows "table_typed G (Entries_set ct i e)"
  using assms set_update_subset_insert [of "conns ct" "Id_to_index i" e]
  by (auto simp: table_typed_def Entries_set_def)

lemma table_typed_fields [simp]:
  "table_typed G (ct\<lparr>next_id := i\<rparr>) = table_typed G ct" "table_typed G (ct\<lparr>table_len := n\<rparr>) = table_typed G ct"
  "table_typed G (ct\<lparr>dead_index := d\<rparr>) = table_typed G ct"
  by (simp_all add: table_typed_def)

lemma table_typed_get: "table_typed G ct \<Longrightarrow> Entries_get ct i = Some (Occupied s) \<Longrightarrow> chan_typed G (sock_channel s)"
  by (auto simp: table_typed_def Entries_get_def split: if_split_asm) (metis nth_mem)

lemma table_typed_sockets: "table_typed G ct \<Longrightarrow> sockets ct i = Some s \<Longrightarrow> chan_typed G (sock_channel s)"
  by (auto simp: sockets_def elim: Entry_socket.elims dest: table_typed_get split: if_split_asm option.split_asm)

lemma remove_typed: "ConnTable_remove ct i = Done (ct', r) \<Longrightarrow> table_typed G ct \<Longrightarrow> table_typed G ct'"
  by (auto simp: ConnTable_remove_def Let_def intro!: table_typed_set split: option.split_asm entry.split_asm if_split_asm)

lemma insert_at_typed:
  "ConnTable_insert_at ct i s = Done ct' \<Longrightarrow> table_typed G ct \<Longrightarrow> chan_typed G (sock_channel s) \<Longrightarrow> table_typed G ct'"
  by (auto simp: ConnTable_insert_at_def Let_def outcome_map_eq_Done_iff intro!: table_typed_set split: option.split_asm)

lemma insert_typed:
  "ConnTable_insert ct s = Done (ct', r) \<Longrightarrow> table_typed G ct \<Longrightarrow> chan_typed G (sock_channel s) \<Longrightarrow> table_typed G ct'"
  by (auto simp: ConnTable_insert_def outcome_map_eq_Done_iff dest: insert_at_typed split: option.split_asm)

subsection \<open>The operations of the table\<close>

text \<open>
  What the environment owes: the registry hands out typed channels, and the channel that a wait
  finds when it is woken has the type of the channel it waits on.
\<close>

definition registry_typed ::
  "pipe_types \<Rightarrow> (Identity \<Rightarrow> bytes \<Rightarrow> ('ia, 'm) world \<Rightarrow> (('ia, 'm) world \<times> (Rejection + ser_bidi)) outcome) \<Rightarrow> bool" where
  "registry_typed G registry \<longleftrightarrow> (\<forall>i bs w w' r. world_typed G w \<longrightarrow> registry i bs w = Done (w', r) \<longrightarrow>
     world_typed G w' \<and> (\<forall>ch. r = Ok ch \<longrightarrow> chan_typed G ch))"

definition polls_typed :: "pipe_types \<Rightarrow> (nat \<Rightarrow> (Reset, 'ia, 'm) pipe poll list) \<Rightarrow> conn_table \<Rightarrow> bool" where
  "polls_typed G polls ct \<longleftrightarrow> (\<forall>k s p. k < length (conns ct) \<longrightarrow> conns ct ! k = Occupied s \<longrightarrow>
     Ready p \<in> set (polls k) \<longrightarrow> elem_type p = G (bd_rx (sock_channel s)))"

definition resumes_typed ::
  "pipe_types \<Rightarrow> ((Reset, 'ia, 'm) pipe \<times> (unit + unit)) list \<Rightarrow> conn_table \<Rightarrow> Header \<Rightarrow> bool" where
  "resumes_typed G resumes ct h \<longleftrightarrow> (\<forall>l r s p b. h = Data l r \<longrightarrow> Entries_get ct r = Some (Occupied s) \<longrightarrow>
     (p, b) \<in> set resumes \<longrightarrow> elem_type p = G (bd_tx (sock_channel s)))"

lemma nth_update: "k < length xs \<Longrightarrow> xs[i := e] ! k = (if i = k then e else xs ! k)"
  by auto

lemma cleanup_dead_typed:
  assumes "ConnTable_cleanup_dead io scheds ct w = Done (ct', w')" and "table_typed G ct" and "world_typed G w"
    and "polls_typed G polls ct"
  shows "table_typed G ct' \<and> world_typed G w' \<and> polls_typed G polls ct'"
proof (cases "dead_index ct")
  case None
  with assms show ?thesis by (simp add: ConnTable_cleanup_dead_def)
next
  case (Some i)
  with assms(1) obtain ct1 s where "ConnTable_remove (ct\<lparr>dead_index := None\<rparr>) i = Done (ct1, s)"
    by (cases "ConnTable_remove (ct\<lparr>dead_index := None\<rparr>) i") (auto simp: ConnTable_cleanup_dead_def)
  with assms(1) Some have s: "ConnTable_remove (ct\<lparr>dead_index := None\<rparr>) i = Done (ct', s)"
    "case s of None \<Rightarrow> w' = w | Some s \<Rightarrow> drop_socket io scheds s w = Done w'"
    by (auto simp: ConnTable_cleanup_dead_def outcome_map_eq_Done_iff split: option.split_asm)
  have "polls_typed G polls ct'"
    using s(1) assms(4)
    by (auto simp: ConnTable_remove_def Let_def Entries_set_def polls_typed_def nth_update
        split: option.split_asm entry.split_asm if_split_asm)
  with s assms(2,3) show ?thesis
    by (auto dest: remove_typed drop_socket_typed split: option.split_asm)
qed

lemma poll_sockets_typed:
  assumes "poll_sockets sched polls idx es w = Done (w', dead, r)" and "world_typed G w"
    and "\<And>k s p. k < length es \<Longrightarrow> es ! k = Occupied s \<Longrightarrow> Ready p \<in> set (polls (idx + k)) \<Longrightarrow>
      elem_type p = G (bd_rx (sock_channel s))"
  shows "world_typed G w'"
  using assms
proof (induction es arbitrary: idx w)
  case (Cons e es)
  have rest: "world_typed G w'" if "poll_sockets sched polls (Suc idx) es v = Done (w', dead, r)" "world_typed G v" for v
    using that Cons.prems(3) [of "Suc k" for k] by (intro Cons.IH [of "Suc idx" v]) auto
  show ?case
  proof (cases "\<exists>s remote. e = Occupied s \<and> sock_state s = Open remote")
    case False
    with Cons.prems(1,2) rest show ?thesis
      by (auto elim: Entry_socket.elims split: option.split_asm conn_state.split_asm)
  next
    case True
    then obtain s remote where s: "e = Occupied s" "sock_state s = Open remote" by blast
    let ?a = "bd_rx (sock_channel s)"
    from Cons.prems(1) s obtain p x where p: "Core_poll_dequeue sched (polls idx) (pipe_at w ?a) = Done (p, x)"
      by (auto simp: Let_def outcome_bind_eq_Done_iff SerReceiver_poll_recv_def)
    have "elem_type p = G ?a"
    proof (rule Core_poll_dequeue_type [OF p])
      show "elem_type (pipe_at w ?a) = G ?a" using Cons.prems(2) by (simp add: world_typed_def)
      show "elem_type q = G ?a" if "Ready q \<in> set (polls idx)" for q using Cons.prems(3) [of 0] that s by simp
    qed (auto dest: more_fields)
    with Cons.prems(2) have "world_typed G (w\<lparr>pipe_at := (pipe_at w)(?a := p)\<rparr>)" by (simp add: world_typed_def)
    with Cons.prems(1) s p rest show ?thesis
      by (auto simp: Let_def SerReceiver_poll_recv_def outcome_map_eq_Done_iff split: poll.split_asm sum.split_asm)
  qed
qed simp

lemma poll_outbound_typed:
  assumes "ConnTable_poll_outbound sched polls ct w = Done (ct', w', r)" and "table_typed G ct"
    and "world_typed G w" and "polls_typed G polls ct"
  shows "table_typed G ct' \<and> world_typed G w'"
  using assms poll_sockets_typed [of sched polls 0 "conns ct" w w' _ r G]
  by (auto simp: ConnTable_poll_outbound_def outcome_map_eq_Done_iff polls_typed_def split: option.split)

lemma start_connecting_typed:
  assumes "ConnTable_start_connecting io scheds c ct w = Done (ct', w', f)" and "table_typed G ct"
    and "world_typed G w" and "chan_typed G (oc_channel c)"
  shows "table_typed G ct' \<and> world_typed G w'"
  using assms
  by (auto simp: ConnTable_start_connecting_def outcome_bind_eq_Done_iff outcome_map_eq_Done_iff
      dest: insert_at_typed world_typed_dests split: option.split_asm)

lemma process_ack_typed:
  assumes "ConnTable_process_ack ct i j w = Done (ct', w', f)" and "table_typed G ct" and "world_typed G w"
  shows "table_typed G ct' \<and> world_typed G w'"
  using assms
  by (auto simp: ConnTable_process_ack_def Let_def outcome_map_eq_Done_iff intro!: table_typed_set
      dest: send_rsp_typed table_typed_get split: option.split_asm entry.split_asm conn_state.split_asm)

lemma accept_typed:
  assumes "ConnTable_accept io scheds ct i ch w = Done (ct', w', f)" and "table_typed G ct" and "world_typed G w"
    and "chan_typed G ch"
  shows "table_typed G ct' \<and> world_typed G w'"
proof -
  let ?sock = "\<lparr>sock_state = Open i, sock_channel = ch\<rparr>"
  from assms(1) obtain ct1 r where r: "ConnTable_insert ct ?sock = Done (ct1, r)"
    by (auto simp: ConnTable_accept_def Let_def outcome_bind_eq_Done_iff)
  have "table_typed G ct1" by (rule insert_typed [OF r assms(2)]) (simp add: assms(4))
  with assms(1,3) r show ?thesis
    by (auto simp: ConnTable_accept_def Let_def outcome_map_eq_Done_iff dest: drop_socket_typed split: option.split_asm)
qed

lemma reject_typed:
  assumes "ConnTable_reject io scheds ct i e w = Done (ct', w', b)" and "table_typed G ct" and "world_typed G w"
  shows "table_typed G ct' \<and> world_typed G w'"
proof -
  from assms(1) obtain ct1 s where s: "ConnTable_remove ct i = Done (ct1, s)"
    by (cases "ConnTable_remove ct i") (auto simp: ConnTable_reject_def)
  show ?thesis
  proof (cases s)
    case None
    with assms s show ?thesis by (auto simp: ConnTable_reject_def dest: remove_typed)
  next
    case (Some sock)
    with assms s show ?thesis
      by (cases "sock_state sock") (auto simp: ConnTable_reject_def outcome_bind_eq_Done_iff outcome_map_eq_Done_iff
        dest: remove_typed world_typed_dests)
  qed
qed

lemma reset_typed:
  assumes "ConnTable_reset io scheds ct i e w = Done (ct', w', b)" and "table_typed G ct" and "world_typed G w"
  shows "table_typed G ct' \<and> world_typed G w'"
proof -
  from assms(1) obtain ct1 s where s: "ConnTable_remove ct i = Done (ct1, s)"
    by (cases "ConnTable_remove ct i") (auto simp: ConnTable_reset_def)
  have ct1: "ct1 = ct'"
    using assms(1) s by (cases s; cases "sock_state (the s)")
      (auto simp: ConnTable_reset_def Let_def case_prod_unfold outcome_bind_eq_Done_iff outcome_map_eq_Done_iff)
  have "world_typed G w'"
  proof (cases s)
    case None
    with assms s show ?thesis by (simp add: ConnTable_reset_def)
  next
    case (Some sock)
    show ?thesis
    proof (cases "sock_state sock")
      case (Connecting a)
      with assms s Some show ?thesis
        by (auto simp: ConnTable_reset_def outcome_bind_eq_Done_iff outcome_map_eq_Done_iff dest: world_typed_dests)
    next
      case (Open a)
      let ?ch = "sock_channel sock"
      define w1 where "w1 = w\<lparr>pipe_at := (pipe_at w)(bd_tx ?ch := fst (Core_close_with_error (pipe_at w (bd_tx ?ch)) e))\<rparr>"
      define w2 where "w2 = w1\<lparr>pipe_at := (pipe_at w1)(bd_rx ?ch := fst (Core_close_with_error (pipe_at w1 (bd_rx ?ch)) e))\<rparr>"
      have "world_typed G w1"
        unfolding w1_def using assms(3) by (rule world_typed_upd) (rule close_fields_type)
      then have "world_typed G w2"
        unfolding w2_def by (rule world_typed_upd) (rule close_fields_type)
      moreover have "drop_channel io scheds ?ch w2 = Done w'"
        using assms(1) s Some Open
        by (auto simp: ConnTable_reset_def Let_def outcome_map_eq_Done_iff case_prod_unfold w1_def w2_def
            DeserSender_close_with_error_def SerReceiver_close_with_error_def)
      ultimately show ?thesis by (rule drop_channel_typed [rotated])
    qed
  qed
  with s ct1 assms(2) show ?thesis by (auto dest: remove_typed)
qed

lemma process_data_typed:
  assumes "process_data io pc sched scheds resumes ct w l r bs = Done (ct', w', f)" and "table_typed G ct"
    and "world_typed G w" and "resumes_typed G resumes ct (Data l r)"
  shows "table_typed G ct' \<and> world_typed G w'"
proof (cases "\<exists>s. Entries_get ct r = Some (Occupied s) \<and> sock_state s = Open l")
  case False
  with assms(1-3) show ?thesis
    by (auto simp: process_data_def Let_def elim: Entry_socket.elims
        split: option.split_asm conn_state.split_asm if_split_asm)
next
  case True
  then obtain s where s: "Entries_get ct r = Some (Occupied s)" "sock_state s = Open l" by blast
  let ?ch = "sock_channel s"
  from assms(1) s obtain p x where p: "DeserSender_send io pc (bd_tx_type ?ch) sched resumes (pipe_at w (bd_tx ?ch)) bs = Done (p, x)"
    by (auto simp: process_data_def Let_def outcome_bind_eq_Done_iff)
  have "elem_type p = G (bd_tx ?ch)"
  proof (rule DeserSender_send_type [OF p])
    show "elem_type (pipe_at w (bd_tx ?ch)) = G (bd_tx ?ch)" using assms(3) by (simp add: world_typed_def)
    show "elem_type q = G (bd_tx ?ch)" if "(q, b) \<in> set resumes" for q b
      using assms(4) s(1) that unfolding resumes_typed_def by blast
  qed
  with assms(3) have "world_typed G (w\<lparr>pipe_at := (pipe_at w)(bd_tx ?ch := p)\<rparr>)" by (simp add: world_typed_def)
  with assms(1,2) s p show ?thesis
    by (auto simp: process_data_def Let_def outcome_bind_eq_Done_iff outcome_map_eq_Done_iff
        dest: remove_typed drop_socket_typed split: sum.split_asm option.split_asm)
qed

lemma process_inbound_typed:
  assumes "ConnTable_process_inbound io pc sched scheds resumes registry ct w f = Done (ct', w', g)"
    and "table_typed G ct" and "world_typed G w" and "resumes_typed G resumes ct (header f)"
    and "registry_typed G registry"
  shows "table_typed G ct' \<and> world_typed G w'"
proof (cases "header f")
  case (Connect i identity)
  with assms(1) obtain w1 x where x: "registry identity (body f) w = Done (w1, x)"
    by (auto simp: ConnTable_process_inbound_def outcome_bind_eq_Done_iff)
  with assms(3,5) have "world_typed G w1" "\<And>ch. x = Ok ch \<Longrightarrow> chan_typed G ch" unfolding registry_typed_def by blast+
  with assms(1,2) x Connect show ?thesis
    by (auto simp: ConnTable_process_inbound_def outcome_map_eq_Done_iff dest: accept_typed split: sum.split_asm)
qed (use assms in \<open>auto simp: ConnTable_process_inbound_def outcome_map_eq_Done_iff
    dest: process_data_typed process_ack_typed reject_typed reset_typed\<close>)

subsection \<open>The interface\<close>

definition env_typed :: "pipe_types \<Rightarrow> ('wi, 'we, 'n, 'ia, 'm) run_env \<Rightarrow> ('wi, 'n, 'ia, 'm) machine \<Rightarrow> bool" where
  "env_typed G env m \<longleftrightarrow>
     registry_typed G (env_registry env) \<and> polls_typed G (env_polls env) (m_table m) \<and>
     (\<forall>p. Ready p \<in> set (conns_polls env) \<longrightarrow> requests_typed G p) \<and>
     (\<forall>wi buf f. wire_recv env (m_wire m) = (wi, Ready (Ok buf)) \<longrightarrow>
        Frame_from_bytes (env_hc env) buf = Done (Ok f) \<longrightarrow>
        resumes_typed G (env_resumes env) (m_table m) (header f))"

lemma machine_typed_fields [simp]:
  "machine_typed G (m\<lparr>outbound_started := b\<rparr>) = machine_typed G m"
  "machine_typed G (m\<lparr>conns_remaining := b\<rparr>) = machine_typed G m"
  "machine_typed G (m\<lparr>m_wire := wi\<rparr>) = machine_typed G m"
  by (simp_all add: machine_typed_def)

lemma Machine_respond_typed:
  assumes "Machine_respond env map_err f m = Done (m', r)" and "machine_typed G m"
  shows "machine_typed G m'"
  using assms
  by (auto simp: Machine_respond_def Machine_send_def machine_typed_def outcome_bind_eq_Done_iff
      outcome_map_eq_Done_iff dest: OutboundData_drop_typed)

lemma Machine_inbound_typed:
  assumes "Machine_inbound env buf m = Done (m', r)" and "machine_typed G m"
    and "registry_typed G (env_registry env)"
    and "\<And>f. Frame_from_bytes (env_hc env) buf = Done (Ok f) \<Longrightarrow>
      resumes_typed G (env_resumes env) (m_table m) (header f)"
  shows "machine_typed G m'"
proof (cases "\<exists>f. Frame_from_bytes (env_hc env) buf = Done (Ok f)")
  case False
  with assms(1) obtain e where "Frame_from_bytes (env_hc env) buf = Done (Err e)"
    by (metis Machine_inbound_cases)
  with assms(1,2) show ?thesis by (simp add: Machine_inbound_def)
next
  case True
  then obtain f where f: "Frame_from_bytes (env_hc env) buf = Done (Ok f)" by blast
  with assms(1) obtain ct w x where p: "ConnTable_process_inbound (env_io env) (env_pc env) (env_sched env)
      (env_scheds env) (env_resumes env) (env_registry env) (m_table m) (m_world m) f = Done (ct, w, x)"
    by (auto simp: Machine_inbound_def link_id_not_interface outcome_bind_eq_Done_iff)
  from process_inbound_typed [OF p] assms(2,3) assms(4) [OF f]
  have "machine_typed G (m\<lparr>m_table := ct, m_world := w\<rparr>)" by (simp add: machine_typed_def)
  with assms(1) f p show ?thesis
    by (auto simp: Machine_inbound_def link_id_not_interface Let_def dest: Machine_respond_typed split: option.split_asm)
qed

lemma Machine_connect_typed:
  assumes "Machine_connect env c m = Done (m', r)" and "machine_typed G m" and "chan_typed G (oc_channel c)"
  shows "machine_typed G m'"
proof -
  from assms(1) obtain ct w x where
    p: "ConnTable_start_connecting (env_io env) (env_scheds env) c (m_table m) (m_world m) = Done (ct, w, x)"
    by (auto simp: Machine_connect_def outcome_bind_eq_Done_iff)
  from start_connecting_typed [OF p] assms(2,3)
  have "machine_typed G (m\<lparr>m_table := ct, m_world := w\<rparr>)" by (simp add: machine_typed_def)
  with assms(1) p show ?thesis
    by (auto simp: Machine_connect_def Let_def dest: Machine_respond_typed split: option.split_asm)
qed

lemma Machine_poll_outbound_typed:
  assumes "Machine_poll_outbound env m = Done (m', r)" and "machine_typed G m"
    and "polls_typed G (env_polls env) (m_table m)"
  shows "machine_typed G m'"
proof -
  have typed: "table_typed G (m_table m)" "world_typed G (m_world m)" "requests_typed G (m_conns m)"
    using assms(2) by (simp_all add: machine_typed_def)
  have "table_typed G (m_table m') \<and> world_typed G (m_world m')"
  proof (cases "outbound_started m")
    case True
    with assms(1) have "ConnTable_poll_outbound (env_sched env) (env_polls env) (m_table m) (m_world m) =
        Done (m_table m', m_world m', r)"
      by (auto simp: Machine_poll_outbound_def outcome_map_eq_Done_iff)
    then show ?thesis using typed(1,2) assms(3) by (rule poll_outbound_typed)
  next
    case False
    with assms(1) obtain ct w where
      c: "ConnTable_cleanup_dead (env_io env) (env_scheds env) (m_table m) (m_world m) = Done (ct, w)"
        "ConnTable_poll_outbound (env_sched env) (env_polls env) ct w = Done (m_table m', m_world m', r)"
      by (auto simp: Machine_poll_outbound_def ConnTable_next_outbound_def outcome_map_eq_Done_iff outcome_bind_eq_Done_iff)
    from cleanup_dead_typed [OF c(1) typed(1,2) assms(3)] poll_outbound_typed [OF c(2)] show ?thesis by blast
  qed
  moreover have "m_conns m' = m_conns m"
    using assms(1) by (auto simp: Machine_poll_outbound_def outcome_map_eq_Done_iff)
  ultimately show ?thesis using typed(3) by (simp add: machine_typed_def)
qed

lemma requests_typed_more: "core.more p' = core.more p \<Longrightarrow> requests_typed G p \<Longrightarrow> requests_typed G p'"
  by (auto simp: requests_typed_def dest: more_fields)

lemma Recv_poll_typed:
  assumes "Recv_poll io t sched polls p = Done (p', r)" and "requests_typed G p"
    and "\<And>q. Ready q \<in> set polls \<Longrightarrow> requests_typed G q"
  shows "requests_typed G p' \<and> (\<forall>c. r = Ready (Ok c) \<longrightarrow> chan_typed G (oc_channel c))"
proof -
  from assms(1) obtain p1 x where x: "Core_poll_dequeue sched polls p = Done (p1, x)"
    by (auto simp: Recv_poll_def Receiver_poll_recv_def outcome_bind_eq_Done_iff)
  have p1: "requests_typed G p1"
    by (rule Core_poll_dequeue_type [where P = "requests_typed G", OF x assms(2)])
      (auto intro: assms(3) requests_typed_more)
  show ?thesis
  proof (cases "\<exists>i. x = Ready (Ok i)")
    case False
    with assms(1) x p1 show ?thesis
      by (auto simp: Recv_poll_def Receiver_poll_recv_def split: poll.split_asm sum.split_asm)
  next
    case True
    then obtain i where i: "x = Ready (Ok i)" by blast
    with assms(1) x obtain c where c: "cell_ref (elements p1) i = Done c"
      "p' = Reservation_drop io (p1\<lparr>elements := (elements p1)[unat i := None]\<rparr>) i" "r = Ready (Ok c)"
      by (auto simp: Recv_poll_def Receiver_poll_recv_def Receiver_take_value_def TypedPipe_elems_def
          ErasedSlice_unerase_def outcome_bind_eq_Done_iff outcome_map_eq_Done_iff split: if_split_asm)
    have "Some c \<in> set (elements p1)"
      using c(1) by (auto simp: cell_ref_def split: if_split_asm option.split_asm) (metis nth_mem)
    moreover have "requests_typed G p'"
      using p1 c(2) set_update_subset_insert [of "elements p1" "unat i" None]
      by (auto simp: requests_typed_def Reservation_drop_def Core_uncommit_def)
    ultimately show ?thesis using p1 c(3) by (auto simp: requests_typed_def)
  qed
qed

lemma Machine_poll_conns_typed:
  assumes "Machine_poll_conns env m = Done (m', r)" and "machine_typed G m"
    and "\<And>q. Ready q \<in> set (conns_polls env) \<Longrightarrow> requests_typed G q"
  shows "machine_typed G m'"
proof (cases "conns_remaining m")
  case False
  with assms(1,2) show ?thesis by (simp add: Machine_poll_conns_def)
next
  case True
  with assms(1) obtain p x where x:
    "Recv_poll (env_io env) (conns_type env) (env_sched env) (conns_polls env) (m_conns m) = Done (p, x)"
    by (auto simp: Machine_poll_conns_def outcome_bind_eq_Done_iff)
  have "requests_typed G (m_conns m)" using assms(2) by (simp add: machine_typed_def)
  from Recv_poll_typed [OF x this assms(3)] have p: "requests_typed G p"
    "\<And>c. x = Ready (Ok c) \<Longrightarrow> chan_typed G (oc_channel c)" by auto
  with assms(2) have "machine_typed G (m\<lparr>m_conns := p\<rparr>)" by (simp add: machine_typed_def)
  with assms(1) True x p(2) show ?thesis
    by (auto simp: Machine_poll_conns_def Let_def finish_iteration_def outcome_map_eq_Done_iff
        dest: Machine_connect_typed split: poll.split_asm sum.split_asm)
qed

lemma Machine_run_poll_typed:
  assumes "Machine_run_poll env m = Done (m', r)" and "machine_typed G m" and "env_typed G env m"
  shows "machine_typed G m'"
proof -
  obtain wi x where wire: "wire_recv env (m_wire m) = (wi, x)" by fastforce
  show ?thesis
  proof (cases x)
    case Pending
    with assms(1) wire obtain m1 y where m1: "Machine_poll_outbound env (m\<lparr>m_wire := wi\<rparr>) = Done (m1, y)"
      by (auto simp: Machine_run_poll_def outcome_bind_eq_Done_iff)
    have "machine_typed G m1"
      by (rule Machine_poll_outbound_typed [OF m1]) (use assms(2,3) in \<open>simp_all add: env_typed_def\<close>)
    with assms(1,3) wire Pending m1 show ?thesis
      by (auto simp: Machine_run_poll_def finish_iteration_def outcome_map_eq_Done_iff env_typed_def
          dest: Machine_respond_typed Machine_poll_conns_typed split: poll.split_asm)
  next
    case (Ready y)
    show ?thesis
    proof (cases y)
      case (Inl e)
      with assms(1,2) wire Ready show ?thesis by (auto simp: Machine_run_poll_def finish_iteration_def)
    next
      case (Inr buf)
      with assms(1) wire Ready obtain m1 where
        "Machine_inbound env buf (m\<lparr>m_wire := wi\<rparr>) = Done (m1, (case r of Ready y \<Rightarrow> y | Pending \<Rightarrow> None))"
        "m' = m1\<lparr>outbound_started := False\<rparr>"
        by (auto simp: Machine_run_poll_def finish_iteration_def outcome_map_eq_Done_iff)
      with Machine_inbound_typed [OF this(1)] assms(2,3) wire Ready Inr show ?thesis by (auto simp: env_typed_def)
    qed
  qed
qed

subsection \<open>Every state of an interface is typed\<close>

text \<open>The states of an interface whose environment and whose other tasks respect the typing.\<close>

inductive typed_history ::
  "pipe_types \<Rightarrow> nat \<Rightarrow> ('wi, 'n, 'ia, 'm) machine \<Rightarrow> 'we InterfaceError option poll \<Rightarrow> bool"
  for G :: pipe_types and n :: nat where
  Start: "Interface_new io scheds n wi p w = Done m \<Longrightarrow> world_typed G w \<Longrightarrow> requests_typed G p \<Longrightarrow>
    typed_history G n m Pending"
| Poll: "typed_history G n m r \<Longrightarrow> env_typed G env m \<Longrightarrow> Machine_run_poll env m = Done (m', r') \<Longrightarrow>
    typed_history G n m' r'"
| Run_Again: "typed_history G n m r \<Longrightarrow> typed_history G n (Machine_run m) Pending"
| Other_Tasks: "typed_history G n m r \<Longrightarrow> world_typed G w \<Longrightarrow> requests_typed G p \<Longrightarrow>
    typed_history G n (m\<lparr>m_world := w, m_conns := p, m_wire := wi\<rparr>) r"

lemma SharedState_drop_requests:
  "SharedState_drop io scheds p = Done p' \<Longrightarrow> requests_typed G p \<Longrightarrow> requests_typed G p'"
proof (induction io scheds p rule: SharedState_drop.induct)
  case (2 io sched scheds p)
  from 2(2) obtain p1 x where x: "Core_try_dequeue sched p = Done (p1, x)"
    by (auto split: outcome.split_asm)
  have p1: "requests_typed G p1" by (rule requests_typed_more [OF Core_try_dequeue_more [OF x] 2(3)])
  show ?case
  proof (cases x)
    case (Inl e)
    with 2(2) x p1 show ?thesis by simp
  next
    case (Inr i)
    with 2(2) x obtain v where v: "cell_ref (elements p1) i = Done v"
      by (auto split: outcome.split_asm)
    have "requests_typed G (Reservation_drop io
        (p1\<lparr>elements := (elements p1)[unat i := None], dropped := dropped p1 @ [v]\<rparr>) i)"
      using p1 set_update_subset_insert [of "elements p1" "unat i" None]
      by (auto simp: requests_typed_def Reservation_drop_def Core_uncommit_def)
    with 2 x Inr v show ?thesis by simp
  qed
qed simp

lemma Interface_new_typed:
  assumes "Interface_new io scheds n wi p w = Done m" and "world_typed G w" and "requests_typed G p"
  shows "machine_typed G m"
proof -
  have fields: "requests_typed G (q\<lparr>state := x\<rparr>) = requests_typed G q" "requests_typed G (q\<lparr>storage := y\<rparr>) = requests_typed G q"
    for q :: "('n, 'ia, OutboundConnect) pipe" and x y by (simp_all add: requests_typed_def)
  from assms(1) obtain p1 p2 p3 where p: "TrickyPipe_sender p = Done p1" "TrickyPipe_receiver p1 = Done (p2, Some ())"
    "TrickyPipe_drop io scheds p2 = Done p3" "m_conns m = p3" "m_world m = w" "m_table m = ConnTable_new n"
    by (auto simp: Interface_new_def outcome_bind_eq_Done_iff outcome_map_eq_Done_iff split: option.split_asm)
  have "requests_typed G p1"
    using p(1) assms(3)
    by (auto simp: TrickyPipe_sender_def TrickyPipe_pipe_def ErasedPipe_clone_def Core_add_tx_def fields
        split: storage.split_asm if_split_asm)
  with p(2) have "requests_typed G p2"
    by (auto simp: TrickyPipe_receiver_def TrickyPipe_pipe_def ErasedPipe_clone_def Core_try_claim_rx_def Let_def
        fields outcome_map_eq_Done_iff split: option.split_asm storage.split_asm if_split_asm)
  then have "requests_typed G (Core_drop_tx p2)" by (rule requests_typed_more [rotated]) simp
  then have "requests_typed G (Core_drop_tx p2\<lparr>storage := x\<rparr>)" for x by (simp add: fields)
  with p(3) \<open>requests_typed G (Core_drop_tx p2)\<close> have "requests_typed G p3"
    by (auto simp: TrickyPipe_drop_def ErasedPipe_drop_def intro: SharedState_drop_requests
        split: storage.split_asm if_split_asm)
  with p(4-6) assms(2) show ?thesis by (simp add: machine_typed_def table_typed_def ConnTable_new_def)
qed

lemma typed_history_typed: "typed_history G n m r \<Longrightarrow> machine_typed G m"
proof (induction rule: typed_history.induct)
  case (Start io scheds wi p w m)
  then show ?case by (rule Interface_new_typed)
next
  case (Poll m r env m' r')
  then show ?case by (blast intro: Machine_run_poll_typed)
next
  case (Run_Again m r)
  then show ?case by (simp add: Machine_run_def)
qed (simp add: machine_typed_def)

text \<open>
  C15: No type confusion: an interface whose registry hands out typed channels keeps every handle
  with a channel of its type, whatever frames arrive and whatever the other tasks send, receive or
  close. So the type check that guards every access through an erased handle never fails in any
  state it reaches: a frame body is decoded into any cell of the channel of its socket without a
  panic, and every message in the other channel is encoded as a value of its type.
\<close>

theorem channels_keep_type:
  fixes m :: "('wi, 'n, 'ia, 'm) machine"
  assumes "typed_history G n m r" and "sockets (m_table m) i = Some s"
    and "pin = pipe_at (m_world m) (bd_tx (sock_channel s))" and "pout = pipe_at (m_world m) (bd_rx (sock_channel s))"
  shows "elem_type pin = bd_tx_type (sock_channel s) \<and> elem_type pout = bd_rx_type (sock_channel s) \<and>
    (\<forall>(pc :: ('m, 'x) postcard) k bs. unat k < length (elements pin) \<longrightarrow>
      (\<exists>x. DeserVtable_from_bytes pc (bd_tx_type (sock_channel s)) pin k bs = Done x)) \<and>
    (\<forall>(pc :: ('m, 'x) postcard) k v. cell_ref (elements pout) k = Done v \<longrightarrow>
      SerRecvRef_to_vec pc (bd_rx_type (sock_channel s)) pout k = Done (pc_to_allocvec pc v))"
proof -
  from typed_history_typed [OF assms(1)] have typed: "world_typed G (m_world m)" "table_typed G (m_table m)"
    by (simp_all add: machine_typed_def)
  from table_typed_sockets [OF typed(2) assms(2)] typed(1) assms(3,4)
  have "elem_type pin = bd_tx_type (sock_channel s)" "elem_type pout = bd_rx_type (sock_channel s)"
    by (simp_all add: world_typed_def chan_typed_def)
  then show ?thesis
    by (auto simp: DeserVtable_from_bytes_def SerRecvRef_to_vec_def SerVtable_to_vec_def SerVtable_elem_def
        ErasedSlice_unerase_def cell_at_def split: sum.split)
qed

text \<open>A registry that serves every connection over the channels 1 and 2, and a CONNECT frame for it.\<close>

definition serving_env :: "(bytes list \<times> OutboundFrame list, string, string, usize, nat) run_env" where
  "serving_env = sample_env\<lparr>env_registry := (\<lambda>_ _ w. Done (w, Ok sample_chan)),
     env_hc := sample_codec\<lparr>hc_take_from_bytes := (\<lambda>_. Ok (Connect 4 (Identity_from_name 1 ''echo''), []))\<rparr>\<rparr>"

lemma serving_env_typed: "env_typed (\<lambda>_. 7) serving_env m"
  by (auto simp: env_typed_def serving_env_def sample_env_def registry_typed_def polls_typed_def resumes_typed_def
      chan_typed_def)

lemma serving_poll:
  assumes "m_wire m = ([[3]], [])" and "m_table m = ConnTable_new 2"
  shows "Machine_run_poll serving_env m = Done (m\<lparr>m_wire := ([], [Frame_ack 1 4]), outbound_started := False,
    m_table := \<lparr>conns = [Occupied \<lparr>sock_state = Open 4, sock_channel = sample_chan\<rparr>, Unused], next_id = 2,
      table_len = 1, dead_index = None\<rparr>\<rparr>, Ready None)"
  using assms insert_first [of "\<lparr>sock_state = Open 4, sock_channel = sample_chan\<rparr>"]
  by (simp add: Machine_run_poll_def serving_env_def sample_env_def Machine_inbound_def Frame_from_bytes_def
    link_id_not_interface ConnTable_process_inbound_def ConnTable_accept_def Machine_respond_def Machine_send_def
    finish_iteration_def Frame_ack_def Let_def LinkId_INTERFACE_def)

theorem channels_keep_type_witness:
  "\<exists>m :: (bytes list \<times> OutboundFrame list, string, usize, nat) machine.
     sockets (m_table m) 1 = Some \<lparr>sock_state = Open 4, sock_channel = sample_chan\<rparr> \<and>
     (\<forall>bs. \<exists>x. DeserVtable_from_bytes wire_codec 7 (pipe_at (m_world m) 1) 0 bs = Done x)"
proof -
  obtain m :: "(bytes list \<times> OutboundFrame list, string, usize, nat) machine" where
    m: "Interface_new bitmap_ops [] 2 ([[3]], []) sample_conns sample_world = Done m"
      "m_wire m = ([[3]], [])" "m_table m = ConnTable_new 2" "m_world m = sample_world"
    using Interface_new_Done [of sample_conns bitmap_ops "[]" 2
      "([[3]], []) :: bytes list \<times> OutboundFrame list" sample_world]
    by (auto simp: sample_conns_storage)
  have "world_typed (\<lambda>_. 7) sample_world" by (simp add: world_typed_def sample_world_def wire_pipe_def)
  moreover have "requests_typed (\<lambda>_. 7) sample_conns" by (simp add: requests_typed_def sample_conns_def)
  ultimately have start: "typed_history (\<lambda>_. 7) 2 m (Pending :: string InterfaceError option poll)"
    using m(1) by (intro typed_history.Start)
  obtain m' where m': "Machine_run_poll serving_env m = Done (m', Ready None)" "m_world m' = sample_world"
    "m_table m' = \<lparr>conns = [Occupied \<lparr>sock_state = Open 4, sock_channel = sample_chan\<rparr>, Unused], next_id = 2,
      table_len = 1, dead_index = None\<rparr>"
    using serving_poll [OF m(2,3)] m(4) by auto
  from start serving_env_typed m'(1) have
    h: "typed_history (\<lambda>_. 7) 2 m' (Ready None :: string InterfaceError option poll)" by (rule typed_history.Poll)
  have s: "sockets (m_table m') 1 = Some \<lparr>sock_state = Open 4, sock_channel = sample_chan\<rparr>"
    by (simp add: m' sockets_def Entries_get_def Id_to_index_def)
  note w = m'(2)
  have "length (elements (pipe_at (m_world m') 1)) = 4" by (simp add: w sample_world_def wire_pipe_def)
  then have "\<exists>x. DeserVtable_from_bytes wire_codec 7 (pipe_at (m_world m') 1) 0 bs = Done x" for bs
    using channels_keep_type [OF h s refl refl, THEN conjunct2, THEN conjunct2, THEN conjunct1,
      THEN spec [of _ wire_codec], THEN spec [of _ 0], THEN spec [of _ bs]] by simp
  with s show ?thesis by (intro exI [of _ m']) simp
qed

end
