(* ===== verification/Plugtail.thy ===== *)
theory Plugtail
  imports Prelude
begin

section \<open>Storage with a header and a tail (\<open>plugtail/src/lib.rs\<close>)\<close>

text \<open>
  The crate \<open>plugtail\<close>: a header followed by an array whose length is known at run time, in one
  allocation with a reference count (\<open>ArcPlugTail\<close>) or in a static. The pointer arithmetic of the
  allocated variant is modelled in bytes: the layout of the \<open>repr(C)\<close> structs, the \<open>Layout\<close> the
  memory is allocated and freed with, the offset of the tail. Access outside the allocation, a
  wrong layout on release and any use after the release are \<open>UB\<close>. The header's \<open>body_drop\<close> and
  the allocator are parameters.
\<close>

subsection \<open>Layouts\<close>

record ty =
  ty_size :: nat
  ty_align :: nat

record layout =
  l_size :: nat
  l_align :: nat

definition isize_max :: nat where
  "isize_max = 2 ^ 63 - 1"

definition pow2 :: "nat \<Rightarrow> bool" where
  "pow2 a = (a \<in> set (map (\<lambda>k. 2 ^ k) [0..<63]))"

text \<open>What the language guarantees of every type.\<close>

definition ty_ok :: "ty \<Rightarrow> bool" where
  "ty_ok t = (pow2 (ty_align t) \<and> ty_align t dvd ty_size t)"

definition round_up :: "nat \<Rightarrow> nat \<Rightarrow> nat" where
  "round_up n a = (n + a - 1) div a * a"

text \<open>\<open>repr(C)\<close>: fields in order, each at the next multiple of its alignment.\<close>

fun repr_c_from :: "nat \<Rightarrow> ty list \<Rightarrow> nat list \<times> nat" where
  "repr_c_from off [] = ([], off)"
| "repr_c_from off (t # ts) =
     (let at = round_up off (ty_align t); (offs, e) = repr_c_from (at + ty_size t) ts
      in (at # offs, e))"

definition repr_c :: "ty list \<Rightarrow> nat list \<times> ty" where
  "repr_c ts =
     (let (offs, e) = repr_c_from 0 ts; al = fold max (map ty_align ts) 1
      in (offs, \<lparr>ty_size = round_up e al, ty_align = al\<rparr>))"

definition usize_ty :: ty where
  "usize_ty = \<lparr>ty_size = 8, ty_align = 8\<rparr>"

definition array_ty :: "ty \<Rightarrow> nat \<Rightarrow> ty" where
  "array_ty t n = \<lparr>ty_size = n * ty_size t, ty_align = ty_align t\<rparr>"

definition ArcHdr :: "ty \<Rightarrow> nat list \<times> ty" where
  "ArcHdr h = repr_c [usize_ty, usize_ty, h]"

definition PlugTail :: "ty \<Rightarrow> ty \<Rightarrow> nat list \<times> ty" where
  "PlugTail h t = repr_c [h, array_ty t 0]"

text \<open>\<open>Layout::new\<close>, \<open>Layout::from_size_align\<close>, \<open>Layout::array\<close> and \<open>Layout::extend\<close> of \<open>core\<close>.\<close>

definition Layout_new :: "ty \<Rightarrow> layout" where
  "Layout_new t = \<lparr>l_size = ty_size t, l_align = ty_align t\<rparr>"

definition Layout_from_size_align :: "nat \<Rightarrow> nat \<Rightarrow> layout option" where
  "Layout_from_size_align s a = (if s \<le> isize_max + 1 - a then Some \<lparr>l_size = s, l_align = a\<rparr> else None)"

definition Layout_array :: "ty \<Rightarrow> usize \<Rightarrow> layout option" where
  "Layout_array t n = Layout_from_size_align (unat n * ty_size t) (ty_align t)"

definition Layout_extend :: "layout \<Rightarrow> layout \<Rightarrow> (layout \<times> nat) option" where
  "Layout_extend l nxt =
     (let off = round_up (l_size l) (l_align nxt)
      in case Layout_from_size_align (off + l_size nxt) (max (l_align l) (l_align nxt)) of
           None \<Rightarrow> None
         | Some l' \<Rightarrow> Some (l', off))"

definition ArcPlugTail_layout :: "ty \<Rightarrow> ty \<Rightarrow> usize \<Rightarrow> layout outcome" where
  "ArcPlugTail_layout h t n =
     (case Layout_array t n of
        None \<Rightarrow> Panic
      | Some arr \<Rightarrow>
          (case Layout_extend (Layout_new (snd (PlugTail (snd (ArcHdr h)) t))) arr of
             None \<Rightarrow> Panic
           | Some (l, _) \<Rightarrow> Done l))"

text \<open>Where the user's header and the tail start: the fields \<open>hdr.hdr\<close> and \<open>tail\<close>.\<close>

definition hdr_offset :: "ty \<Rightarrow> nat" where
  "hdr_offset h = fst (ArcHdr h) ! 2"

definition tail_offset :: "ty \<Rightarrow> ty \<Rightarrow> nat" where
  "tail_offset h t = fst (PlugTail (snd (ArcHdr h)) t) ! 1"

subsection \<open>The counted allocation\<close>

text \<open>
  An allocation holds the fields of \<open>ArcHdr\<close> and the cells of the tail (\<open>None\<close>: not initialised).
  The log records what releasing an allocation does, in order.
\<close>

record ('h, 't) plug_block =
  pb_strong :: usize
  pb_len :: usize
  pb_hdr :: 'h
  pb_tail :: "'t option list"
  pb_layout :: layout

datatype ('h, 't) plug_event = Body_Drop 'h "'t option list" | Header_Drop 'h | Dealloc layout

record ('h, 't) plug_heap =
  plug_blocks :: "nat \<rightharpoonup> ('h, 't) plug_block"
  plug_log :: "(nat \<times> ('h, 't) plug_event) list"

datatype ArcPlugTail = ArcPlugTail nat

fun arc_ptr :: "ArcPlugTail \<Rightarrow> nat" where
  "arc_ptr (ArcPlugTail a) = a"

definition ArcPlugTail_new ::
  "ty \<Rightarrow> ty \<Rightarrow> (('h, 't) plug_heap \<Rightarrow> layout \<Rightarrow> nat option) \<Rightarrow> 'h \<Rightarrow> usize \<Rightarrow> ('h, 't) plug_heap
    \<Rightarrow> (('h, 't) plug_heap \<times> ArcPlugTail) outcome" where
  "ArcPlugTail_new h t alloc hdr n s =
     outcome_bind (ArcPlugTail_layout h t n) (\<lambda>l.
       case alloc s l of
         None \<Rightarrow> Panic
       | Some a \<Rightarrow>
           Done (s\<lparr>plug_blocks := (plug_blocks s)(a \<mapsto> \<lparr>pb_strong = 1, pb_len = n, pb_hdr = hdr,
                     pb_tail = replicate (unat n) None, pb_layout = l\<rparr>)\<rparr>,
                 ArcPlugTail a))"

definition ArcPlugTail_clone ::
  "('h, 't) plug_heap \<Rightarrow> ArcPlugTail \<Rightarrow> (('h, 't) plug_heap \<times> ArcPlugTail) outcome" where
  "ArcPlugTail_clone s p =
     (case plug_blocks s (arc_ptr p) of
        None \<Rightarrow> UB
      | Some b \<Rightarrow>
          Done (s\<lparr>plug_blocks := (plug_blocks s)(arc_ptr p \<mapsto> b\<lparr>pb_strong := pb_strong b + 1\<rparr>)\<rparr>, p))"

definition ArcPlugTail_storage ::
  "ty \<Rightarrow> ty \<Rightarrow> ('h, 't) plug_heap \<Rightarrow> ArcPlugTail \<Rightarrow> ('h \<times> 't option list) outcome" where
  "ArcPlugTail_storage h t s p =
     (case plug_blocks s (arc_ptr p) of
        None \<Rightarrow> UB
      | Some b \<Rightarrow>
          if tail_offset h t + unat (pb_len b) * ty_size t \<le> l_size (pb_layout b)
          then Done (pb_hdr b, take (unat (pb_len b)) (pb_tail b)) else UB)"

definition ArcPlugTail_leak :: "ArcPlugTail \<Rightarrow> nat" where
  "ArcPlugTail_leak p = arc_ptr p"

definition ArcPlugTail_unleak :: "nat \<Rightarrow> ArcPlugTail" where
  "ArcPlugTail_unleak a = ArcPlugTail a"

text \<open>\<open>body_drop\<close> gets the header and the cells; it may panic.\<close>

definition ArcPlugTail_drop ::
  "ty \<Rightarrow> ty \<Rightarrow> ('h \<Rightarrow> 't option list \<Rightarrow> unit outcome) \<Rightarrow> ('h, 't) plug_heap \<Rightarrow> ArcPlugTail
    \<Rightarrow> ('h, 't) plug_heap outcome" where
  "ArcPlugTail_drop h t body_drop s p =
     (case plug_blocks s (arc_ptr p) of
        None \<Rightarrow> UB
      | Some b \<Rightarrow>
          let s1 = s\<lparr>plug_blocks := (plug_blocks s)(arc_ptr p \<mapsto> b\<lparr>pb_strong := pb_strong b - 1\<rparr>)\<rparr>
          in if 1 < pb_strong b then Done s1
             else
               outcome_bind (ArcPlugTail_storage h t s1 p) (\<lambda>(hdr, cells).
               outcome_bind (body_drop hdr cells) (\<lambda>_.
               outcome_bind (ArcPlugTail_layout h t (of_nat (length cells))) (\<lambda>l.
                 if l = pb_layout b
                 then Done (s1\<lparr>plug_blocks := (plug_blocks s1)(arc_ptr p := None),
                        plug_log := plug_log s1 @
                          map (Pair (arc_ptr p)) [Body_Drop hdr cells, Header_Drop hdr, Dealloc l]\<rparr>)
                 else UB))))"

subsection \<open>The static variant\<close>

record ('h, 't) StaticPlugTail =
  sp_hdr :: 'h
  sp_tfr :: "'t option list"

definition StaticPlugTail_uninit :: "nat \<Rightarrow> 'h \<Rightarrow> ('h, 't) StaticPlugTail" where
  "StaticPlugTail_uninit N hdr = \<lparr>sp_hdr = hdr, sp_tfr = replicate N None\<rparr>"

definition StaticPlugTail_new :: "'h \<Rightarrow> 't option list \<Rightarrow> ('h, 't) StaticPlugTail" where
  "StaticPlugTail_new hdr val = \<lparr>sp_hdr = hdr, sp_tfr = val\<rparr>"

text \<open>A handle is a reference to a static; copying it changes nothing.\<close>

datatype StaticRef = StaticRef nat

fun static_ptr :: "StaticRef \<Rightarrow> nat" where
  "static_ptr (StaticRef a) = a"

definition StaticRef_clone ::
  "(nat \<Rightarrow> ('h, 't) StaticPlugTail) \<Rightarrow> StaticRef \<Rightarrow> ((nat \<Rightarrow> ('h, 't) StaticPlugTail) \<times> StaticRef) outcome" where
  "StaticRef_clone s p = Done (s, p)"

definition StaticRef_storage ::
  "(nat \<Rightarrow> ('h, 't) StaticPlugTail) \<Rightarrow> StaticRef \<Rightarrow> ('h \<times> 't option list) outcome" where
  "StaticRef_storage s p = Done (sp_hdr (s (static_ptr p)), sp_tfr (s (static_ptr p)))"

definition StaticRef_leak :: "StaticRef \<Rightarrow> nat" where
  "StaticRef_leak p = static_ptr p"

definition StaticRef_unleak :: "nat \<Rightarrow> StaticRef" where
  "StaticRef_unleak a = StaticRef a"

subsection \<open>Alignment arithmetic\<close>

lemma pow2_cases: "pow2 a \<Longrightarrow> \<exists>k < 63. a = 2 ^ k"
  by (auto simp: pow2_def)

lemma pow2_pos: "pow2 a \<Longrightarrow> 0 < a"
  by (auto dest: pow2_cases)

lemma pow2_dvd: "pow2 a \<Longrightarrow> pow2 b \<Longrightarrow> a \<le> b \<Longrightarrow> a dvd b"
  by (auto dest!: pow2_cases intro: le_imp_power_dvd)

lemma pow2_max: "pow2 a \<Longrightarrow> pow2 b \<Longrightarrow> pow2 (max a b)"
  by (simp add: max_def)

lemma pow2_dvd_max: "pow2 a \<Longrightarrow> pow2 b \<Longrightarrow> a dvd max a b" "pow2 a \<Longrightarrow> pow2 b \<Longrightarrow> b dvd max a b"
  by (auto simp: max_def pow2_dvd)

lemma round_up_ge:
  assumes "0 < a"
  shows "n \<le> round_up n a"
proof -
  have "n + a - 1 = (n + a - 1) div a * a + (n + a - 1) mod a" by simp
  moreover have "(n + a - 1) mod a < a" using assms by simp
  ultimately show ?thesis using assms unfolding round_up_def by linarith
qed

lemma round_up_dvd: "a dvd round_up n a"
  by (simp add: round_up_def)

lemma round_up_id:
  assumes "0 < a" and "a dvd n"
  shows "round_up n a = n"
proof -
  from assms(2) obtain k where "n = a * k" by (elim dvdE)
  moreover have "a * k + a - 1 = a - 1 + a * k" using assms(1) by simp
  moreover have "(a - 1 + a * k) div a = k + (a - 1) div a" using assms(1) by (intro div_mult_self2) simp
  ultimately show ?thesis using assms(1) by (simp add: round_up_def)
qed

lemma pow2_power: "k < 63 \<Longrightarrow> pow2 (2 ^ k)"
  by (auto simp: pow2_def)

lemma pow2_8: "pow2 8"
  using pow2_power [of 3] by simp

end
