(* ===== verification/Plugtail_Spec.thy ===== *)
theory Plugtail_Spec
  imports Plugtail
begin

section \<open>Memory safety of the counted storage\<close>

text \<open>
  The layout computed by hand in \<open>ArcPlugTail::layout\<close> covers what \<open>storage\<close> reads; handles follow
  the ownership rules of the trait \<open>Pluggable\<close>, as a step relation, and never touch memory that
  was released; the counted and the static storage are the same to a client of the trait.
\<close>

subsection \<open>Layout\<close>

lemma ArcHdr_eq:
  "ArcHdr h = ([0, 8, round_up 16 (ty_align h)],
     \<lparr>ty_size = round_up (round_up 16 (ty_align h) + ty_size h) (max (ty_align h) 8), ty_align = max (ty_align h) 8\<rparr>)"
  by (simp add: ArcHdr_def repr_c_def usize_ty_def round_up_def Let_def)

lemma PlugTail_eq:
  "PlugTail h t = ([round_up 0 (ty_align h), round_up (round_up 0 (ty_align h) + ty_size h) (ty_align t)],
     \<lparr>ty_size = round_up (round_up (round_up 0 (ty_align h) + ty_size h) (ty_align t)) (max (ty_align t) (max (ty_align h) 1)),
      ty_align = max (ty_align t) (max (ty_align h) 1)\<rparr>)"
  by (simp add: PlugTail_def repr_c_def array_ty_def Let_def)

lemma round_up_0 [simp]: "0 < a \<Longrightarrow> round_up 0 a = 0"
  by (simp add: round_up_def)

text \<open>The struct the allocation starts with.\<close>

definition plug_ty :: "ty \<Rightarrow> ty \<Rightarrow> ty" where
  "plug_ty h t = snd (PlugTail (snd (ArcHdr h)) t)"

lemma plug_ty_facts:
  assumes "ty_ok h" and "ty_ok t"
  shows "ty_align (plug_ty h t) = max (ty_align t) (max (ty_align h) 8)"
    and "tail_offset h t = round_up (ty_size (snd (ArcHdr h))) (ty_align t)"
    and "tail_offset h t \<le> ty_size (plug_ty h t)"
    and "ty_align (plug_ty h t) dvd ty_size (plug_ty h t)"
    and "hdr_offset h = round_up 16 (ty_align h)"
    and "hdr_offset h + ty_size h \<le> tail_offset h t"
proof -
  let ?A = "snd (ArcHdr h)"
  have pos: "0 < ty_align h" "0 < ty_align t" "0 < ty_align ?A"
    using assms by (auto simp: ty_ok_def ArcHdr_eq dest: pow2_pos)
  show al: "ty_align (plug_ty h t) = max (ty_align t) (max (ty_align h) 8)"
    by (simp add: plug_ty_def PlugTail_eq ArcHdr_eq)
  show off: "tail_offset h t = round_up (ty_size ?A) (ty_align t)"
    using pos by (simp add: tail_offset_def PlugTail_eq)
  have sz: "ty_size (plug_ty h t) = round_up (tail_offset h t) (ty_align (plug_ty h t))"
    using pos off by (simp add: plug_ty_def PlugTail_eq)
  show "tail_offset h t \<le> ty_size (plug_ty h t)" "ty_align (plug_ty h t) dvd ty_size (plug_ty h t)"
    unfolding sz using al by (simp_all add: round_up_ge round_up_dvd)
  show "hdr_offset h = round_up 16 (ty_align h)" by (simp add: hdr_offset_def ArcHdr_eq)
  then have "hdr_offset h + ty_size h \<le> ty_size ?A" by (simp add: ArcHdr_eq round_up_ge)
  with off show "hdr_offset h + ty_size h \<le> tail_offset h t"
    using round_up_ge [OF pos(2), of "ty_size ?A"] by simp
qed

lemma layout_eq:
  assumes "ty_ok h" and "ty_ok t"
  shows "ArcPlugTail_layout h t n =
    (let need = ty_size (plug_ty h t) + unat n * ty_size t; al = ty_align (plug_ty h t)
     in if need \<le> isize_max + 1 - al then Done \<lparr>l_size = need, l_align = al\<rparr> else Panic)"
proof -
  have p: "pow2 (ty_align t)" "pow2 (max (ty_align h) 8)" using assms pow2_8 by (simp_all add: ty_ok_def pow2_max)
  have "ty_align t dvd ty_size (plug_ty h t)"
    using dvd_trans [OF pow2_dvd_max(1) [OF p]] plug_ty_facts(1,4) [OF assms] by simp
  with pow2_pos [OF p(1)] have "round_up (ty_size (plug_ty h t)) (ty_align t) = ty_size (plug_ty h t)"
    by (rule round_up_id)
  moreover have "ty_align t \<le> ty_align (plug_ty h t)" using plug_ty_facts(1) [OF assms] by simp
  moreover from this have "max (ty_align (plug_ty h t)) (ty_align t) = ty_align (plug_ty h t)" by simp
  ultimately show ?thesis
    by (simp add: ArcPlugTail_layout_def Layout_array_def Layout_extend_def Layout_from_size_align_def
      Layout_new_def Let_def flip: plug_ty_def) linarith
qed

text \<open>
  C34: The layout of a counted storage: when \<open>layout(n)\<close> returns, the count, the length, the header
  and the \<open>n\<close> cells of the tail lie one after the other inside the allocation, each at a multiple
  of its alignment, and the allocation is aligned for all of them and no larger than \<open>isize::MAX\<close>;
  it panics exactly when the allocation would be larger.
\<close>

theorem plug_layout_in_bounds:
  assumes "ty_ok h" and "ty_ok t"
  shows "case ArcPlugTail_layout h t n of
      Done l \<Rightarrow>
        16 \<le> hdr_offset h \<and> ty_align h dvd hdr_offset h \<and> hdr_offset h + ty_size h \<le> tail_offset h t \<and>
        ty_align t dvd tail_offset h t \<and> tail_offset h t + unat n * ty_size t \<le> l_size l \<and>
        8 dvd l_align l \<and> ty_align h dvd l_align l \<and> ty_align t dvd l_align l \<and> l_size l \<le> isize_max
    | Panic \<Rightarrow> isize_max + 1 < ty_size (plug_ty h t) + unat n * ty_size t + ty_align (plug_ty h t)
    | _ \<Rightarrow> False"
proof -
  note f = plug_ty_facts [OF assms]
  have p: "pow2 (ty_align t)" "pow2 (ty_align h)" "pow2 (max (ty_align h) 8)"
    using assms pow2_8 by (simp_all add: ty_ok_def pow2_max)
  have pos: "0 < ty_align h" "0 < ty_align t" using p by (auto dest: pow2_pos)
  let ?al = "ty_align (plug_ty h t)" and ?need = "ty_size (plug_ty h t) + unat n * ty_size t"
  have dvd: "8 dvd ?al" "ty_align h dvd ?al" "ty_align t dvd ?al"
    unfolding f(1) using pow2_dvd_max [OF p(2) pow2_8] pow2_dvd_max [OF p(1,3)] by (blast intro: dvd_trans)+
  have al: "8 \<le> ?al" unfolding f(1) by simp
  have "16 \<le> hdr_offset h" "ty_align h dvd hdr_offset h" "ty_align t dvd tail_offset h t"
    unfolding f(5) f(2) using round_up_ge [OF pos(1), of 16] by (simp_all add: round_up_dvd)
  then show ?thesis
    using dvd f(3,6) al by (auto simp: layout_eq [OF assms] Let_def)
qed

definition word_ty :: ty where
  "word_ty = \<lparr>ty_size = 4, ty_align = 4\<rparr>"

lemma word_ty_ok: "ty_ok word_ty"
  using pow2_power [of 2] by (simp add: ty_ok_def word_ty_def)

theorem plug_layout_in_bounds_witness:
  "ArcPlugTail_layout word_ty word_ty 3 = Done \<lparr>l_size = 36, l_align = 8\<rparr> \<and>
   ty_align word_ty dvd tail_offset word_ty word_ty \<and> tail_offset word_ty word_ty + 12 \<le> 36"
proof -
  have "ArcPlugTail_layout word_ty word_ty 3 = Done \<lparr>l_size = 36, l_align = 8\<rparr>"
    unfolding layout_eq [OF word_ty_ok word_ty_ok]
    by (simp add: plug_ty_def ArcHdr_eq PlugTail_eq word_ty_def round_up_def
      isize_max_def Let_def)
  with plug_layout_in_bounds [OF word_ty_ok word_ty_ok, of 3] show ?thesis by (simp add: word_ty_def)
qed

subsection \<open>Ownership\<close>

text \<open>
  \<open>refs a\<close> is the number of handles and leaked pointers to the allocation at \<open>a\<close>. A program
  creates storage, clones and drops handles it has, and writes to the cells through the slice of
  \<open>storage\<close>; turning a handle into a pointer and back keeps its reference. The allocator returns a free address.
\<close>

definition block_ok :: "ty \<Rightarrow> ty \<Rightarrow> nat \<Rightarrow> ('h, 't) plug_block \<Rightarrow> bool" where
  "block_ok h t k b = (0 < k \<and> unat (pb_strong b) = k \<and> length (pb_tail b) = unat (pb_len b) \<and>
     ArcPlugTail_layout h t (pb_len b) = Done (pb_layout b))"

fun slot_ok :: "ty \<Rightarrow> ty \<Rightarrow> nat \<Rightarrow> ('h, 't) plug_block option \<Rightarrow> bool" where
  "slot_ok h t k None = (k = 0)"
| "slot_ok h t k (Some b) = block_ok h t k b"

definition plug_inv :: "ty \<Rightarrow> ty \<Rightarrow> ('h, 't) plug_heap \<Rightarrow> (nat \<Rightarrow> nat) \<Rightarrow> bool" where
  "plug_inv h t s refs = (\<forall>a. slot_ok h t (refs a) (plug_blocks s a))"

inductive plug_reachable ::
  "ty \<Rightarrow> ty \<Rightarrow> ('h \<Rightarrow> 't option list \<Rightarrow> unit outcome) \<Rightarrow> ('h, 't) plug_heap \<Rightarrow> (nat \<Rightarrow> nat) \<Rightarrow> bool"
  for h t body_drop where
  start: "plug_reachable h t body_drop \<lparr>plug_blocks = Map.empty, plug_log = []\<rparr> (\<lambda>_. 0)"
| new: "plug_reachable h t body_drop s refs \<Longrightarrow>
    (\<And>l a. alloc s l = Some a \<Longrightarrow> plug_blocks s a = None) \<Longrightarrow>
    ArcPlugTail_new h t alloc hdr n s = Done (s', p) \<Longrightarrow>
    plug_reachable h t body_drop s' (refs(arc_ptr p := 1))"
| clone: "plug_reachable h t body_drop s refs \<Longrightarrow> 0 < refs (arc_ptr p) \<Longrightarrow> refs (arc_ptr p) < 2 ^ 64 - 1 \<Longrightarrow>
    ArcPlugTail_clone s p = Done (s', p') \<Longrightarrow>
    plug_reachable h t body_drop s' (refs(arc_ptr p := refs (arc_ptr p) + 1))"
| write_cells: "plug_reachable h t body_drop s refs \<Longrightarrow> plug_blocks s a = Some b \<Longrightarrow>
    length cells = length (pb_tail b) \<Longrightarrow>
    plug_reachable h t body_drop (s\<lparr>plug_blocks := (plug_blocks s)(a \<mapsto> b\<lparr>pb_tail := cells\<rparr>)\<rparr>) refs"
| drop: "plug_reachable h t body_drop s refs \<Longrightarrow> 0 < refs (arc_ptr p) \<Longrightarrow>
    ArcPlugTail_drop h t body_drop s p = Done s' \<Longrightarrow>
    plug_reachable h t body_drop s' (refs(arc_ptr p := refs (arc_ptr p) - 1))"

lemma owned_block:
  assumes "plug_inv h t s refs" and "0 < refs a"
  obtains b where "plug_blocks s a = Some b" and "block_ok h t (refs a) b"
  using assms by (cases "plug_blocks s a") (auto simp: plug_inv_def dest: spec [of _ a])

lemma plug_inv_upd:
  assumes "plug_inv h t s refs" and "block_ok h t k b"
  shows "plug_inv h t (s\<lparr>plug_blocks := (plug_blocks s)(a \<mapsto> b)\<rparr>) (refs(a := k))"
  using assms by (simp add: plug_inv_def)

lemma plug_inv_free:
  assumes "plug_inv h t s refs"
  shows "plug_inv h t (s\<lparr>plug_blocks := (plug_blocks s)(a := None), plug_log := lg\<rparr>) (refs(a := 0))"
  using assms by (simp add: plug_inv_def)

lemma layout_size:
  assumes "ty_ok h" and "ty_ok t" and "ArcPlugTail_layout h t n = Done l"
  shows "tail_offset h t + unat n * ty_size t \<le> l_size l"
  using assms(3) plug_ty_facts(3) [OF assms(1,2)]
  by (auto simp: layout_eq [OF assms(1,2)] Let_def split: if_split_asm)

lemma storage_eq:
  assumes "ty_ok h" and "ty_ok t" and "plug_blocks s (arc_ptr p) = Some b"
    and "length (pb_tail b) = unat (pb_len b)" and "ArcPlugTail_layout h t (pb_len b) = Done (pb_layout b)"
  shows "ArcPlugTail_storage h t s p = Done (pb_hdr b, pb_tail b)"
  using assms(3,4) layout_size [OF assms(1,2,5)] by (simp add: ArcPlugTail_storage_def)

lemma drop_shared_eq:
  assumes "plug_blocks s (arc_ptr p) = Some b" and "1 < unat (pb_strong b)"
  shows "ArcPlugTail_drop h t bd s p =
    Done (s\<lparr>plug_blocks := (plug_blocks s)(arc_ptr p \<mapsto> b\<lparr>pb_strong := pb_strong b - 1\<rparr>)\<rparr>)"
  using assms by (simp add: ArcPlugTail_drop_def Let_def word_less_nat_alt)

lemma drop_last_eq:
  assumes "ty_ok h" and "ty_ok t" and "plug_blocks s (arc_ptr p) = Some b" and "unat (pb_strong b) = 1"
    and "length (pb_tail b) = unat (pb_len b)" and "ArcPlugTail_layout h t (pb_len b) = Done (pb_layout b)"
  shows "ArcPlugTail_drop h t bd s p = outcome_map (\<lambda>_. s\<lparr>plug_blocks := (plug_blocks s)(arc_ptr p := None),
      plug_log := plug_log s @ map (Pair (arc_ptr p))
        [Body_Drop (pb_hdr b) (pb_tail b), Header_Drop (pb_hdr b), Dealloc (pb_layout b)]\<rparr>)
    (bd (pb_hdr b) (pb_tail b))"
proof -
  let ?b = "b\<lparr>pb_strong := pb_strong b - 1\<rparr>"
  let ?s = "s\<lparr>plug_blocks := (plug_blocks s)(arc_ptr p \<mapsto> ?b)\<rparr>"
  have "ArcPlugTail_storage h t ?s p = Done (pb_hdr ?b, pb_tail ?b)"
    using assms(5,6) by (intro storage_eq [OF assms(1,2)]) simp_all
  then show ?thesis
    using assms(3-) by (simp add: ArcPlugTail_drop_def Let_def word_less_nat_alt outcome_map_def)
qed

lemma plug_inv_drop:
  assumes "ty_ok h" and "ty_ok t" and "plug_inv h t s refs" and "0 < refs (arc_ptr p)"
    and "ArcPlugTail_drop h t bd s p = Done s'"
  shows "plug_inv h t s' (refs(arc_ptr p := refs (arc_ptr p) - 1))"
proof -
  from owned_block [OF assms(3,4)] obtain b where
    b: "plug_blocks s (arc_ptr p) = Some b" "block_ok h t (refs (arc_ptr p)) b" .
  show ?thesis
  proof (cases "refs (arc_ptr p) = 1")
    case True
    with b(2) have "unat (pb_strong b) = 1" "length (pb_tail b) = unat (pb_len b)"
      "ArcPlugTail_layout h t (pb_len b) = Done (pb_layout b)" by (simp_all add: block_ok_def)
    from drop_last_eq [OF assms(1,2) b(1) this] assms(5) True plug_inv_free [OF assms(3)] show ?thesis
      by (auto simp: outcome_map_eq_Done_iff)
  next
    case False
    with b(2) assms(4) have "pb_strong b \<noteq> 0" by (auto simp: block_ok_def)
    with False b(2) assms(4) have "1 < unat (pb_strong b)"
      and "block_ok h t (refs (arc_ptr p) - 1) (b\<lparr>pb_strong := pb_strong b - 1\<rparr>)"
      using unat_minus_one [of "pb_strong b"] by (auto simp: block_ok_def)
    with plug_inv_upd [OF assms(3) this(2), of "arc_ptr p"] drop_shared_eq [OF b(1)] assms(5) show ?thesis
      by simp
  qed
qed

lemma plug_inv_clone:
  assumes "plug_inv h t s refs" and "0 < refs (arc_ptr p)" and "refs (arc_ptr p) < 2 ^ 64 - 1"
    and "ArcPlugTail_clone s p = Done (s', p')"
  shows "plug_inv h t s' (refs(arc_ptr p := refs (arc_ptr p) + 1))"
proof -
  from owned_block [OF assms(1,2)] obtain b where
    b: "plug_blocks s (arc_ptr p) = Some b" "block_ok h t (refs (arc_ptr p)) b" .
  then have "unat (pb_strong b + 1) = unat (pb_strong b) + 1"
    using assms(3) by (simp add: block_ok_def unat_word_ariths)
  with b(2) have "block_ok h t (refs (arc_ptr p) + 1) (b\<lparr>pb_strong := pb_strong b + 1\<rparr>)"
    by (simp add: block_ok_def)
  from plug_inv_upd [OF assms(1) this] b(1) assms(4) show ?thesis by (auto simp: ArcPlugTail_clone_def)
qed

lemma plug_inv_new:
  assumes "plug_inv h t s refs" and "ArcPlugTail_new h t alloc hdr n s = Done (s', p)"
  shows "plug_inv h t s' (refs(arc_ptr p := 1))"
proof -
  from assms(2) obtain l a where l: "ArcPlugTail_layout h t n = Done l" "p = ArcPlugTail a"
    and s': "s' = s\<lparr>plug_blocks := (plug_blocks s)(a \<mapsto> \<lparr>pb_strong = 1, pb_len = n, pb_hdr = hdr,
                     pb_tail = replicate (unat n) None, pb_layout = l\<rparr>)\<rparr>"
    by (auto simp: ArcPlugTail_new_def outcome_bind_eq_Done_iff split: option.split_asm)
  from l(1) have "block_ok h t 1 \<lparr>pb_strong = 1, pb_len = n, pb_hdr = hdr,
      pb_tail = replicate (unat n) None, pb_layout = l\<rparr>"
    by (simp add: block_ok_def)
  from plug_inv_upd [OF assms(1) this] l(2) s' show ?thesis by simp
qed

lemma plug_inv_write:
  assumes "plug_inv h t s refs" and "plug_blocks s a = Some b" and "length cells = length (pb_tail b)"
  shows "plug_inv h t (s\<lparr>plug_blocks := (plug_blocks s)(a \<mapsto> b\<lparr>pb_tail := cells\<rparr>)\<rparr>) refs"
  using assms by (auto simp: plug_inv_def block_ok_def dest: spec [of _ a])

lemma plug_reachable_inv:
  assumes "ty_ok h" and "ty_ok t" and "plug_reachable h t bd s refs"
  shows "plug_inv h t s refs"
  using assms(3)
proof induction
  case start
  then show ?case by (simp add: plug_inv_def)
next
  case new
  then show ?case by (blast intro: plug_inv_new)
next
  case clone
  then show ?case by (blast intro: plug_inv_clone)
next
  case write_cells
  then show ?case by (blast intro: plug_inv_write)
next
  case drop
  then show ?case by (blast intro: plug_inv_drop [OF assms(1,2)])
qed

text \<open>
  C33: Counted storage is memory safe and released once: in every state the ownership rules allow,
  a handle gives access to its header and to all its cells, can be cloned, and can be dropped;
  dropping it releases the allocation exactly when it is the last one, tearing the body down
  before the header, with the layout the memory was allocated with, and otherwise only counts.
\<close>

theorem plug_memory_safe:
  assumes "ty_ok h" and "ty_ok t" and "plug_reachable h t bd s refs" and "0 < refs (arc_ptr p)"
    and "\<And>hdr cells. bd hdr cells = Done ()"
  shows "\<exists>b s1 s2. plug_blocks s (arc_ptr p) = Some b \<and> length (pb_tail b) = unat (pb_len b) \<and>
    ArcPlugTail_layout h t (pb_len b) = Done (pb_layout b) \<and>
    ArcPlugTail_storage h t s p = Done (pb_hdr b, pb_tail b) \<and>
    ArcPlugTail_clone s p = Done (s1, p) \<and> ArcPlugTail_drop h t bd s p = Done s2 \<and>
    (if refs (arc_ptr p) = 1
     then plug_blocks s2 = (plug_blocks s)(arc_ptr p := None) \<and>
       plug_log s2 = plug_log s @ map (Pair (arc_ptr p))
         [Body_Drop (pb_hdr b) (pb_tail b), Header_Drop (pb_hdr b), Dealloc (pb_layout b)]
     else plug_blocks s2 = (plug_blocks s)(arc_ptr p \<mapsto> b\<lparr>pb_strong := pb_strong b - 1\<rparr>) \<and>
       plug_log s2 = plug_log s)"
proof -
  from owned_block [OF plug_reachable_inv [OF assms(1-3)] assms(4)] obtain b where
    b: "plug_blocks s (arc_ptr p) = Some b" "block_ok h t (refs (arc_ptr p)) b" .
  then have ok: "unat (pb_strong b) = refs (arc_ptr p)" "length (pb_tail b) = unat (pb_len b)"
    "ArcPlugTail_layout h t (pb_len b) = Done (pb_layout b)" by (simp_all add: block_ok_def)
  note storage_eq [OF assms(1,2) b(1) ok(2,3)]
  moreover obtain s1 where "ArcPlugTail_clone s p = Done (s1, p)" using b(1) by (simp add: ArcPlugTail_clone_def)
  ultimately show ?thesis
    using b(1) ok assms(4) drop_last_eq [OF assms(1,2) b(1) _ ok(2,3), of bd] drop_shared_eq [OF b(1), of h t bd]
    by (cases "refs (arc_ptr p) = 1") (simp_all add: assms(5))
qed

lemma word_ty_layout_2: "ArcPlugTail_layout word_ty word_ty 2 = Done \<lparr>l_size = 32, l_align = 8\<rparr>"
  unfolding layout_eq [OF word_ty_ok word_ty_ok]
  by (simp add: plug_ty_def ArcHdr_eq PlugTail_eq word_ty_def round_up_def isize_max_def Let_def)

theorem plug_memory_safe_witness:
  "\<exists>s2. ArcPlugTail_drop word_ty word_ty (\<lambda>_ _. Done ())
      \<lparr>plug_blocks = [7 \<mapsto> \<lparr>pb_strong = 1, pb_len = 2, pb_hdr = (5 :: nat), pb_tail = [None, None :: bool option],
         pb_layout = \<lparr>l_size = 32, l_align = 8\<rparr>\<rparr>], plug_log = []\<rparr> (ArcPlugTail 7) = Done s2 \<and>
    plug_log s2 = [(7, Body_Drop 5 [None, None]), (7, Header_Drop 5), (7, Dealloc \<lparr>l_size = 32, l_align = 8\<rparr>)]"
proof -
  let ?s = "\<lparr>plug_blocks = [7 \<mapsto> \<lparr>pb_strong = 1, pb_len = 2, pb_hdr = (5 :: nat),
      pb_tail = [None, None :: bool option], pb_layout = \<lparr>l_size = 32, l_align = 8\<rparr>\<rparr>], plug_log = []\<rparr>"
  note word_ty_layout_2
  moreover have two: "replicate (unat (2 :: usize)) (None :: bool option) = [None, None]"
  proof -
    have "unat (2 :: usize) = Suc (Suc 0)" by simp
    then show ?thesis by (simp only: replicate.simps)
  qed
  ultimately have n: "ArcPlugTail_new word_ty word_ty (\<lambda>_ _. Some 7) (5 :: nat) 2
      \<lparr>plug_blocks = Map.empty, plug_log = []\<rparr> = Done (?s, ArcPlugTail 7)"
    using two by (simp add: ArcPlugTail_new_def)
  have "plug_reachable word_ty word_ty (\<lambda>_ _. Done ()) ?s ((\<lambda>_. 0)(arc_ptr (ArcPlugTail 7) := 1))"
    by (rule plug_reachable.new [OF plug_reachable.start _ n]) simp
  from plug_memory_safe [OF word_ty_ok word_ty_ok this, of "ArcPlugTail 7"] show ?thesis by auto
qed

text \<open>
  The count has no overflow check: a program that leaks handles can wrap it, and then the drop of
  one of many handles releases the allocation.
\<close>

lemma clone_overflow_releases:
  assumes "ty_ok h" and "ty_ok t" and "plug_blocks s (arc_ptr p) = Some b" and "block_ok h t (2 ^ 64 - 1) b"
    and "\<And>hdr cells. bd hdr cells = Done ()"
  shows "\<exists>s1 s2 s3. ArcPlugTail_clone s p = Done (s1, p) \<and> ArcPlugTail_clone s1 p = Done (s2, p) \<and>
    ArcPlugTail_drop h t bd s2 p = Done s3 \<and> plug_blocks s3 (arc_ptr p) = None"
proof -
  have "pb_strong b = of_nat (unat (pb_strong b))" by simp
  also have "\<dots> = of_nat (2 ^ 64 - 1)" using assms(4) by (simp only: block_ok_def)
  finally have max: "pb_strong b = - 1" by simp
  let ?s2 = "s\<lparr>plug_blocks := (plug_blocks s)(arc_ptr p \<mapsto> b\<lparr>pb_strong := 1\<rparr>)\<rparr>"
  obtain s1 where "ArcPlugTail_clone s p = Done (s1, p)" "ArcPlugTail_clone s1 p = Done (?s2, p)"
    using assms(3) max by (simp add: ArcPlugTail_clone_def)
  moreover have "ArcPlugTail_drop h t bd ?s2 p = outcome_map (\<lambda>_. ?s2\<lparr>plug_blocks := (plug_blocks ?s2)(arc_ptr p := None),
      plug_log := plug_log ?s2 @ map (Pair (arc_ptr p))
        [Body_Drop (pb_hdr b) (pb_tail b), Header_Drop (pb_hdr b), Dealloc (pb_layout b)]\<rparr>)
    (bd (pb_hdr b) (pb_tail b))"
    using drop_last_eq [OF assms(1,2), of ?s2 p "b\<lparr>pb_strong := 1\<rparr>" bd] assms(4) by (simp add: block_ok_def)
  ultimately show ?thesis by (simp add: assms(5))
qed

subsection \<open>The trait \<open>Pluggable\<close>\<close>

text \<open>
  What a data structure relies on: a handle survives the trip through a raw pointer, and clones
  give access to the same header and cells. \<open>room s p n\<close>: \<open>n\<close> more clones can be counted.
\<close>

fun clone_chain ::
  "('s \<Rightarrow> 'p \<Rightarrow> ('s \<times> 'p) outcome) \<Rightarrow> ('p \<Rightarrow> nat) \<Rightarrow> (nat \<Rightarrow> 'p) \<Rightarrow> nat \<Rightarrow> 's \<Rightarrow> 'p \<Rightarrow> ('s \<times> 'p) outcome" where
  "clone_chain clone leak unleak 0 s p = Done (s, p)"
| "clone_chain clone leak unleak (Suc n) s p =
     outcome_bind (clone s (unleak (leak p))) (\<lambda>(s', p'). clone_chain clone leak unleak n s' p')"

locale pluggable =
  fixes storage :: "'s \<Rightarrow> 'p \<Rightarrow> ('h \<times> 't option list) outcome"
    and clone :: "'s \<Rightarrow> 'p \<Rightarrow> ('s \<times> 'p) outcome"
    and leak :: "'p \<Rightarrow> nat" and unleak :: "nat \<Rightarrow> 'p"
    and room :: "'s \<Rightarrow> 'p \<Rightarrow> nat \<Rightarrow> bool"
  assumes unleak_leak: "unleak (leak p) = p"
    and clone_shares: "room s p (Suc n) \<Longrightarrow>
      \<exists>s' p'. clone s p = Done (s', p') \<and> room s' p' n \<and> storage s' p' = storage s p"
begin

lemma clone_chain_shares:
  "room s p n \<Longrightarrow>
    \<exists>s' p'. clone_chain clone leak unleak n s p = Done (s', p') \<and> storage s' p' = storage s p"
proof (induction n arbitrary: s p)
  case (Suc n)
  from clone_shares [OF Suc.prems] obtain s1 p1 where
    s1: "clone s p = Done (s1, p1)" "room s1 p1 n" "storage s1 p1 = storage s p" by blast
  with Suc.IH [OF s1(2)] show ?case by (auto simp: unleak_leak)
qed simp

end

definition arc_room :: "('h, 't) plug_heap \<Rightarrow> ArcPlugTail \<Rightarrow> nat \<Rightarrow> bool" where
  "arc_room s p n =
     (case plug_blocks s (arc_ptr p) of None \<Rightarrow> False | Some b \<Rightarrow> unat (pb_strong b) + n < 2 ^ 64)"

interpretation arc: pluggable "ArcPlugTail_storage h t" ArcPlugTail_clone ArcPlugTail_leak ArcPlugTail_unleak arc_room
  for h t
proof
  fix s :: "('h, 't) plug_heap" and p n
  assume "arc_room s p (Suc n)"
  then obtain b where b: "plug_blocks s (arc_ptr p) = Some b" "unat (pb_strong b) + Suc n < 2 ^ 64"
    by (auto simp: arc_room_def split: option.split_asm)
  then have "unat (pb_strong b + 1) = unat (pb_strong b) + 1" by (simp add: unat_word_ariths)
  with b show "\<exists>s' p'. ArcPlugTail_clone s p = Done (s', p') \<and> arc_room s' p' n \<and>
      ArcPlugTail_storage h t s' p' = ArcPlugTail_storage h t s p"
    by (simp add: ArcPlugTail_clone_def arc_room_def ArcPlugTail_storage_def)
qed (case_tac p, simp add: ArcPlugTail_leak_def ArcPlugTail_unleak_def)

interpretation static: pluggable StaticRef_storage StaticRef_clone StaticRef_leak StaticRef_unleak "\<lambda>_ _ _. True"
  by unfold_locales (case_tac p, simp_all add: StaticRef_leak_def StaticRef_unleak_def StaticRef_clone_def)

text \<open>
  The two storages are interchangeable: after any number of clones, each through a raw pointer,
  the last handle of a counted storage gives access to what the handle of a static with the same
  header and cells gives access to, as long as the count does not reach \<open>2 ^ 64\<close>.
\<close>

theorem storages_equivalent:
  assumes "ty_ok h" and "ty_ok t" and "plug_blocks s (arc_ptr p) = Some b" and "block_ok h t k b"
    and "k + n < 2 ^ 64" and "st (static_ptr q) = StaticPlugTail_new (pb_hdr b) (pb_tail b)"
  shows "outcome_bind (clone_chain ArcPlugTail_clone ArcPlugTail_leak ArcPlugTail_unleak n s p)
      (\<lambda>(s', p'). ArcPlugTail_storage h t s' p') =
    outcome_bind (clone_chain StaticRef_clone StaticRef_leak StaticRef_unleak n st q)
      (\<lambda>(st', q'). StaticRef_storage st' q')"
proof -
  have "ArcPlugTail_storage h t s p = Done (pb_hdr b, pb_tail b)"
    using assms(4) by (intro storage_eq [OF assms(1-3)]) (simp_all add: block_ok_def)
  moreover have "arc_room s p n" using assms(3-5) by (simp add: arc_room_def block_ok_def)
  moreover have "StaticRef_storage st q = Done (pb_hdr b, pb_tail b)"
    by (simp add: StaticRef_storage_def assms(6) StaticPlugTail_new_def)
  ultimately show ?thesis
    using arc.clone_chain_shares [of s p n h t] static.clone_chain_shares [of n st q] by auto
qed

theorem storages_equivalent_witness:
  "outcome_bind (clone_chain ArcPlugTail_clone ArcPlugTail_leak ArcPlugTail_unleak 3
      \<lparr>plug_blocks = [7 \<mapsto> \<lparr>pb_strong = 1, pb_len = 2, pb_hdr = (5 :: nat), pb_tail = [Some True, None],
         pb_layout = \<lparr>l_size = 32, l_align = 8\<rparr>\<rparr>], plug_log = []\<rparr> (ArcPlugTail 7))
      (\<lambda>(s', p'). ArcPlugTail_storage word_ty word_ty s' p') = Done (5, [Some True, None])"
proof -
  let ?b = "\<lparr>pb_strong = 1, pb_len = 2, pb_hdr = (5 :: nat), pb_tail = [Some True, None],
    pb_layout = \<lparr>l_size = 32, l_align = 8\<rparr>\<rparr>"
  have "block_ok word_ty word_ty 1 ?b" using word_ty_layout_2 by (simp add: block_ok_def)
  from storages_equivalent [OF word_ty_ok word_ty_ok _ this, where n = 3 and q = "StaticRef 0" and p = "ArcPlugTail 7"
      and s = "\<lparr>plug_blocks = [7 \<mapsto> ?b], plug_log = []\<rparr>" and st = "\<lambda>_. StaticPlugTail_new 5 [Some True, None]"]
  show ?thesis
    by (simp add: numeral_3_eq_3 StaticRef_clone_def StaticRef_leak_def StaticRef_unleak_def StaticRef_storage_def
      StaticPlugTail_new_def)
qed

end
