(* ===== verification/Core_Atomic.thy ===== *)
theory Core_Atomic
  imports Core_State
begin

section \<open>The channel core, one atomic operation at a time\<close>

text \<open>
  \<open>Channel_Core\<close> runs a call without interference. Here the calls of \<open>channel_core.rs\<close> are cut
  at every access to shared memory, and any number of threads take turns, in any order: each
  program point of a call is a constructor of \<open>pc\<close> that holds the call's local variables, and
  each step does one load, store, fetch-and-modify or compare-exchange. Memory orderings are not
  distinguished. A weak compare-exchange succeeds only if its flag allows it.

  The send is \<open>try_reserve\<close> followed by the permit's write and \<open>commit_send\<close>; the receive is
  \<open>try_dequeue\<close> followed by taking the message out of its cell and freeing the index. \<open>log\<close> is
  a ghost: what the successful compare-exchanges on \<open>enqueue_pos\<close> have put into the queue.
\<close>

record ('e, 'ia, 'm) shared = "('e, 'ia) core" +
  cells :: "'m option list"
  log :: "(u8 \<times> 'm) list"

datatype side = Send_Side | Recv_Side

datatype ('e, 'm) result =
    Idle | Sent | Send_Full | Send_Closed "'e option" | Received 'm | Recv_Empty
  | Recv_Closed "'e option" | Errored bool | Handle_Done

datatype send_pc =
    Reserve_Load | Reserve_Alloc | Write_Cell u8
  | Commit_Load u8 | Commit_Slot u8 u16 | Commit_Cas u8 u16 | Commit_Store u8 u16 | Commit_Wake

datatype 'm recv_pc =
    Deq_Load | Deq_Slot u16 | Deq_Cas u16 u16 | Deq_Store u16 u16 | Take u8
  | Uncommit_Free 'm u8 | Uncommit_Wake 'm

datatype ('e, 'm) close_pc =
    Err_Claim 'e | Err_Write 'e | Err_Set | Err_Close_Rx | Err_Wake
  | Close_Tx "('e, 'm) result" | Close_Wake "('e, 'm) result"

datatype handle_pc = Add_Tx | Drop_Tx | Drop_Fence | Rx_Close | Rx_Wake

datatype ('e, 'm) pc =
    Fin "('e, 'm) result" | Panicked | Undefined
  | Sending 'm send_pc | Receiving "'m recv_pc" | Reason_State side | Reason_Error side
  | Closing "('e, 'm) close_pc" | Handle handle_pc

type_synonym ('e, 'ia, 'm) stepped = "('e, 'm) pc \<times> ('e, 'ia, 'm) shared"

subsection \<open>\<open>try_reserve\<close> and \<open>commit_send\<close>\<close>

definition reserve_load :: "'m \<Rightarrow> ('e, 'ia, 'm) shared \<Rightarrow> ('e, 'ia, 'm) stepped" where
  "reserve_load m s =
     (if enqueue_pos s AND CLOSED = CLOSED then Reason_State Send_Side else Sending m Reserve_Alloc, s)"

definition reserve_alloc ::
  "'ia index_ops \<Rightarrow> 'm \<Rightarrow> ('e, 'ia, 'm) shared \<Rightarrow> ('e, 'ia, 'm) stepped" where
  "reserve_alloc io m s =
     (let (i, ia) = ia_allocate io (indices s)
      in (case i of None \<Rightarrow> Fin Send_Full | Some idx \<Rightarrow> Sending m (Write_Cell idx), s\<lparr>indices := ia\<rparr>))"

definition write_cell :: "'m \<Rightarrow> u8 \<Rightarrow> ('e, 'ia, 'm) shared \<Rightarrow> ('e, 'ia, 'm) stepped" where
  "write_cell m idx s =
     (if unat idx < length (cells s)
      then (Sending m (Commit_Load idx), s\<lparr>cells := (cells s)[unat idx := Some m]\<rparr>)
      else (Undefined, s))"

definition commit_slot :: "'m \<Rightarrow> u8 \<Rightarrow> u16 \<Rightarrow> ('e, 'ia, 'm) shared \<Rightarrow> ('e, 'ia, 'm) stepped" where
  "commit_slot m idx tail s =
     (if tail AND CLOSED = CLOSED then Reason_State Send_Side
      else (let pos = drop_bit POS_SHIFT tail;
                seq = drop_bit POS_SHIFT (queue s ! unat (pos AND MASK));
                dif = seq - pos
            in if sint dif < 0 then Panicked
               else if dif = 0 then Sending m (Commit_Cas idx tail)
               else Sending m (Commit_Load idx)), s)"

definition commit_cas ::
  "bool \<Rightarrow> 'm \<Rightarrow> u8 \<Rightarrow> u16 \<Rightarrow> ('e, 'ia, 'm) shared \<Rightarrow> ('e, 'ia, 'm) stepped" where
  "commit_cas ok m idx tail s =
     (if ok \<and> enqueue_pos s = tail
      then (Sending m (Commit_Store idx tail),
            s\<lparr>enqueue_pos := tail + POS_ONE, log := log s @ [(idx, m)]\<rparr>)
      else (Sending m (Commit_Slot idx (enqueue_pos s)), s))"

definition commit_store :: "'m \<Rightarrow> u8 \<Rightarrow> u16 \<Rightarrow> ('e, 'ia, 'm) shared \<Rightarrow> ('e, 'ia, 'm) stepped" where
  "commit_store m idx tail s =
     (let pos = drop_bit POS_SHIFT tail; new = push_bit POS_SHIFT (pos + 1)
      in (Sending m Commit_Wake, s\<lparr>queue := (queue s)[unat (pos AND MASK) := ucast idx OR new]\<rparr>))"

fun send_step :: "'ia index_ops \<Rightarrow> bool \<Rightarrow> 'm \<Rightarrow> send_pc \<Rightarrow> ('e, 'ia, 'm) shared \<Rightarrow> ('e, 'ia, 'm) stepped" where
  "send_step io ok m Reserve_Load s = reserve_load m s"
| "send_step io ok m Reserve_Alloc s = reserve_alloc io m s"
| "send_step io ok m (Write_Cell idx) s = write_cell m idx s"
| "send_step io ok m (Commit_Load idx) s =
     (if ucast idx \<le> MASK then Sending m (Commit_Slot idx (enqueue_pos s)) else Panicked, s)"
| "send_step io ok m (Commit_Slot idx tail) s = commit_slot m idx tail s"
| "send_step io ok m (Commit_Cas idx tail) s = commit_cas ok m idx tail s"
| "send_step io ok m (Commit_Store idx tail) s = commit_store m idx tail s"
| "send_step io ok m Commit_Wake s = (Fin Sent, s\<lparr>cons_wait := cons_wait s @ [Wake]\<rparr>)"

subsection \<open>\<open>try_dequeue\<close>\<close>

definition deq_slot :: "u16 \<Rightarrow> ('e, 'ia, 'm) shared \<Rightarrow> ('e, 'ia, 'm) stepped" where
  "deq_slot head s =
     (let pos = drop_bit POS_SHIFT head;
          val = queue s ! unat (pos AND MASK);
          dif = drop_bit POS_SHIFT val - (pos + 1)
      in (if sint dif < 0 \<and> head AND CLOSED \<noteq> 0 then Reason_State Recv_Side
          else if sint dif < 0 then Fin Recv_Empty
          else if dif = 0 then Receiving (Deq_Cas head val)
          else Receiving Deq_Load, s))"

definition deq_cas :: "bool \<Rightarrow> u16 \<Rightarrow> u16 \<Rightarrow> ('e, 'ia, 'm) shared \<Rightarrow> ('e, 'ia, 'm) stepped" where
  "deq_cas ok head val s =
     (if ok \<and> dequeue_pos s = head
      then (Receiving (Deq_Store head val), s\<lparr>dequeue_pos := head + POS_ONE\<rparr>)
      else (Receiving (Deq_Slot (dequeue_pos s)), s))"

definition deq_store :: "u16 \<Rightarrow> u16 \<Rightarrow> ('e, 'ia, 'm) shared \<Rightarrow> ('e, 'ia, 'm) stepped" where
  "deq_store head val s =
     (let slot = unat (drop_bit POS_SHIFT head AND MASK)
      in (Receiving (Take (ucast (val AND MASK))), s\<lparr>queue := (queue s)[slot := val + LAP_ONE]\<rparr>))"

definition take_cell :: "u8 \<Rightarrow> ('e, 'ia, 'm) shared \<Rightarrow> ('e, 'ia, 'm) stepped" where
  "take_cell idx s =
     (if unat idx < length (cells s)
      then (case cells s ! unat idx of
              None \<Rightarrow> (Undefined, s)
            | Some m \<Rightarrow> (Receiving (Uncommit_Free m idx), s\<lparr>cells := (cells s)[unat idx := None]\<rparr>))
      else (Undefined, s))"

fun recv_step :: "'ia index_ops \<Rightarrow> bool \<Rightarrow> 'm recv_pc \<Rightarrow> ('e, 'ia, 'm) shared \<Rightarrow> ('e, 'ia, 'm) stepped" where
  "recv_step io ok Deq_Load s = (Receiving (Deq_Slot (dequeue_pos s)), s)"
| "recv_step io ok (Deq_Slot head) s = deq_slot head s"
| "recv_step io ok (Deq_Cas head val) s = deq_cas ok head val s"
| "recv_step io ok (Deq_Store head val) s = deq_store head val s"
| "recv_step io ok (Take idx) s = take_cell idx s"
| "recv_step io ok (Uncommit_Free m idx) s =
     (Receiving (Uncommit_Wake m), s\<lparr>indices := ia_free io idx (indices s)\<rparr>)"
| "recv_step io ok (Uncommit_Wake m) s = (Fin (Received m), s\<lparr>prod_wait := prod_wait s @ [Wake]\<rparr>)"

subsection \<open>\<open>close_reason\<close>\<close>

fun closed_result :: "side \<Rightarrow> 'e option \<Rightarrow> ('e, 'm) result" where
  "closed_result Send_Side e = Send_Closed e"
| "closed_result Recv_Side e = Recv_Closed e"

definition reason_state :: "side \<Rightarrow> ('e, 'ia, 'm) shared \<Rightarrow> ('e, 'ia, 'm) stepped" where
  "reason_state x s =
     (if state s AND ERRORED \<noteq> 0 then Reason_Error x else Fin (closed_result x None), s)"

definition reason_error :: "side \<Rightarrow> ('e, 'ia, 'm) shared \<Rightarrow> ('e, 'ia, 'm) stepped" where
  "reason_error x s =
     (case error s of None \<Rightarrow> Undefined | Some e \<Rightarrow> Fin (closed_result x (Some e)), s)"

subsection \<open>Closing and handles\<close>

definition err_claim :: "'e \<Rightarrow> ('e, 'ia, 'm) shared \<Rightarrow> ('e, 'ia, 'm) stepped" where
  "err_claim e s =
     (if state s AND (ERRORING OR ERRORED) \<noteq> 0 then Fin (Errored False) else Closing (Err_Write e),
      s\<lparr>state := state s OR ERRORING\<rparr>)"

fun close_step :: "('e, 'm) close_pc \<Rightarrow> ('e, 'ia, 'm) shared \<Rightarrow> ('e, 'ia, 'm) stepped" where
  "close_step (Err_Claim e) s = err_claim e s"
| "close_step (Err_Write e) s = (Closing Err_Set, s\<lparr>error := Some e\<rparr>)"
| "close_step Err_Set s = (Closing Err_Close_Rx, s\<lparr>state := state s OR ERRORED\<rparr>)"
| "close_step Err_Close_Rx s = (Closing Err_Wake, s\<lparr>enqueue_pos := enqueue_pos s OR CLOSED\<rparr>)"
| "close_step Err_Wake s = (Closing (Close_Tx (Errored True)), s\<lparr>prod_wait := prod_wait s @ [Wake_Close]\<rparr>)"
| "close_step (Close_Tx r) s = (Closing (Close_Wake r), s\<lparr>dequeue_pos := dequeue_pos s OR CLOSED\<rparr>)"
| "close_step (Close_Wake r) s = (Fin r, s\<lparr>cons_wait := cons_wait s @ [Wake_Close]\<rparr>)"

definition drop_tx :: "('e, 'ia, 'm) shared \<Rightarrow> ('e, 'ia, 'm) stepped" where
  "drop_tx s =
     (if drop_bit TX_SHIFT (state s) = 1 then Handle Drop_Fence else Fin Handle_Done,
      s\<lparr>state := state s - TX_ONE\<rparr>)"

definition drop_fence :: "('e, 'ia, 'm) shared \<Rightarrow> ('e, 'ia, 'm) stepped" where
  "drop_fence s =
     (if drop_bit TX_SHIFT (state s) = 0 then Closing (Close_Tx Handle_Done) else Panicked,
      s\<lparr>state := state s OR 0\<rparr>)"

fun handle_step :: "handle_pc \<Rightarrow> ('e, 'ia, 'm) shared \<Rightarrow> ('e, 'ia, 'm) stepped" where
  "handle_step Add_Tx s = (Fin Handle_Done, s\<lparr>state := state s + TX_ONE\<rparr>)"
| "handle_step Drop_Tx s = drop_tx s"
| "handle_step Drop_Fence s = drop_fence s"
| "handle_step Rx_Close s = (Handle Rx_Wake, s\<lparr>enqueue_pos := enqueue_pos s OR CLOSED\<rparr>)"
| "handle_step Rx_Wake s = (Fin Handle_Done, s\<lparr>prod_wait := prod_wait s @ [Wake_Close]\<rparr>)"

fun pc_step :: "'ia index_ops \<Rightarrow> bool \<Rightarrow> ('e, 'm) pc \<Rightarrow> ('e, 'ia, 'm) shared \<Rightarrow> ('e, 'ia, 'm) stepped" where
  "pc_step io ok (Sending m pc) s = send_step io ok m pc s"
| "pc_step io ok (Receiving pc) s = recv_step io ok pc s"
| "pc_step io ok (Reason_State x) s = reason_state x s"
| "pc_step io ok (Reason_Error x) s = reason_error x s"
| "pc_step io ok (Closing pc) s = close_step pc s"
| "pc_step io ok (Handle pc) s = handle_step pc s"
| "pc_step io ok pc s = (pc, s)"

subsection \<open>Threads\<close>

text \<open>
  A thread has a program point and the handles that count as senders (the \<open>TrickyPipe\<close> handles
  among them) it owns. The first thread starts with the one the channel is created with.
  \<open>nthreads\<close> threads take part. \<open>rx_live\<close> says that the receiver has not been dropped.
\<close>

record ('e, 'ia, 'm) threaded =
  mem :: "('e, 'ia, 'm) shared"
  pcs :: "nat \<Rightarrow> ('e, 'm) pc"
  senders :: "nat \<Rightarrow> nat"
  nthreads :: nat
  rx_live :: bool

datatype ('e, 'm) call = Call_Send 'm | Call_Recv | Call_Error 'e | Call_Clone | Call_Drop | Call_Drop_Rx

fun call_pc :: "('e, 'm) call \<Rightarrow> ('e, 'm) pc" where
  "call_pc (Call_Send m) = Sending m Reserve_Load"
| "call_pc Call_Recv = Receiving Deq_Load"
| "call_pc (Call_Error e) = Closing (Err_Claim e)"
| "call_pc Call_Clone = Handle Add_Tx"
| "call_pc Call_Drop = Handle Drop_Tx"
| "call_pc Call_Drop_Rx = Handle Rx_Close"

text \<open>A thread in the middle of a receive or of dropping the receiver.\<close>

fun receiving :: "('e, 'm) pc \<Rightarrow> bool" where
  "receiving (Receiving _) = True"
| "receiving (Reason_State x) = (x = Recv_Side)"
| "receiving (Reason_Error x) = (x = Recv_Side)"
| "receiving (Handle pc) = (pc = Rx_Close \<or> pc = Rx_Wake)"
| "receiving _ = False"

datatype ('e, 'm) action = Begin nat "('e, 'm) call" | Tick nat bool | Give nat nat

definition total_senders :: "('e, 'ia, 'm) threaded \<Rightarrow> nat" where
  "total_senders s = (\<Sum>t < nthreads s. senders s t)"

text \<open>
  What the ownership rules allow. Sending, cloning and dropping act on a sender that the thread
  owns; \<open>Give\<close> moves a sender to another thread. With \<open>one_rx\<close>, only one thread receives at a
  time; without, the receiver is shared by reference, which its type being \<open>Sync\<close> allows. The
  number of senders stays below what the state word can count.
\<close>

definition nobody_receives :: "('e, 'ia, 'm) threaded \<Rightarrow> bool" where
  "nobody_receives s = list_all (\<lambda>u. \<not> receiving (pcs s u)) [0..<nthreads s]"

lemma nobody_receives_iff [simp]: "nobody_receives s \<longleftrightarrow> (\<forall>u < nthreads s. \<not> receiving (pcs s u))"
  by (auto simp: nobody_receives_def list_all_iff)

fun may_begin :: "bool \<Rightarrow> ('e, 'ia, 'm) threaded \<Rightarrow> nat \<Rightarrow> ('e, 'm) call \<Rightarrow> bool" where
  "may_begin one_rx s t (Call_Send m) = (0 < senders s t)"
| "may_begin one_rx s t Call_Recv = (rx_live s \<and> (one_rx \<longrightarrow> nobody_receives s))"
| "may_begin one_rx s t (Call_Error e) = True"
| "may_begin one_rx s t Call_Clone = (0 < senders s t)"
| "may_begin one_rx s t Call_Drop = (0 < senders s t)"
| "may_begin one_rx s t Call_Drop_Rx = (rx_live s \<and> nobody_receives s)"

fun is_Fin :: "('e, 'm) pc \<Rightarrow> bool" where
  "is_Fin (Fin _) = True"
| "is_Fin _ = False"

fun may_act :: "bool \<Rightarrow> ('e, 'ia, 'm) threaded \<Rightarrow> ('e, 'm) action \<Rightarrow> bool" where
  "may_act one_rx s (Begin t c) = (t < nthreads s \<and> is_Fin (pcs s t) \<and> may_begin one_rx s t c)"
| "may_act one_rx s (Tick t ok) =
     (t < nthreads s \<and> (pcs s t = Handle Add_Tx \<longrightarrow> int (total_senders s) < 2 ^ 61 - 1))"
| "may_act one_rx s (Give t u) =
     (t < nthreads s \<and> u < nthreads s \<and> t \<noteq> u \<and> is_Fin (pcs s t) \<and> 0 < senders s t)"

fun senders_after :: "('e, 'm) pc \<Rightarrow> nat \<Rightarrow> nat" where
  "senders_after (Handle Add_Tx) k = k + 1"
| "senders_after (Handle Drop_Tx) k = k - 1"
| "senders_after pc k = k"

fun act :: "'ia index_ops \<Rightarrow> ('e, 'm) action \<Rightarrow> ('e, 'ia, 'm) threaded \<Rightarrow> ('e, 'ia, 'm) threaded" where
  "act io (Begin t c) s =
     s\<lparr>pcs := (pcs s)(t := call_pc c), rx_live := (rx_live s \<and> call_pc c \<noteq> Handle Rx_Close)\<rparr>"
| "act io (Tick t ok) s =
     (let (pc, m) = pc_step io ok (pcs s t) (mem s)
      in s\<lparr>mem := m, pcs := (pcs s)(t := pc),
           senders := (senders s)(t := senders_after (pcs s t) (senders s t))\<rparr>)"
| "act io (Give t u) s =
     s\<lparr>senders := (senders s)(t := senders s t - 1, u := senders s u + 1)\<rparr>"

definition threads_new :: "('e, 'ia) core \<Rightarrow> nat \<Rightarrow> ('e, 'ia, 'm) threaded" where
  "threads_new c n = \<lparr>
     mem = core.extend c \<lparr>cells = replicate (unat (capacity c)) None, log = []\<rparr>,
     pcs = (\<lambda>_. Fin Idle), senders = (\<lambda>t. if t = 0 then 1 else 0), nthreads = n, rx_live = True\<rparr>"

inductive interleaved :: "'ia index_ops \<Rightarrow> bool \<Rightarrow> ('e, 'ia, 'm) threaded \<Rightarrow> bool"
  for io :: "'ia index_ops" and one_rx :: bool where
  Start: "Core_new io cap = Done c \<Longrightarrow> 0 < n \<Longrightarrow> interleaved io one_rx (threads_new c n)"
| Act: "interleaved io one_rx s \<Longrightarrow> may_act one_rx s a \<Longrightarrow> interleaved io one_rx (act io a s)"

end
