(* ===== verification/Core_Atomic_Inv.thy ===== *)
theory Core_Atomic_Inv
  imports Core_Atomic Mpsc_Spec
begin

section \<open>The ring buffer under every interleaving\<close>

text \<open>
  The invariant of the atomic-step model while one thread receives at a time and at most 960
  messages have been sent, so that no ten-bit sequence number of a slot has wrapped. Between a
  compare-exchange on a position word and the store to its slot, a slot is one sequence number
  behind; the invariant says which thread owes the store. Every index is owned by the allocator,
  the queue, one thread, or is lost with a send that found the channel closed.
\<close>

subsection \<open>What a program point says\<close>

text \<open>The index a thread owns, and the position whose slot it is about to store.\<close>

fun own :: "('e, 'm) pc \<Rightarrow> u8 option" where
  "own (Sending m (Write_Cell i)) = Some i"
| "own (Sending m (Commit_Load i)) = Some i"
| "own (Sending m (Commit_Slot i tail)) = Some i"
| "own (Sending m (Commit_Cas i tail)) = Some i"
| "own (Receiving (Deq_Store h v)) = Some (ucast (v AND MASK))"
| "own (Receiving (Take i)) = Some i"
| "own (Receiving (Uncommit_Free m i)) = Some i"
| "own _ = None"

fun pending :: "('e, 'm) pc \<Rightarrow> nat option" where
  "pending (Sending m (Commit_Store i tail)) = Some (unat tail div 64)"
| "pending _ = None"

fun stalled :: "('e, 'm) pc \<Rightarrow> bool" where
  "stalled (Receiving (Deq_Store h v)) = True"
| "stalled _ = False"

fun send_ok :: "('e, 'ia, 'm) shared \<Rightarrow> 'm \<Rightarrow> send_pc \<Rightarrow> bool" where
  "send_ok s m (Commit_Load i) = (cells s ! unat i = Some m)"
| "send_ok s m (Commit_Slot i tail) = (cells s ! unat i = Some m \<and> unat tail div 64 \<le> length (log s))"
| "send_ok s m (Commit_Cas i tail) =
     (cells s ! unat i = Some m \<and> unat tail div 64 \<le> length (log s) \<and> even (unat tail))"
| "send_ok s m (Commit_Store i tail) =
     (let p = unat tail div 64
      in Core_head s \<le> p \<and> p < length (log s) \<and> log s ! p = (i, m) \<and> unat i < 64 \<and>
         unat (queue s ! (p mod 64)) div 64 = p)"
| "send_ok s m _ = True"

fun recv_ok :: "('e, 'ia, 'm) shared \<Rightarrow> 'm recv_pc \<Rightarrow> bool" where
  "recv_ok s Deq_Load = True"
| "recv_ok s (Deq_Slot h) = (unat h div 64 = Core_head s)"
| "recv_ok s (Deq_Cas h v) =
     (unat h div 64 = Core_head s \<and> v = queue s ! (Core_head s mod 64) \<and>
      unat v div 64 = Core_head s + 1)"
| "recv_ok s (Deq_Store h v) =
     (0 < Core_head s \<and> unat h div 64 = Core_head s - 1 \<and>
      v = queue s ! ((Core_head s - 1) mod 64) \<and> unat v div 64 = Core_head s \<and>
      cells s ! (unat v mod 64) = Some (snd (log s ! (Core_head s - 1))))"
| "recv_ok s (Take i) =
     (0 < Core_head s \<and> cells s ! unat i = Some (snd (log s ! (Core_head s - 1))))"
| "recv_ok s (Uncommit_Free m i) = (0 < Core_head s \<and> m = snd (log s ! (Core_head s - 1)))"
| "recv_ok s (Uncommit_Wake m) = (0 < Core_head s \<and> m = snd (log s ! (Core_head s - 1)))"

fun pc_ok :: "('e, 'ia, 'm) shared \<Rightarrow> ('e, 'm) pc \<Rightarrow> bool" where
  "pc_ok s (Sending m pc) = send_ok s m pc"
| "pc_ok s (Receiving pc) = recv_ok s pc"
| "pc_ok s Panicked = False"
| "pc_ok s Undefined = False"
| "pc_ok s _ = True"

subsection \<open>The invariant\<close>

definition slot_ok :: "('e, 'ia, 'm) shared \<Rightarrow> bool \<Rightarrow> nat \<Rightarrow> bool" where
  "slot_ok s st k \<longleftrightarrow>
     (let p = Core_head s + k; w = unat (queue s ! (p mod 64))
      in if p < length (log s) then w = 64 * (p + 1) + unat (fst (log s ! p)) \<or> w div 64 = p
         else w div 64 = p \<or> k = 63 \<and> st \<and> w div 64 = Core_head s)"

definition ring_ok :: "('e, 'ia, 'm) shared \<Rightarrow> bool \<Rightarrow> bool" where
  "ring_ok s st \<longleftrightarrow>
     length (queue s) = 64 \<and> length (log s) \<le> 960 \<and> Core_head s \<le> length (log s) \<and>
     (\<forall>x \<in> set (log s). unat (fst x) < 64) \<and>
     unat (enqueue_pos s) = 64 * length (log s) + of_bool (rx_closed s) \<and>
     unat (dequeue_pos s) = 64 * Core_head s + of_bool (tx_closed s) \<and> (\<forall>k < 64. slot_ok s st k)"

definition unreceived :: "('e, 'ia, 'm) shared \<Rightarrow> (u8 \<times> 'm) list" where
  "unreceived s = drop (Core_head s) (log s)"

definition index_ok :: "('ia \<Rightarrow> nat set) \<Rightarrow> ('e, 'ia, 'm) shared \<Rightarrow> (nat \<Rightarrow> u8 option) \<Rightarrow> bool" where
  "index_ok fr s owns \<longleftrightarrow>
     length (cells s) \<le> 64 \<and> (\<forall>k \<in> fr (indices s). k < length (cells s)) \<and>
     distinct (map fst (unreceived s)) \<and>
     (\<forall>x \<in> set (unreceived s). unat (fst x) < length (cells s) \<and> unat (fst x) \<notin> fr (indices s) \<and>
        cells s ! unat (fst x) = Some (snd x)) \<and>
     (\<forall>t i. owns t = Some i \<longrightarrow>
        unat i < length (cells s) \<and> unat i \<notin> fr (indices s) \<and> i \<notin> fst ` set (unreceived s)) \<and>
     (\<forall>t u i. owns t = Some i \<longrightarrow> owns u = Some i \<longrightarrow> t = u)"

definition pending_ok :: "('e, 'ia, 'm) shared \<Rightarrow> (nat \<Rightarrow> nat option) \<Rightarrow> bool" where
  "pending_ok s pend \<longleftrightarrow>
     (\<forall>t u p. pend t = Some p \<longrightarrow> pend u = Some p \<longrightarrow> t = u) \<and>
     (\<forall>p. Core_head s \<le> p \<longrightarrow> p < length (log s) \<longrightarrow> unat (queue s ! (p mod 64)) div 64 = p \<longrightarrow>
        (\<exists>t. pend t = Some p))"

text \<open>The invariant of a memory \<open>m\<close> shared by \<open>n\<close> threads at the program points \<open>P\<close>.\<close>

definition threads_ok :: "('e, 'ia, 'm) shared \<Rightarrow> (nat \<Rightarrow> ('e, 'm) pc) \<Rightarrow> nat \<Rightarrow> bool" where
  "threads_ok m P n \<longleftrightarrow>
     (\<forall>t. pc_ok m (P t)) \<and> (\<forall>t \<ge> n. P t = Fin Idle) \<and>
     (\<forall>t u. receiving (P t) \<longrightarrow> receiving (P u) \<longrightarrow> t = u)"

definition atomic_ok ::
  "('ia \<Rightarrow> nat set) \<Rightarrow> ('e, 'ia, 'm) shared \<Rightarrow> (nat \<Rightarrow> ('e, 'm) pc) \<Rightarrow> nat \<Rightarrow> bool" where
  "atomic_ok fr m P n \<longleftrightarrow>
     ring_ok m (\<exists>t. stalled (P t)) \<and> index_ok fr m (\<lambda>t. own (P t)) \<and>
     pending_ok m (\<lambda>t. pending (P t)) \<and> threads_ok m P n"

definition atomic_inv :: "('ia \<Rightarrow> nat set) \<Rightarrow> ('e, 'ia, 'm) threaded \<Rightarrow> bool" where
  "atomic_inv fr s \<longleftrightarrow> atomic_ok fr (mem s) (pcs s) (nthreads s)"

lemma atomic_okD:
  assumes "atomic_ok fr m P n"
  shows "ring_ok m (\<exists>u. stalled (P u))" "index_ok fr m (\<lambda>u. own (P u))"
    "pending_ok m (\<lambda>u. pending (P u))" "pc_ok m (P u)" "n \<le> u \<Longrightarrow> P u = Fin Idle"
    "receiving (P u) \<Longrightarrow> receiving (P v) \<Longrightarrow> u = v"
  using assms unfolding atomic_ok_def threads_ok_def by blast+

subsection \<open>Counting indices\<close>

lemma distinct_u8_length:
  assumes "distinct (xs :: u8 list)" and "\<forall>i \<in> set xs. unat i < 64"
  shows "length xs \<le> 64"
proof -
  have "card (unat ` set xs) \<le> card {..<64 :: nat}"
    using assms(2) by (intro card_mono) auto
  then show ?thesis
    using assms(1) by (simp add: card_image inj_on_def distinct_card word_unat_eq_iff [symmetric])
qed

lemma index_ownD:
  assumes "index_ok fr s owns" and "owns t = Some i"
  shows "unat i < length (cells s)" "unat i < 64" "unat i \<notin> fr (indices s)"
    "i \<notin> fst ` set (unreceived s)"
proof -
  show "unat i < length (cells s)" "unat i \<notin> fr (indices s)" "i \<notin> fst ` set (unreceived s)"
    using assms by (simp_all add: index_ok_def)
  moreover have "length (cells s) \<le> 64" using assms(1) by (simp add: index_ok_def)
  ultimately show "unat i < 64" by linarith
qed

lemma index_count:
  assumes "index_ok fr s owns"
  shows "length (unreceived s) \<le> 64"
    and "owns t = Some i \<Longrightarrow> length (unreceived s) \<le> 63"
    and "owns t = Some i \<Longrightarrow> owns u = Some j \<Longrightarrow> t \<noteq> u \<Longrightarrow> length (unreceived s) \<le> 62"
proof -
  let ?q = "map fst (unreceived s)"
  have q: "distinct ?q" "\<forall>i \<in> set ?q. unat i < 64"
    using assms by (fastforce simp: index_ok_def)+
  have o: "unat i < 64 \<and> i \<notin> set ?q" if "owns t = Some i" for t i
    using assms that by (force simp: index_ok_def)
  show "length (unreceived s) \<le> 64"
    using distinct_u8_length [OF q] by simp
  show "length (unreceived s) \<le> 63" if "owns t = Some i"
    using distinct_u8_length [of "i # ?q"] q o [OF that] by simp
  show "length (unreceived s) \<le> 62" if "owns t = Some i" "owns u = Some j" "t \<noteq> u"
  proof -
    have "i \<noteq> j" using assms that by (auto simp: index_ok_def)
    then show ?thesis
      using distinct_u8_length [of "i # j # ?q"] q o [OF that(1)] o [OF that(2)] by simp
  qed
qed

lemma unreceived_bound:
  assumes "index_ok fr s owns"
  shows "length (unreceived s) \<le> length (cells s)"
proof -
  have "unat ` set (map fst (unreceived s)) \<subseteq> {..<length (cells s)}"
    using assms by (auto simp: index_ok_def)
  then have "card (unat ` set (map fst (unreceived s))) \<le> length (cells s)"
    using card_mono [of "{..<length (cells s)}"] by simp
  moreover have "card (unat ` set (map fst (unreceived s))) = length (map fst (unreceived s))"
    using assms by (simp add: index_ok_def card_image inj_on_def distinct_card word_unat_eq_iff [symmetric]
        del: set_map)
  ultimately show ?thesis by simp
qed

subsection \<open>Reading a slot\<close>

lemma ring_okD:
  assumes "ring_ok s st"
  shows "length (queue s) = 64" "length (log s) \<le> 960" "Core_head s \<le> length (log s)"
    "p < length (log s) \<Longrightarrow> unat (fst (log s ! p)) < 64"
    "unat (enqueue_pos s) = 64 * length (log s) + of_bool (rx_closed s)"
    "unat (dequeue_pos s) = 64 * Core_head s + of_bool (tx_closed s)"
    "k < 64 \<Longrightarrow> slot_ok s st k"
  using assms by (simp_all add: ring_ok_def)

lemma ring_slot:
  assumes "ring_ok s st" and "Core_head s \<le> p" and "p < Core_head s + 64"
  shows "if p < length (log s)
     then unat (queue s ! (p mod 64)) = 64 * (p + 1) + unat (fst (log s ! p)) \<or>
          unat (queue s ! (p mod 64)) div 64 = p
     else unat (queue s ! (p mod 64)) div 64 = p \<or>
          p = Core_head s + 63 \<and> st \<and> unat (queue s ! (p mod 64)) div 64 = Core_head s"
proof -
  from assms(2,3) obtain k where "p = Core_head s + k" "k < 64"
    by (metis nat_add_left_cancel_less nat_le_iff_add)
  then show ?thesis
    using ring_okD(7) [OF assms(1) \<open>k < 64\<close>] unfolding slot_ok_def Let_def
    by (simp only: add_left_cancel simp_thms)
qed

lemma window_position: "\<exists>p. Core_head s \<le> p \<and> p < Core_head s + 64 \<and> p mod 64 = q mod 64"
proof -
  let ?k = "(63 * Core_head s + q) mod 64"
  have "(Core_head s + ?k) mod 64 = (64 * Core_head s + q) mod 64"
    by (simp add: mod_add_right_eq)
  then have "(Core_head s + ?k) mod 64 = q mod 64" by simp
  then show ?thesis by (intro exI [of _ "Core_head s + ?k"]) simp
qed

lemma slot_ok_cong:
  assumes "Core_head s' = Core_head s" "log s' = log s"
    "queue s' ! ((Core_head s + k) mod 64) = queue s ! ((Core_head s + k) mod 64)"
  shows "slot_ok s' st k = slot_ok s st k"
  by (simp only: slot_ok_def Let_def assms)

lemma same_slot:
  assumes "h \<le> p" "h \<le> q" "p < h + 64" "q < h + (64 :: nat)" "p mod 64 = q mod 64"
  shows "p = q"
proof -
  have "h + (p - h) = p" "h + (q - h) = q" "p - h < 64" "q - h < 64"
    using assms(1-4) by linarith+
  then show ?thesis using same_residue_iff [of "p - h" 64 "q - h" h] assms(5) by metis
qed

text \<open>A sender with any earlier position finds a sequence number that is not smaller.\<close>

lemma slot_not_behind:
  assumes r: "ring_ok s st" and "q \<le> length (log s)" and "length (unreceived s) \<le> 63"
    and st: "st \<Longrightarrow> length (unreceived s) \<le> 62"
  shows "q \<le> unat (queue s ! (q mod 64)) div 64"
proof -
  have T: "length (log s) \<le> Core_head s + 63" "st \<Longrightarrow> length (log s) \<le> Core_head s + 62"
    using assms(3) st ring_okD(3) [OF r] by (auto simp: unreceived_def)
  obtain p where p: "Core_head s \<le> p" "p < Core_head s + 64" "p mod 64 = q mod 64"
    using window_position [of s q] by blast
  have eq: "q = p" if "Core_head s \<le> q"
    using same_slot [OF that p(1)] p(2,3) T(1) assms(2) by simp
  have "q \<le> p" using eq p(1) by linarith
  moreover have "q \<le> Core_head s" if "p = Core_head s + 63" "st"
    using eq T(2) [OF that(2)] that(1) assms(2) by linarith
  moreover have "(64 * (p + 1) + unat (fst (log s ! p))) div 64 = p + 1" if "p < length (log s)"
    using ring_okD(4) [OF r that] by simp
  ultimately show ?thesis
    using ring_slot [OF r p(1,2), unfolded p(3)] by (auto split: if_split_asm)
qed

subsection \<open>What an update leaves alone\<close>

lemma shared_head [simp]:
  "Core_head (s\<lparr>cells := x\<rparr>) = Core_head s" "Core_head (s\<lparr>log := l\<rparr>) = Core_head s"
  "Core_head (s\<lparr>cons_wait := w\<rparr>) = Core_head s" "Core_head (s\<lparr>queue := q\<rparr>) = Core_head s"
  "Core_head (s\<lparr>enqueue_pos := e\<rparr>) = Core_head s"
  "tx_closed (s\<lparr>queue := q\<rparr>) = tx_closed s" "tx_closed (s\<lparr>enqueue_pos := e\<rparr>) = tx_closed s"
  "tx_closed (s\<lparr>log := l\<rparr>) = tx_closed s" "rx_closed (s\<lparr>log := l\<rparr>) = rx_closed s"
  "rx_closed (s\<lparr>queue := q\<rparr>) = rx_closed s" "rx_closed (s\<lparr>dequeue_pos := e\<rparr>) = rx_closed s"
  by (simp_all add: Core_head_def tx_closed_def rx_closed_def)

lemma half_up: "(w + of_bool (even w)) div 64 = w div (64 :: nat)"
proof -
  have "w div 64 = (w div 2) div 32" by (simp add: div_mult2_eq [symmetric])
  moreover have "(w + of_bool (even w)) div 64 = ((w + of_bool (even w)) div 2) div 32"
    by (simp only: div_mult2_eq [symmetric]) simp
  ultimately show ?thesis by (cases "even w") simp_all
qed

lemma head_close [simp]: "Core_head (s\<lparr>dequeue_pos := dequeue_pos s OR CLOSED\<rparr>) = Core_head s"
  by (simp add: Core_head_def unat_close half_up)

lemma ring_ok_cong:
  assumes "queue s' = queue s" "log s' = log s" "Core_head s' = Core_head s"
    "enqueue_pos s' = enqueue_pos s \<or> enqueue_pos s' = enqueue_pos s OR CLOSED"
    "dequeue_pos s' = dequeue_pos s \<or> dequeue_pos s' = dequeue_pos s OR CLOSED"
  shows "ring_ok s st \<Longrightarrow> ring_ok s' st"
  using assms
  by (auto simp: ring_ok_def slot_ok_def Let_def rx_closed_def tx_closed_def unat_close)

lemma pc_ok_cong:
  assumes "queue s' = queue s" "log s' = log s" "Core_head s' = Core_head s" "cells s' = cells s"
  shows "pc_ok s' pc = pc_ok s pc"
proof (cases pc)
  case (Sending m p)
  then show ?thesis using assms by (cases p) (simp_all add: Let_def)
next
  case (Receiving p)
  then show ?thesis using assms by (cases p) simp_all
qed simp_all

lemma index_ok_cong:
  assumes "indices s' = indices s" "log s' = log s" "Core_head s' = Core_head s" "cells s' = cells s"
  shows "index_ok fr s' owns = index_ok fr s owns"
  using assms by (simp add: index_ok_def unreceived_def)

lemma pending_ok_cong:
  assumes "queue s' = queue s" "log s' = log s" "Core_head s' = Core_head s"
  shows "pending_ok s' pend = pending_ok s pend"
  using assms by (simp add: pending_ok_def)

text \<open>A thread that gives up its index, and one that has none, leave the rest as it is.\<close>

lemma index_ok_drop: "index_ok fr s owns \<Longrightarrow> index_ok fr s (owns(t := None))"
  by (auto simp: index_ok_def)

subsection \<open>Sending\<close>

lemma alloc_step:
  assumes io: "index_alloc io fr" and "index_ok fr s owns"
    and a: "ia_allocate io (indices s) = (Some i, ia)"
  shows "index_ok fr (s\<lparr>indices := ia\<rparr>) (owns(t := Some i))"
proof -
  have "unat i \<in> fr (indices s)" and fr: "fr ia = fr (indices s) - {unat i}"
    using index_allocD(3) [OF io a] by simp_all
  then show ?thesis
    using assms(2) by (auto simp: index_ok_def unreceived_def)
qed

lemma alloc_full:
  assumes "index_alloc io fr" "index_ok fr s owns" "ia_allocate io (indices s) = (None, ia)"
  shows "index_ok fr (s\<lparr>indices := ia\<rparr>) owns"
  using assms(2) index_allocD(2) [OF assms(1,3)] by (simp add: index_ok_def unreceived_def)

lemma u8_neq: "(i :: u8) \<noteq> j \<Longrightarrow> unat i \<noteq> unat j"
  by (simp add: word_unat_eq_iff)

lemma cells_index:
  assumes "index_ok fr s owns" and "owns t = Some i"
  shows "index_ok fr (s\<lparr>cells := (cells s)[unat i := x]\<rparr>) owns"
proof -
  have i: "i \<notin> fst ` set (unreceived s)" using assms by (auto simp: index_ok_def)
  have "(cells s)[unat i := x] ! unat (fst y) = cells s ! unat (fst y)"
    if "y \<in> set (unreceived s)" for y
    using i that u8_neq [of i "fst y"] by force
  then show ?thesis
    using assms(1) by (simp add: index_ok_def unreceived_def)
qed

lemma cells_pc_ok:
  assumes "own pc \<noteq> Some i"
  shows "pc_ok (s\<lparr>cells := (cells s)[unat i := x]\<rparr>) pc = pc_ok s pc"
proof (cases pc)
  case (Sending m p)
  then show ?thesis using assms by (cases p) (simp_all add: Let_def u8_neq)
next
  case (Receiving p)
  have "unat (ucast (v AND MASK) :: u8) = unat v mod 64" for v :: u16
    by (simp add: layout_simps unat_ucast_u8)
  with Receiving show ?thesis
    using assms u8_neq by (cases p) (fastforce simp: nth_list_update)+
qed simp_all

text \<open>The compare-exchange that claims a position for a message.\<close>

abbreviation claimed :: "('e, 'ia, 'm) shared \<Rightarrow> u8 \<Rightarrow> 'm \<Rightarrow> ('e, 'ia, 'm) shared" where
  "claimed s i m \<equiv> s\<lparr>enqueue_pos := enqueue_pos s + POS_ONE, log := log s @ [(i, m)]\<rparr>"

lemma tail_slot:
  assumes r: "ring_ok s st" and "length (unreceived s) \<le> 63"
    and "st \<Longrightarrow> length (unreceived s) \<le> 62"
  shows "unat (queue s ! (length (log s) mod 64)) div 64 = length (log s)"
proof -
  have T: "length (log s) \<le> Core_head s + 63" "st \<Longrightarrow> length (log s) \<le> Core_head s + 62"
    using assms(2,3) ring_okD(3) [OF r] by (auto simp: unreceived_def)
  then show ?thesis
    using ring_slot [OF r, of "length (log s)"] ring_okD(3) [OF r] by auto
qed

lemma claim_ring:
  assumes r: "ring_ok s st" and even: "even (unat (enqueue_pos s))" and i: "unat i < 64"
    and room: "length (unreceived s) \<le> 63" "st \<Longrightarrow> length (unreceived s) \<le> 62"
    and len: "length (log s) < 960"
  shows "ring_ok (claimed s i m) st"
proof -
  note R = ring_okD [OF r]
  have enq: "unat (enqueue_pos s) = 64 * length (log s)"
    using R(5) even by (auto split: if_splits)
  then have enq': "unat (enqueue_pos s + POS_ONE) = 64 * (length (log s) + 1)"
    using len by (simp add: POS_ONE_value unat_word_ariths)
  have "slot_ok (claimed s i m) st k" if k: "k < 64" for k
  proof (cases "Core_head s + k = length (log s)")
    case True
    then show ?thesis using tail_slot [OF r room] by (simp add: slot_ok_def Let_def)
  next
    case False
    then show ?thesis using R(7) [OF k] by (auto simp: slot_ok_def Let_def nth_append split: if_splits)
  qed
  then show ?thesis
    using r enq' i len R(6) by (auto simp: ring_ok_def rx_closed_def)
qed

lemma claim_pc_ok:
  assumes "ring_ok s st" and "pc_ok s pc"
  shows "pc_ok (claimed s i m) pc"
proof (cases pc)
  case (Sending m' p)
  then show ?thesis using assms by (cases p) (auto simp: Let_def nth_append)
next
  case (Receiving p)
  have "0 < Core_head s \<Longrightarrow> (log s @ [(i, m)]) ! (Core_head s - 1) = log s ! (Core_head s - 1)"
  proof -
    assume "0 < Core_head s"
    then have "Core_head s - 1 < length (log s)" using ring_okD(3) [OF assms(1)] by linarith
    then show ?thesis by (simp add: nth_append)
  qed
  with Receiving show ?thesis using assms(2) by (cases p) auto
qed (use assms in simp_all)

lemma claim_new_pc:
  assumes r: "ring_ok s st" and even: "even (unat (enqueue_pos s))" and "unat i < 64"
    and room: "length (unreceived s) \<le> 63" "st \<Longrightarrow> length (unreceived s) \<le> 62"
  shows "pc_ok (claimed s i m) (Sending m (Commit_Store i (enqueue_pos s)))"
    and "unat (enqueue_pos s) div 64 = length (log s)"
  using ring_okD(3,5) [OF r] even tail_slot [OF r room] assms(3)
  by (auto simp: Let_def split: if_splits)

lemma claim_index:
  assumes "index_ok fr s owns" "owns t = Some i" "cells s ! unat i = Some m"
    and "Core_head s \<le> length (log s)"
  shows "index_ok fr (claimed s i m) (owns(t := None))"
proof -
  have "unreceived (claimed s i m) = unreceived s @ [(i, m)]"
    using assms(4) by (simp add: unreceived_def)
  then show ?thesis
    using assms(1-3) by (auto simp: index_ok_def)
qed

lemma claim_pending:
  assumes "pending_ok s pend" and "\<And>u p. pend u = Some p \<Longrightarrow> p < length (log s)" and "pend t = None"
  shows "pending_ok (claimed s i m) (pend(t := Some (length (log s))))"
proof -
  have "\<exists>u. (pend(t := Some (length (log s)))) u = Some p"
    if p: "Core_head s \<le> p" "p < length (log s) + 1" "unat (queue s ! (p mod 64)) div 64 = p" for p
  proof (cases "p = length (log s)")
    case True
    then show ?thesis by (intro exI [of _ t]) simp
  next
    case False
    then obtain u where "pend u = Some p" using assms(1) p by (fastforce simp: pending_ok_def)
    then show ?thesis using assms(3) by (intro exI [of _ u]) auto
  qed
  then show ?thesis
    using assms by (auto simp: pending_ok_def)
qed

text \<open>The store that publishes the message.\<close>

abbreviation published :: "('e, 'ia, 'm) shared \<Rightarrow> u8 \<Rightarrow> u16 \<Rightarrow> ('e, 'ia, 'm) shared" where
  "published s i tail \<equiv> s\<lparr>queue := (queue s)[(unat tail div 64) mod 64 :=
     ucast i OR push_bit POS_SHIFT (drop_bit POS_SHIFT tail + 1)]\<rparr>"

lemma publish_ring:
  assumes r: "ring_ok s st" and ok: "send_ok s m (Commit_Store i tail)"
    and room: "length (unreceived s) \<le> 64"
  shows "ring_ok (published s i tail) st"
    and "unat (queue (published s i tail) ! (unat tail div 64 mod 64)) = 64 * (unat tail div 64 + 1) + unat i"
proof -
  note R = ring_okD [OF r]
  let ?p = "unat tail div 64"
  have p: "Core_head s \<le> ?p" "?p < length (log s)" "log s ! ?p = (i, m)" "unat i < 64"
    using ok by (simp_all add: Let_def)
  have T: "length (log s) \<le> Core_head s + 64" using room by (simp add: unreceived_def)
  have w: "unat (ucast i OR push_bit POS_SHIFT (drop_bit POS_SHIFT tail + 1) :: u16) = 64 * (?p + 1) + unat i"
    using unat_commit_word [OF p(4), of "drop_bit POS_SHIFT tail"] p(2) R(2) by (simp add: unat_pos)
  then show "unat (queue (published s i tail) ! (?p mod 64)) = 64 * (?p + 1) + unat i"
    using R(1) by simp
  have "slot_ok (published s i tail) st k" if k: "k < 64" for k
  proof (cases "Core_head s + k = ?p")
    case True
    then show ?thesis using w p R(1) by (simp add: slot_ok_def Let_def)
  next
    case False
    then have "(Core_head s + k) mod 64 \<noteq> ?p mod 64"
      using same_slot [of "Core_head s" "Core_head s + k" ?p] k p T by auto
    then show ?thesis
      using R(7) [OF k] slot_ok_cong [of "published s i tail" s k st] by simp
  qed
  then show "ring_ok (published s i tail) st"
    using r by (simp add: ring_ok_def)
qed

lemma publish_pc_ok:
  assumes r: "ring_ok s st" and ok: "send_ok s m (Commit_Store i tail)"
    and room: "length (unreceived s) \<le> 64" "st \<Longrightarrow> length (unreceived s) \<le> 63"
    and pc: "pc_ok s pc" "pending pc \<noteq> Some (unat tail div 64)" "stalled pc \<Longrightarrow> st"
  shows "pc_ok (published s i tail) pc"
proof (cases pc)
  case (Sending m' p)
  have p: "Core_head s \<le> unat tail div 64" "unat tail div 64 < length (log s)"
    using ok by (simp_all add: Let_def)
  have T: "length (log s) \<le> Core_head s + 64" using room(1) by (simp add: unreceived_def)
  have "unat t div 64 mod 64 \<noteq> unat tail div 64 mod 64" if "p = Commit_Store j t" for j t
    using same_slot [of "Core_head s" "unat t div 64" "unat tail div 64"] p T pc Sending that
    by (auto simp: Let_def)
  with Sending show ?thesis using pc(1) by (cases p) (simp_all add: Let_def)
next
  case (Receiving p)
  have p: "Core_head s \<le> unat tail div 64" "unat tail div 64 < length (log s)"
    "unat (queue s ! (unat tail div 64 mod 64)) div 64 = unat tail div 64"
    using ok by (simp_all add: Let_def)
  have T: "length (log s) \<le> Core_head s + 64" using room(1) by (simp add: unreceived_def)
  have "Core_head s mod 64 \<noteq> unat tail div 64 mod 64" if "p = Deq_Cas h v" for h v
    using same_slot [of "Core_head s" "Core_head s" "unat tail div 64"] p T pc(1) Receiving that
    by auto
  moreover have "(Core_head s - 1) mod 64 \<noteq> unat tail div 64 mod 64" if "p = Deq_Store h v" for h v
  proof -
    have "length (log s) \<le> Core_head s + 63" "0 < Core_head s"
      using room(2) pc Receiving that by (simp_all add: unreceived_def)
    then show ?thesis
      using same_slot [of "Core_head s - 1" "Core_head s - 1" "unat tail div 64"] p by fastforce
  qed
  ultimately show ?thesis using Receiving pc(1) by (cases p) simp_all
qed (use pc in simp_all)

lemma publish_pending:
  assumes r: "ring_ok s st" and ok: "send_ok s m (Commit_Store i tail)"
    and room: "length (unreceived s) \<le> 64"
    and "pending_ok s pend" "pend t = Some (unat tail div 64)"
  shows "pending_ok (published s i tail) (pend(t := None))"
proof -
  let ?p = "unat tail div 64"
  have p: "Core_head s \<le> ?p" "?p < length (log s)" "unat i < 64"
    using ok by (simp_all add: Let_def)
  have T: "length (log s) \<le> Core_head s + 64" using room by (simp add: unreceived_def)
  have "\<exists>u. (pend(t := None)) u = Some q"
    if q: "Core_head s \<le> q" "q < length (log s)" "unat (queue (published s i tail) ! (q mod 64)) div 64 = q" for q
  proof -
    have ne: "q \<noteq> ?p"
      using publish_ring(2) [OF r ok room] q(3) p(3) by auto
    then have "q mod 64 \<noteq> ?p mod 64"
      using same_slot [of "Core_head s" q ?p] q p T by auto
    then have "unat (queue s ! (q mod 64)) div 64 = q" using q(3) by simp
    then obtain u where "pend u = Some q" using assms(4) q by (auto simp: pending_ok_def)
    with ne assms(5) show ?thesis by (intro exI [of _ u]) auto
  qed
  then show ?thesis
    using assms(4) by (auto simp: pending_ok_def)
qed

subsection \<open>Receiving\<close>

text \<open>The compare-exchange that takes the oldest message, and the store that frees its slot.\<close>

abbreviation taken :: "('e, 'ia, 'm) shared \<Rightarrow> ('e, 'ia, 'm) shared" where
  "taken s \<equiv> s\<lparr>dequeue_pos := dequeue_pos s + POS_ONE\<rparr>"

lemma head_message:
  assumes r: "ring_ok s st" and ok: "recv_ok s (Deq_Cas h v)"
  shows "Core_head s < length (log s)"
    "unat v = 64 * (Core_head s + 1) + unat (fst (log s ! Core_head s))"
  using ring_slot [OF r, of "Core_head s"] ok by (auto split: if_split_asm)

lemma take_pos:
  assumes r: "ring_ok s st" and "recv_ok s (Deq_Cas h v)"
  shows "Core_head (taken s) = Core_head s + 1" "tx_closed (taken s) = tx_closed s"
    "unat (dequeue_pos (taken s)) = 64 * (Core_head s + 1) + of_bool (tx_closed s)"
proof -
  note R = ring_okD [OF r] head_message [OF assms]
  show *: "unat (dequeue_pos (taken s)) = 64 * (Core_head s + 1) + of_bool (tx_closed s)"
    using R(2,6) R(8) by (simp add: POS_ONE_value unat_word_ariths)
  then show "Core_head (taken s) = Core_head s + 1" "tx_closed (taken s) = tx_closed s"
    by (simp_all add: Core_head_def tx_closed_def)
qed

lemma take_ring:
  assumes r: "ring_ok s False" and ok: "recv_ok s (Deq_Cas h v)" and room: "length (unreceived s) \<le> 64"
  shows "ring_ok (taken s) True"
proof -
  note R = ring_okD [OF r] and H = head_message [OF r ok] and T = take_pos [OF r ok]
  have "slot_ok (taken s) True k" if k: "k < 64" for k
  proof (cases "k = 63")
    case True
    have "unat (queue s ! (Core_head s mod 64)) div 64 = Core_head s + 1" using ok by auto
    moreover have "(Core_head s + 1 + 63) mod 64 = Core_head s mod 64" by simp
    moreover have "\<not> Core_head s + 64 < length (log s)" using room by (simp add: unreceived_def)
    ultimately show ?thesis using T(1) True by (simp add: slot_ok_def Let_def add.commute)
  next
    case False
    then have "slot_ok s False (k + 1)" using R(7) k by simp
    then show ?thesis unfolding slot_ok_def Let_def T(1) by (auto simp: add.commute add.left_commute split: if_split_asm)
  qed
  then show ?thesis
    using r T H(1) by (simp add: ring_ok_def)
qed

lemma take_pc_ok:
  assumes r: "ring_ok s False" and ok: "recv_ok s (Deq_Cas h v)" and "pc_ok s pc" "\<not> receiving pc"
  shows "pc_ok (taken s) pc"
proof (cases pc)
  case (Sending m p)
  have "unat (queue s ! (Core_head s mod 64)) div 64 = Core_head s + 1" using ok by auto
  with Sending show ?thesis
    using assms(3) take_pos(1) [OF r ok] by (cases p) (auto simp: Let_def Suc_le_eq le_less)
qed (use assms in simp_all)

lemma take_new_pc:
  assumes r: "ring_ok s False" and ok: "recv_ok s (Deq_Cas h v)" and i: "index_ok fr s owns"
  shows "pc_ok (taken s) (Receiving (Deq_Store h v))"
    and "index_ok fr (taken s) (owns(t := Some (ucast (v AND MASK))))"
    and "ucast (v AND MASK) = fst (log s ! Core_head s)"
    and "unreceived s = log s ! Core_head s # unreceived (taken s)"
proof -
  note H = head_message [OF r ok] and T = take_pos [OF r ok]
  have lt: "unat (fst (log s ! Core_head s)) < 64" by (rule ring_okD(4) [OF r H(1)])
  then have v: "unat v mod 64 = unat (fst (log s ! Core_head s))"
    by (simp only: H(2) mod_mult_self4 mod_less)
  then have "unat (ucast (v AND MASK) :: u8) = unat (fst (log s ! Core_head s))"
    by (simp add: layout_simps unat_ucast_u8)
  then show idx: "ucast (v AND MASK) = fst (log s ! Core_head s)" by (rule word_unat_eq_iff [THEN iffD2])
  show q: "unreceived s = log s ! Core_head s # unreceived (taken s)"
    using H(1) T(1) by (simp add: unreceived_def Cons_nth_drop_Suc)
  then have "cells s ! unat (fst (log s ! Core_head s)) = Some (snd (log s ! Core_head s))"
    using i by (simp add: index_ok_def)
  then show "pc_ok (taken s) (Receiving (Deq_Store h v))"
    using ok T(1) v by auto
  show "index_ok fr (taken s) (owns(t := Some (ucast (v AND MASK))))"
    using i unfolding idx index_ok_def q by auto
qed

lemma take_pending:
  assumes r: "ring_ok s False" and ok: "recv_ok s (Deq_Cas h v)" and "pending_ok s pend"
  shows "pending_ok (taken s) pend"
  using assms(3) take_pos(1) [OF r ok] by (simp add: pending_ok_def)

abbreviation freed :: "('e, 'ia, 'm) shared \<Rightarrow> u16 \<Rightarrow> u16 \<Rightarrow> ('e, 'ia, 'm) shared" where
  "freed s h v \<equiv> s\<lparr>queue := (queue s)[unat h div 64 mod 64 := v + LAP_ONE]\<rparr>"

lemma free_word:
  assumes r: "ring_ok s st" and ok: "recv_ok s (Deq_Store h v)"
  shows "unat (v + LAP_ONE) div 64 = Core_head s + 63"
proof -
  have "unat v + 4032 < 65536" using ok ring_okD(2,3) [OF r] by auto
  then have "unat (v + LAP_ONE) = unat v + 64 * 63" by (simp add: LAP_ONE_value unat_word_ariths)
  moreover have "(unat v + 64 * 63) div 64 = unat v div 64 + 63" by simp
  moreover have "unat v div 64 = Core_head s" using ok by auto
  ultimately show ?thesis by metis
qed

lemma free_ring:
  assumes r: "ring_ok s True" and ok: "recv_ok s (Deq_Store h v)" and room: "length (unreceived s) \<le> 63"
  shows "ring_ok (freed s h v) False"
proof -
  note R = ring_okD [OF r]
  have h: "unat h div 64 = Core_head s - 1" "0 < Core_head s" using ok by simp_all
  have T: "length (log s) \<le> Core_head s + 63" using room by (simp add: unreceived_def)
  have slot: "(Core_head s + 63) mod 64 = (Core_head s - 1) mod 64"
    using h(2) by (cases "Core_head s") simp_all
  have "slot_ok (freed s h v) False k" if k: "k < 64" for k
  proof (cases "k = 63")
    case True
    have "unat (queue (freed s h v) ! ((Core_head s + 63) mod 64)) div 64 = Core_head s + 63"
      unfolding slot using free_word [OF r ok] h R(1) by simp
    then show ?thesis using True T by (simp add: slot_ok_def Let_def)
  next
    case False
    then have "(Core_head s + k) mod 64 \<noteq> (Core_head s + 63) mod 64"
      using same_slot [of "Core_head s" "Core_head s + k" "Core_head s + 63"] k by auto
    then have "(Core_head s + k) mod 64 \<noteq> unat h div 64 mod 64" unfolding slot h(1) .
    then have "slot_ok (freed s h v) False k = slot_ok s False k"
      by (intro slot_ok_cong) simp_all
    moreover have "slot_ok s False k" using R(7) [OF k] False by (auto simp: slot_ok_def Let_def)
    ultimately show ?thesis by simp
  qed
  then show ?thesis using r by (simp add: ring_ok_def)
qed

lemma free_pc_ok:
  assumes ok: "recv_ok s (Deq_Store h v)" and room: "length (unreceived s) \<le> 63"
    and pc: "pc_ok s pc" "\<not> receiving pc"
  shows "pc_ok (freed s h v) pc"
proof (cases pc)
  case (Sending m p)
  have h: "unat h div 64 = Core_head s - 1" "0 < Core_head s" using ok by simp_all
  have T: "length (log s) \<le> Core_head s + 63" using room by (simp add: unreceived_def)
  have "unat t div 64 mod 64 \<noteq> unat h div 64 mod 64" if "p = Commit_Store j t" for j t
  proof -
    have "Core_head s \<le> unat t div 64" "unat t div 64 < length (log s)"
      using pc Sending that by (simp_all add: Let_def)
    with h T show ?thesis
      using same_slot [of "Core_head s - 1" "unat t div 64" "unat h div 64"] by linarith
  qed
  with Sending show ?thesis using pc(1) by (cases p) (simp_all add: Let_def)
qed (use pc in simp_all)

lemma free_pending:
  assumes ok: "recv_ok s (Deq_Store h v)" and room: "length (unreceived s) \<le> 63"
    and "pending_ok s pend"
  shows "pending_ok (freed s h v) pend"
proof -
  have h: "unat h div 64 = Core_head s - 1" "0 < Core_head s" using ok by simp_all
  have T: "length (log s) \<le> Core_head s + 63" using room by (simp add: unreceived_def)
  have "p mod 64 \<noteq> unat h div 64 mod 64" if "Core_head s \<le> p" "p < length (log s)" for p
    using same_slot [of "Core_head s - 1" p "unat h div 64"] h T that by linarith
  then have "queue (freed s h v) ! (p mod 64) = queue s ! (p mod 64)"
    if "Core_head s \<le> p" "p < length (log s)" for p
    using that(1,2) by (simp, metis nth_list_update_neq)
  then show ?thesis using assms(3) by (simp add: pending_ok_def)
qed

lemma index_free:
  assumes io: "index_alloc io fr" and i: "index_ok fr s owns" "owns t = Some i"
  shows "index_ok fr (s\<lparr>indices := ia_free io i (indices s)\<rparr>) (owns(t := None))"
proof -
  note own = index_ownD [OF i]
  have fr: "fr (ia_free io i (indices s)) = insert (unat i) (fr (indices s))"
    using own(2,3) by (rule index_allocD(4) [OF io])
  have q: "unreceived (s\<lparr>indices := a\<rparr>) = unreceived s" for a by (simp add: unreceived_def)
  have ne: "unat (fst x) \<noteq> unat i" if "x \<in> set (unreceived s)" for x
    using own(4) that u8_neq by force
  have others: "unat j \<noteq> unat i" if "owns u = Some j" "u \<noteq> t" for u j
    using i that u8_neq by (metis (no_types, lifting) index_ok_def)
  show ?thesis
    using i own(1) ne others unfolding index_ok_def q by (auto simp: fr)
qed

end
