(* ===== verification/Core_Atomic_Close.thy ===== *)
theory Core_Atomic_Close
  imports Core_Atomic_Inv
begin

section \<open>Senders, errors and closing under every interleaving\<close>

text \<open>
  The invariant of the state word, the error cell and the CLOSED bits in the atomic-step model:
  the word counts the senders the threads own, one thread at a time writes the error, and the
  senders' side is closed only with an error or when the last sender is gone. With it, both
  invariants are kept by every step.
\<close>

subsection \<open>The invariant\<close>

definition drained :: "('e, 'ia, 'm) threaded \<Rightarrow> bool" where
  "drained s \<longleftrightarrow> total_senders s = 0 \<and> Core_head (mem s) = length (log (mem s))"

fun claiming :: "('e, 'm) pc \<Rightarrow> bool" where
  "claiming (Closing (Err_Write e)) = True"
| "claiming (Closing Err_Set) = True"
| "claiming _ = False"

fun close_ok :: "('e, 'ia, 'm) threaded \<Rightarrow> nat \<Rightarrow> ('e, 'm) pc \<Rightarrow> bool" where
  "close_ok s t (Sending m pc) = (0 < senders s t)"
| "close_ok s t (Receiving (Deq_Slot h)) = (odd (unat h) \<longrightarrow> tx_closed (mem s))"
| "close_ok s t (Reason_State Recv_Side) = (errored (mem s) \<or> drained s)"
| "close_ok s t (Reason_Error x) = errored (mem s)"
| "close_ok s t (Closing (Err_Write e)) = (erroring (mem s) \<and> \<not> errored (mem s))"
| "close_ok s t (Closing Err_Set) =
     (erroring (mem s) \<and> \<not> errored (mem s) \<and> error (mem s) \<noteq> None)"
| "close_ok s t (Closing Err_Close_Rx) = errored (mem s)"
| "close_ok s t (Closing Err_Wake) = errored (mem s)"
| "close_ok s t (Closing (Close_Tx r)) =
     ((errored (mem s) \<or> total_senders s = 0) \<and> (r = Errored True \<or> r = Handle_Done))"
| "close_ok s t (Closing (Close_Wake r)) = (r = Errored True \<or> r = Handle_Done)"
| "close_ok s t (Handle Add_Tx) = (0 < senders s t)"
| "close_ok s t (Handle Drop_Tx) = (0 < senders s t)"
| "close_ok s t (Handle Drop_Fence) = (total_senders s = 0)"
| "close_ok s t (Fin (Recv_Closed None)) = drained s"
| "close_ok s t _ = True"

definition close_inv :: "('e, 'ia, 'm) threaded \<Rightarrow> bool" where
  "close_inv s \<longleftrightarrow>
     tx_count (mem s) = total_senders s \<and>
     (errored (mem s) \<longrightarrow> error (mem s) \<noteq> None \<and> erroring (mem s)) \<and>
     (tx_closed (mem s) \<longrightarrow> errored (mem s) \<or> total_senders s = 0) \<and>
     (\<forall>t. close_ok s t (pcs s t)) \<and>
     (\<forall>t u. claiming (pcs s t) \<longrightarrow> claiming (pcs s u) \<longrightarrow> t = u)"

subsection \<open>Counting senders\<close>

lemma total_update:
  assumes "t < nthreads s"
  shows "total_senders (s\<lparr>senders := (senders s)(t := k)\<rparr>) + senders s t = total_senders s + k"
proof -
  have "(\<Sum>u < nthreads s. ((senders s)(t := k)) u) =
      k + (\<Sum>u \<in> {..<nthreads s} - {t}. senders s u)"
    using assms by (subst sum.remove [of _ t]) auto
  moreover have "(\<Sum>u < nthreads s. senders s u) =
      senders s t + (\<Sum>u \<in> {..<nthreads s} - {t}. senders s u)"
    using assms by (subst sum.remove [of _ t]) auto
  ultimately show ?thesis by (simp add: total_senders_def)
qed

lemma senders_le_total: "t < nthreads s \<Longrightarrow> senders s t \<le> total_senders s"
  using total_update [of t s 0] by simp

lemma total_cong:
  "senders s' = senders s \<Longrightarrow> nthreads s' = nthreads s \<Longrightarrow> total_senders s' = total_senders s"
  by (simp add: total_senders_def)

lemma total_update_mem [simp]:
  "total_senders (s\<lparr>mem := m\<rparr>) = total_senders s" "total_senders (s\<lparr>pcs := q\<rparr>) = total_senders s"
  "total_senders (s\<lparr>rx_live := b\<rparr>) = total_senders s"
  by (simp_all add: total_senders_def)

subsection \<open>What a step of one thread keeps for the others\<close>

lemma close_ok_mono:
  assumes "close_ok s t pc" and "senders s t \<le> senders s' t \<or> is_Fin pc"
    and "tx_closed (mem s) \<longrightarrow> tx_closed (mem s')" and "errored (mem s) \<longrightarrow> errored (mem s')"
    and "erroring (mem s) \<longrightarrow> erroring (mem s')" and "error (mem s) \<noteq> None \<longrightarrow> error (mem s') \<noteq> None"
    and "total_senders s = 0 \<longrightarrow> total_senders s' = 0" and "drained s \<longrightarrow> drained s'"
    and "claiming pc \<longrightarrow> errored (mem s') = errored (mem s)"
  shows "close_ok s' t pc"
proof -
  have snd: "0 < senders s t \<Longrightarrow> \<not> is_Fin pc \<Longrightarrow> 0 < senders s' t" using assms(2) by auto
  note mono = assms(3-9) [rule_format]
  show ?thesis
  proof (cases pc)
    case (Closing p)
    then show ?thesis using assms(1) mono by (cases p) auto
  next
    case (Handle p)
    then show ?thesis using assms(1) snd mono(5) by (cases p) simp_all
  next
    case (Receiving p)
    then show ?thesis using assms(1) mono(1) by (cases p) simp_all
  next
    case (Reason_State x)
    then show ?thesis using assms(1) mono(2,6) by (cases x) auto
  next
    case (Fin r)
    then show ?thesis using assms(1) mono(6)
      by (cases "\<exists>e. r = Recv_Closed e") (auto elim!: close_ok.elims)
  qed (use assms(1) snd mono in simp_all)
qed

lemma close_invI:
  assumes inv: "close_inv s"
    and s': "pcs s' = (pcs s)(t := pc')" "\<And>u. u \<noteq> t \<Longrightarrow> senders s' u = senders s u"
    and mono: "tx_closed (mem s) \<longrightarrow> tx_closed (mem s')" "errored (mem s) \<longrightarrow> errored (mem s')"
      "erroring (mem s) \<longrightarrow> erroring (mem s')" "error (mem s) \<noteq> None \<longrightarrow> error (mem s') \<noteq> None"
      "total_senders s = 0 \<longrightarrow> total_senders s' = 0" "drained s \<longrightarrow> drained s'"
    and claim: "errored (mem s') = errored (mem s) \<or> claiming (pcs s t)"
      "claiming pc' \<longrightarrow> claiming (pcs s t) \<or> (\<forall>u. \<not> claiming (pcs s u))"
    and "tx_count (mem s') = total_senders s'"
      "errored (mem s') \<longrightarrow> error (mem s') \<noteq> None \<and> erroring (mem s')"
      "tx_closed (mem s') \<longrightarrow> errored (mem s') \<or> total_senders s' = 0"
      "close_ok s' t pc'"
  shows "close_inv s'"
proof -
  have "close_ok s' u (pcs s u)" if "u \<noteq> t" for u
  proof (rule close_ok_mono [where s = s])
    show "close_ok s u (pcs s u)" using inv by (simp add: close_inv_def)
    show "claiming (pcs s u) \<longrightarrow> errored (mem s') = errored (mem s)"
      using claim(1) that inv by (auto simp: close_inv_def)
  qed (use mono s'(2) [OF that] in simp_all)
  then have pcs: "\<forall>u. close_ok s' u (pcs s' u)"
    using assms(15) by (simp add: s'(1))
  have "\<forall>u v. claiming (pcs s' u) \<longrightarrow> claiming (pcs s' v) \<longrightarrow> u = v"
    using inv claim(2) by (auto simp: s'(1) close_inv_def)
  with pcs show ?thesis
    unfolding close_inv_def using assms(12-14) by blast
qed

text \<open>A step that leaves the state word, the error and the receiver's CLOSED bit alone.\<close>

lemma close_quiet:
  assumes inv: "close_inv s" and "state m' = state (mem s)" "error m' = error (mem s)"
    "tx_closed m' = tx_closed (mem s)" and "\<not> claiming pc'"
    and drained: "total_senders s = 0 \<longrightarrow> Core_head (mem s) = length (log (mem s)) \<longrightarrow>
        Core_head m' = length (log m')"
    and ok: "\<And>s' :: ('e, 'ia, 'm) threaded. mem s' = m' \<Longrightarrow> senders s' = senders s \<Longrightarrow>
        total_senders s' = total_senders s \<Longrightarrow> close_ok s' t pc'"
  shows "close_inv (s\<lparr>mem := m', pcs := (pcs s)(t := pc'), senders := senders s\<rparr>)" (is "close_inv ?s'")
proof (rule close_invI [OF inv])
  have total: "total_senders ?s' = total_senders s" by (simp add: total_senders_def)
  show "close_ok ?s' t pc'" using total by (intro ok) simp_all
  show "drained s \<longrightarrow> drained ?s'" using drained total by (simp add: drained_def)
  show "errored (mem ?s') \<longrightarrow> error (mem ?s') \<noteq> None \<and> erroring (mem ?s')"
    "tx_closed (mem ?s') \<longrightarrow> errored (mem ?s') \<or> total_senders ?s' = 0"
    "tx_count (mem ?s') = total_senders ?s'"
    using inv assms(2-4) total by (simp_all add: close_inv_def state_bits)
qed (use assms(2-5) total_cong in \<open>simp_all add: state_bits total_senders_def\<close>)

lemma shared_state_bits [simp]:
  "errored (s\<lparr>cells := x\<rparr>) = errored s" "errored (s\<lparr>log := l\<rparr>) = errored s"
  by (simp_all add: state_bits)

subsection \<open>Steps of a send\<close>

lemmas step_defs = reserve_load_def reserve_alloc_def write_cell_def commit_slot_def commit_cas_def
  commit_store_def deq_slot_def deq_cas_def deq_store_def take_cell_def reason_state_def
  reason_error_def err_claim_def drop_tx_def drop_fence_def Let_def

lemma send_step_frame:
  assumes "send_step io ok m p s = (pc', s')"
  shows "state s' = state s" "error s' = error s" "dequeue_pos s' = dequeue_pos s"
    "pc' = Reason_State Send_Side \<or> (\<exists>q. pc' = Sending m q) \<or> pc' = Fin Send_Full \<or> pc' = Fin Sent \<or>
     pc' = Undefined \<or> pc' = Panicked"
  using assms by (cases p; auto simp: step_defs split: if_splits option.splits prod.splits)+

lemma close_send:
  assumes inv: "close_inv s" and t: "t < nthreads s" "pcs s t = Sending m p"
    and st: "send_step io ok m p (mem s) = (pc', m')"
  shows "close_inv (s\<lparr>mem := m', pcs := (pcs s)(t := pc'), senders := senders s\<rparr>)"
proof (rule close_quiet [OF inv])
  note F = send_step_frame [OF st]
  have "close_ok s t (Sending m p)" using inv t by (metis close_inv_def)
  then have pos: "0 < senders s t" by simp
  then have "0 < total_senders s" using senders_le_total [OF t(1)] by simp
  then show "total_senders s = 0 \<longrightarrow> Core_head (mem s) = length (log (mem s)) \<longrightarrow>
      Core_head m' = length (log m')" by simp
  show "close_ok s' t pc'" if "senders s' = senders s" for s' :: "('a, 'b, 'c) threaded"
    using F(4) pos that by auto
  show "\<not> claiming pc'" using F(4) by auto
  show "state m' = state (mem s)" "error m' = error (mem s)" by (rule F)+
  show "tx_closed m' = tx_closed (mem s)" using F(3) by (simp add: tx_closed_def)
qed

subsection \<open>Steps of a receive\<close>

lemma even_add_pos_one: "even (unat (w + POS_ONE)) = even (unat (w :: u16))"
  by (simp add: POS_ONE_value unat_word_ariths even_mod_2_iff dvd_mod_iff)

lemma recv_step_state:
  assumes "recv_step io ok p s = (pc', s')"
  shows "state s' = state s \<and> error s' = error s \<and> log s' = log s"
  using assms by (cases p; auto simp: step_defs split: if_splits option.splits)

lemma recv_step_pc:
  assumes "recv_step io ok p s = (pc', s')"
  shows "(pc' = Reason_State Recv_Side \<and> (\<exists>h. p = Deq_Slot h)) \<or> (\<exists>q. pc' = Receiving q) \<or>
     pc' = Fin Recv_Empty \<or> (\<exists>m. pc' = Fin (Received m)) \<or> pc' = Undefined"
  using assms by (cases p; auto simp: step_defs split: if_splits option.splits)

lemma recv_step_slot:
  assumes "recv_step io ok p s = (Receiving (Deq_Slot h), s')"
  shows "h = dequeue_pos s \<and> s' = s"
  using assms by (cases p; auto simp: step_defs split: if_splits option.splits)

lemma recv_step_pos:
  assumes "recv_step io ok p s = (pc', s')"
  shows "dequeue_pos s' = dequeue_pos s \<or> (\<exists>h v. p = Deq_Cas h v) \<and> dequeue_pos s' = dequeue_pos s + POS_ONE"
  using assms by (cases p; auto simp: step_defs split: if_splits option.splits)

lemma recv_step_closed:
  assumes "recv_step io ok p s = (pc', s')"
  shows "tx_closed s' = tx_closed s"
  using recv_step_pos [OF assms] by (auto simp: tx_closed_def even_add_pos_one)

text \<open>Finding nothing while the senders' side is closed means that nothing is left.\<close>

lemma nothing_left:
  assumes inv: "close_inv s" and ring: "ring_ok (mem s) st" "pending_ok (mem s) (\<lambda>t. pending (pcs s t))"
    and bound: "\<And>t. nthreads s \<le> t \<Longrightarrow> pcs s t = Fin Idle"
    and h: "unat h div 64 = Core_head (mem s)" "odd (unat h) \<longrightarrow> tx_closed (mem s)"
    and step: "deq_slot h (mem s) = (Reason_State Recv_Side, m')"
  shows "errored (mem s) \<or> drained s"
proof (cases "errored (mem s)")
  case False
  let ?H = "Core_head (mem s)" and ?m = "mem s"
  let ?w = "queue ?m ! (?H mod 64)"
  have "odd (unat h)" and dif: "sint (drop_bit POS_SHIFT ?w - (drop_bit POS_SHIFT h + 1)) < 0"
    using step h(1) by (auto simp: deq_slot_def Let_def layout_simps split: if_splits)
  then have total: "total_senders s = 0"
    using h(2) inv False by (auto simp: close_inv_def)
  have H: "?H \<le> length (log ?m)" "length (log ?m) \<le> 960" by (rule ring_okD [OF ring(1)])+
  have succ: "unat (drop_bit POS_SHIFT h + 1) = ?H + 1"
    using pos_succ [of "drop_bit POS_SHIFT h"] h(1) H by (simp add: unat_pos)
  have "unat (drop_bit POS_SHIFT ?w) < 32768" using unat_u16_less [of ?w] by (simp add: unat_pos)
  then have behind: "unat ?w div 64 < ?H + 1"
    using dif succ H sint_dif [of "drop_bit POS_SHIFT ?w" "drop_bit POS_SHIFT h + 1"]
    by (simp add: unat_pos)
  have "\<not> ?H < length (log ?m)"
  proof
    assume lt: "?H < length (log ?m)"
    have "unat ?w div 64 = ?H"
      using ring_slot [OF ring(1), of ?H] ring_okD(4) [OF ring(1) lt] behind lt by auto
    then obtain t where t: "pending (pcs s t) = Some ?H"
      using ring(2) lt by (auto simp: pending_ok_def)
    then obtain m i tail where "pcs s t = Sending m (Commit_Store i tail)"
      by (auto elim: pending.elims)
    moreover from this bound have "t < nthreads s" by (metis leI pc.distinct(5))
    ultimately have "0 < total_senders s"
      using inv senders_le_total [of t s] by (metis close_inv_def close_ok.simps(1) gr0I leD)
    with total show False by simp
  qed
  with H total show ?thesis by (simp add: drained_def)
qed simp

lemma close_recv:
  assumes inv: "close_inv s" "atomic_inv fr s" and t: "pcs s t = Receiving p"
    and st: "recv_step io ok p (mem s) = (pc', m')"
  shows "close_inv (s\<lparr>mem := m', pcs := (pcs s)(t := pc'), senders := senders s\<rparr>)"
proof (rule close_quiet [OF inv(1)])
  note A = atomic_okD [OF inv(2) [unfolded atomic_inv_def]]
  have p: "recv_ok (mem s) p" using A(4) [of t] t by simp
  have closed: "close_ok s t (Receiving p)" using inv(1) t by (metis close_inv_def)
  have "Core_head (mem s) < length (log (mem s))" if "p = Deq_Cas h v" for h v
    using head_message(1) [OF A(1)] p that by blast
  then show "total_senders s = 0 \<longrightarrow> Core_head (mem s) = length (log (mem s)) \<longrightarrow>
      Core_head m' = length (log m')"
    using recv_step_pos [OF st] recv_step_state [OF st] unfolding Core_head_def
    by (metis less_irrefl)
  show "\<not> claiming pc'" using recv_step_pc [OF st] by auto
  show "state m' = state (mem s)" "error m' = error (mem s)"
    using recv_step_state [OF st] by simp_all
  show tx: "tx_closed m' = tx_closed (mem s)" by (rule recv_step_closed [OF st])
  show "close_ok s' t pc'" if s': "mem s' = m'" "senders s' = senders s"
    "total_senders s' = total_senders s" for s' :: "('a, 'b, 'c) threaded"
  proof (cases "pc' = Reason_State Recv_Side")
    case True
    then obtain h where h: "p = Deq_Slot h" using recv_step_pc [OF st] by auto
    with st True have "m' = mem s" by (auto simp: deq_slot_def Let_def)
    moreover have "errored (mem s) \<or> drained s"
    proof (rule nothing_left [OF inv(1) A(1,3)])
      show "nthreads s \<le> u \<Longrightarrow> pcs s u = Fin Idle" for u by (rule A(5))
      show "unat h div 64 = Core_head (mem s)" using p h by simp
      show "odd (unat h) \<longrightarrow> tx_closed (mem s)" using closed h by simp
      show "deq_slot h (mem s) = (Reason_State Recv_Side, m')" using st h True by simp
    qed
    ultimately show ?thesis using True s' by (simp add: drained_def)
  next
    case False
    have "close_ok s' t (Receiving q)" if "pc' = Receiving q" for q
    proof (cases "\<exists>h. q = Deq_Slot h")
      case True
      then obtain h where h: "pc' = Receiving (Deq_Slot h)" using \<open>pc' = Receiving q\<close> by blast
      then have "h = dequeue_pos (mem s)" using recv_step_slot st by blast
      then show ?thesis using h tx s'(1) \<open>pc' = Receiving q\<close> by (simp add: tx_closed_def)
    qed (cases q; simp)
    then show ?thesis using recv_step_pc [OF st] False by auto
  qed
qed

subsection \<open>The other steps\<close>

lemma close_reason:
  assumes inv: "close_inv s" and t: "pcs s t = Reason_State x"
    and st: "reason_state x (mem s) = (pc', m')"
  shows "close_inv (s\<lparr>mem := m', pcs := (pcs s)(t := pc'), senders := senders s\<rparr>)"
proof (rule close_quiet [OF inv])
  have closed: "close_ok s t (Reason_State x)" using inv t by (metis close_inv_def)
  have m': "m' = mem s" using st by (simp add: reason_state_def)
  have pc': "pc' = (if errored (mem s) then Reason_Error x else Fin (closed_result x None))"
    using st by (auto simp: reason_state_def state_bits flag_clear_iff)
  show "close_ok s' t pc'" if s': "mem s' = m'" "senders s' = senders s"
    "total_senders s' = total_senders s" for s' :: "('a, 'b, 'c) threaded"
    using closed m' s' by (cases x) (auto simp: pc' drained_def)
  show "\<not> claiming pc'" by (cases x) (simp_all add: pc')
qed (use st in \<open>auto simp: reason_state_def\<close>)

lemma close_reason_error:
  assumes inv: "close_inv s" and t: "pcs s t = Reason_Error x"
    and st: "reason_error x (mem s) = (pc', m')"
  shows "close_inv (s\<lparr>mem := m', pcs := (pcs s)(t := pc'), senders := senders s\<rparr>)"
    and "\<exists>e. pc' = Fin (closed_result x (Some e))"
proof -
  have "close_ok s t (Reason_Error x)" using inv t by (metis close_inv_def)
  then have "error (mem s) \<noteq> None" using inv by (auto simp: close_inv_def)
  then obtain e where e: "pc' = Fin (closed_result x (Some e))" and m': "m' = mem s"
    using st by (auto simp: reason_error_def)
  then show "\<exists>e. pc' = Fin (closed_result x (Some e))" by blast
  show "close_inv (s\<lparr>mem := m', pcs := (pcs s)(t := pc'), senders := senders s\<rparr>)"
    by (rule close_quiet [OF inv]; cases x; simp add: e m')
qed

lemma close_closing:
  assumes inv: "close_inv s" and t: "pcs s t = Closing p" and st: "close_step p (mem s) = (pc', m')"
  shows "close_inv (s\<lparr>mem := m', pcs := (pcs s)(t := pc'), senders := senders s\<rparr>)"
    (is "close_inv ?s'")
proof -
  have closed: "close_ok s t (Closing p)" using inv t by (metis close_inv_def)
  have C: "tx_count (mem s) = total_senders s"
    "errored (mem s) \<longrightarrow> error (mem s) \<noteq> None \<and> erroring (mem s)"
    "tx_closed (mem s) \<longrightarrow> errored (mem s) \<or> total_senders s = 0"
    using inv by (simp_all add: close_inv_def)
  have none: "\<not> claiming (pcs s u)" if "\<not> erroring (mem s)" for u
  proof -
    have "close_ok s u (pcs s u)" using inv by (simp add: close_inv_def)
    then show ?thesis using that by (auto elim!: claiming.elims)
  qed
  show ?thesis
  proof (cases p)
    case (Err_Claim e)
    have m': "m' = (mem s)\<lparr>state := state (mem s) OR ERRORING\<rparr>"
      and pc': "pc' = (if erroring (mem s) \<or> errored (mem s) then Fin (Errored False) else Closing (Err_Write e))"
      using st Err_Claim by (auto simp: err_claim_def state_bits flag_clear_iff)
    show ?thesis
      by (rule close_invI [OF inv, where t = t and pc' = pc'])
        (use C none in \<open>auto simp: m' pc' drained_def state_bits layout_simps\<close>)
  next
    case (Err_Write e)
    show ?thesis
      by (rule close_invI [OF inv, where t = t and pc' = pc'])
        (use C st t closed Err_Write in \<open>auto simp: drained_def state_bits\<close>)
  next
    case Err_Set
    show ?thesis
      by (rule close_invI [OF inv, where t = t and pc' = pc'])
        (use C st t closed Err_Set in \<open>auto simp: drained_def state_bits layout_simps\<close>)
  next
    case (Close_Tx r)
    have tx: "tx_closed ((mem s)\<lparr>dequeue_pos := dequeue_pos (mem s) OR CLOSED\<rparr>)"
      by (simp add: tx_closed_def unat_close)
    show ?thesis
      by (rule close_invI [OF inv, where t = t and pc' = pc'])
        (use C st t closed Close_Tx tx in \<open>auto simp: drained_def state_bits\<close>)
  next
    case Err_Close_Rx
    have "errored m'" using st closed Err_Close_Rx by (auto simp: state_bits)
    then show ?thesis
      by (intro close_quiet [OF inv]) (use st Err_Close_Rx in \<open>auto simp: tx_closed_def\<close>)
  next
    case Err_Wake
    have "errored m'" using st closed Err_Wake by (auto simp: state_bits)
    then show ?thesis
      by (intro close_quiet [OF inv]) (use st Err_Wake in \<open>auto simp: tx_closed_def\<close>)
  next
    case (Close_Wake r)
    then show ?thesis
      by (intro close_quiet [OF inv]) (use st closed in \<open>auto simp: tx_closed_def\<close>)
  qed
qed

lemma close_handle:
  assumes inv: "close_inv s" and t: "t < nthreads s" "pcs s t = Handle p"
    and st: "handle_step p (mem s) = (pc', m')"
    and bound: "p = Add_Tx \<Longrightarrow> int (total_senders s) < 2 ^ 61 - 1"
  shows "close_inv (s\<lparr>mem := m', pcs := (pcs s)(t := pc'),
      senders := (senders s)(t := senders_after (Handle p) (senders s t))\<rparr>)" (is "close_inv ?s'")
    and "pc' \<noteq> Panicked"
proof -
  have closed: "close_ok s t (Handle p)" using inv t by (metis close_inv_def)
  have C: "tx_count (mem s) = total_senders s"
    "errored (mem s) \<longrightarrow> error (mem s) \<noteq> None \<and> erroring (mem s)"
    "tx_closed (mem s) \<longrightarrow> errored (mem s) \<or> total_senders s = 0"
    using inv by (simp_all add: close_inv_def)
  have upd: "total_senders (s\<lparr>mem := m, pcs := q, senders := (senders s)(t := k)\<rparr>) + senders s t =
      total_senders s + k" for m q k
    using total_update [OF t(1), of k] by (simp add: total_senders_def)
  have le: "senders s t \<le> total_senders s" by (rule senders_le_total [OF t(1)])
  have fence: "drop_bit TX_SHIFT (state (mem s)) = 0" if "p = Drop_Fence"
    using closed that C(1) by (simp add: tx_count_def st_count_def unat_eq_zero)
  show "pc' \<noteq> Panicked" using st fence by (cases p) (auto simp: drop_tx_def drop_fence_def split: if_splits)
  show "close_inv ?s'"
  proof (cases "p = Add_Tx \<or> p = Drop_Tx")
    case False
    then have snd: "(senders s)(t := senders_after (Handle p) (senders s t)) = senders s"
      by (cases p) simp_all
    show ?thesis unfolding snd
      by (rule close_quiet [OF inv]; cases p; use st closed False fence in \<open>auto simp: tx_closed_def drop_fence_def\<close>)
  next
    case True
    then have pos: "0 < senders s t" using closed by auto
    show ?thesis
    proof (cases "p = Add_Tx")
      case True
      have "st_count (state (mem s)) < 2 ^ 61 - 1" using bound [OF True] C(1) by (simp add: tx_count_def)
      then have "st_count (state (mem s) + 8) = total_senders s + 1"
        using count_add_tx C(1) by (simp add: tx_count_def)
      moreover have "total_senders ?s' = total_senders s + 1"
        using upd [where m = m' and q = "(pcs s)(t := pc')" and k = "senders s t + 1"] True by simp
      ultimately show ?thesis
        by (intro close_invI [OF inv, where t = t and pc' = pc'])
          (use C st pos le True in \<open>auto simp: drained_def state_bits TX_ONE_value low_bits_add_tx\<close>)
    next
      case False
      with True have p: "p = Drop_Tx" by simp
      have "0 < st_count (state (mem s))" using pos le C(1) by (simp add: tx_count_def)
      then have "st_count (state (mem s) - 8) = total_senders s - 1"
        using count_sub_tx C(1) by (simp add: tx_count_def)
      moreover have "total_senders ?s' = total_senders s - 1"
        using upd [where m = m' and q = "(pcs s)(t := pc')" and k = "senders s t - 1"] p pos le by simp
      moreover have "pc' = (if total_senders s = 1 then Handle Drop_Fence else Fin Handle_Done)"
        "m' = (mem s)\<lparr>state := state (mem s) - TX_ONE\<rparr>"
        using st p C(1) by (auto simp: drop_tx_def last_sender_iff tx_count_def)
      ultimately show ?thesis
        by (intro close_invI [OF inv, where t = t and pc' = pc'])
          (use C pos le p in \<open>auto simp: drained_def state_bits TX_ONE_value low_bits_sub_tx\<close>)
    qed
  qed
qed

end
