(* ===== verification/Core_Atomic_Step.thy ===== *)
theory Core_Atomic_Step
  imports Core_Atomic_Close
begin

section \<open>Every atomic step keeps the ring buffer in order\<close>

text \<open>
  Each step of \<open>Core_Atomic\<close> against the invariant of \<open>Core_Atomic_Inv\<close>: the steps that leave the
  ring alone in one lemma, then the compare-exchanges, the stores to a slot and to a cell, and the
  allocator. At the end, both invariants hold of every state the threads can reach.
\<close>

subsection \<open>Changing one thread\<close>

lemma stalled_receiving: "stalled pc \<Longrightarrow> receiving pc"
  by (cases pc rule: stalled.cases) auto

lemma stalled_own: "stalled pc \<Longrightarrow> \<exists>i. own pc = Some i"
  by (cases pc rule: stalled.cases) auto

lemma atomic_okI:
  assumes inv: "atomic_ok fr m P n" and t: "t < n"
    and parts: "ring_ok m' (\<exists>u. stalled ((P(t := pc)) u))"
      "index_ok fr m' ((\<lambda>u. own (P u))(t := own pc))"
      "pending_ok m' ((\<lambda>u. pending (P u))(t := pending pc))"
    and pcs: "pc_ok m' pc" "\<And>u. u \<noteq> t \<Longrightarrow> pc_ok m' (P u)"
    and rx: "receiving pc \<longrightarrow> receiving (P t) \<or> (\<forall>u < n. \<not> receiving (P u))"
  shows "atomic_ok fr m' (P(t := pc)) n"
proof -
  have own: "(\<lambda>u. own ((P(t := pc)) u)) = (\<lambda>u. own (P u))(t := own pc)"
    and pend: "(\<lambda>u. pending ((P(t := pc)) u)) = (\<lambda>u. pending (P u))(t := pending pc)"
    by (rule ext, simp)+
  note A = atomic_okD [OF inv]
  have other: "\<not> receiving (P w)" if "receiving pc" "w \<noteq> t" for w
  proof (cases "w < n")
    case True
    with rx that A(6) show ?thesis by blast
  next
    case False
    with A(5) [of w] show ?thesis by simp
  qed
  have "u = v" if "receiving ((P(t := pc)) u)" "receiving ((P(t := pc)) v)" for u v
  proof (cases "u = t \<or> v = t")
    case True
    then show ?thesis using that other [of u] other [of v] by (cases "u = t"; cases "v = t") simp_all
  next
    case False
    then have "receiving (P u)" "receiving (P v)" using that by simp_all
    then show ?thesis by (rule A(6))
  qed
  moreover have "\<forall>u. pc_ok m' ((P(t := pc)) u)" using pcs by simp
  moreover have "\<forall>u \<ge> n. (P(t := pc)) u = Fin Idle" using A(5) t by simp
  ultimately have "threads_ok m' (P(t := pc)) n" unfolding threads_ok_def by blast
  then show ?thesis
    unfolding atomic_ok_def own pend using parts by blast
qed

text \<open>While the thread \<open>t\<close> receives, no other thread does.\<close>

lemma only_receiver:
  assumes "atomic_ok fr m P n" and "receiving (P t)" and "u \<noteq> t"
  shows "\<not> receiving (P u)" "\<not> stalled (P u)"
  using atomic_okD(6) [OF assms(1), of t u] assms(2,3) stalled_receiving [of "P u"] by blast+

lemma stalled_only:
  assumes "atomic_ok fr m P n" and "receiving (P t)"
  shows "(\<exists>u. stalled ((P(t := pc)) u)) = stalled pc" "(\<exists>u. stalled (P u)) = stalled (P t)"
proof -
  show "(\<exists>u. stalled ((P(t := pc)) u)) = stalled pc"
    using only_receiver(2) [OF assms] by (metis fun_upd_other fun_upd_same)
  show "(\<exists>u. stalled (P u)) = stalled (P t)"
  proof
    assume "\<exists>u. stalled (P u)"
    then obtain u where "stalled (P u)" ..
    then show "stalled (P t)" using only_receiver(2) [OF assms, of u] by (cases "u = t") simp_all
  qed (rule exI)
qed

lemma stalled_same:
  assumes "stalled pc = stalled (P t)"
  shows "(\<exists>u. stalled ((P(t := pc)) u)) = (\<exists>u. stalled (P u))"
  using assms by (metis fun_upd_other fun_upd_same)

subsection \<open>Steps that leave the ring alone\<close>

lemma quiet_step:
  assumes inv: "atomic_ok fr m P n" and t: "t < n"
    and same: "queue m' = queue m" "log m' = log m" "Core_head m' = Core_head m"
      "cells m' = cells m" "indices m' = indices m"
      "enqueue_pos m' = enqueue_pos m \<or> enqueue_pos m' = enqueue_pos m OR CLOSED"
      "dequeue_pos m' = dequeue_pos m \<or> dequeue_pos m' = dequeue_pos m OR CLOSED"
    and pc: "own pc = own (P t) \<or> own pc = None" "pending pc = pending (P t)"
      "stalled pc = stalled (P t)" "pc_ok m pc"
      "receiving pc \<longrightarrow> receiving (P t) \<or> (\<forall>u < n. \<not> receiving (P u))"
  shows "atomic_ok fr m' (P(t := pc)) n"
proof (rule atomic_okI [OF inv t])
  note A = atomic_okD [OF inv]
  show "ring_ok m' (\<exists>u. stalled ((P(t := pc)) u))"
    unfolding stalled_same [of pc P t, OF pc(3)] by (rule ring_ok_cong [OF same(1,2,3,6,7) A(1)])
  have "(\<lambda>u. own (P u))(t := own pc) = (\<lambda>u. own (P u)) \<or> own pc = None"
    using pc(1) by (auto simp: fun_upd_idem_iff)
  then show "index_ok fr m' ((\<lambda>u. own (P u))(t := own pc))"
    unfolding index_ok_cong [OF same(5,2,3,4)] using A(2) index_ok_drop [OF A(2)] by (elim disjE) simp_all
  have "(\<lambda>u. pending (P u))(t := pending pc) = (\<lambda>u. pending (P u))"
    unfolding pc(2) by (rule fun_upd_triv)
  then show "pending_ok m' ((\<lambda>u. pending (P u))(t := pending pc))"
    unfolding pending_ok_cong [OF same(1-3)] using A(3) by simp
  show "pc_ok m' pc" "pc_ok m' (P u)" for u
    unfolding pc_ok_cong [OF same(1-4)] by (rule pc(4), rule A(4))
  show "receiving pc \<longrightarrow> receiving (P t) \<or> (\<forall>u < n. \<not> receiving (P u))"
    by (rule pc(5))
qed

subsection \<open>Steps of a send\<close>

lemma sender_room:
  assumes inv: "atomic_ok fr m P n" and "own (P t) = Some i" and "\<not> stalled (P t)"
  shows "length (unreceived m) \<le> 63" "\<exists>u. stalled (P u) \<Longrightarrow> length (unreceived m) \<le> 62"
proof -
  note I = atomic_okD(2) [OF inv]
  show "length (unreceived m) \<le> 63" using index_count(2) [OF I, of t i] assms(2) by simp
  assume "\<exists>u. stalled (P u)"
  then obtain u where u: "stalled (P u)" ..
  then obtain j where "own (P u) = Some j" using stalled_own by blast
  moreover have "t \<noteq> u" using u assms(3) by blast
  ultimately show "length (unreceived m) \<le> 62" using index_count(3) [OF I, of t i u j] assms(2) by simp
qed

lemma commit_slot_fine:
  assumes inv: "atomic_ok fr m P n" and pc: "P t = Sending x (Commit_Slot i tail)"
    and st: "commit_slot x i tail m = (pc', m')"
  shows "m' = m \<and> (pc' = Reason_State Send_Side \<or> pc' = Sending x (Commit_Load i) \<or>
     pc' = Sending x (Commit_Cas i tail) \<and> even (unat tail))"
proof -
  note A = atomic_okD [OF inv]
  let ?pos = "drop_bit POS_SHIFT tail"
  let ?w = "queue m ! unat (?pos AND MASK)"
  have slot: "unat (?pos AND MASK) = unat tail div 64 mod 64" by (simp add: layout_simps)
  have "unat tail div 64 \<le> length (log m)" using A(4) [of t] pc by simp
  then have "unat tail div 64 \<le> unat ?w div 64"
    using slot_not_behind [OF A(1), of "unat tail div 64"] sender_room [OF inv, of t i] pc
    by (simp add: slot)
  moreover have "unat ?w < 65536" "unat tail < 65536" by (rule unat_u16_less)+
  ultimately have "\<not> sint (drop_bit POS_SHIFT ?w - ?pos) < 0"
    using sint_dif [of "drop_bit POS_SHIFT ?w" ?pos] by (simp add: unat_pos)
  then show ?thesis
    using st by (auto simp: commit_slot_def Let_def closed_iff split: if_splits)
qed

lemma send_ring:
  fixes m :: "('e, 'ia, 'm) shared"
  assumes io: "index_alloc io fr" and inv: "atomic_ok fr m P n" and t: "t < n" "P t = Sending x p"
    and st: "send_step io ok x p m = (pc', m')" and len: "length (log m') \<le> 960"
  shows "atomic_ok fr m' (P(t := pc')) n"
proof -
  note A = atomic_okD [OF inv]
  have pok: "send_ok m x p" using A(4) [of t] t by simp
  note quiet = quiet_step [OF inv t(1)]
  have st_same: "(\<exists>u. stalled ((P(t := Sending y q)) u)) = (\<exists>u. stalled (P u))" for y q
    by (rule stalled_same) (simp add: t(2))
  have pend_same: "(\<lambda>u. pending (P u))(t := None) = (\<lambda>u. pending (P u))" if "pending (P t) = None"
    using that by (auto simp: fun_upd_idem_iff)
  show ?thesis
  proof (cases p)
    case Reserve_Load
    then show ?thesis using st t(2) by (intro quiet) (auto simp: reserve_load_def split: if_splits)
  next
    case Reserve_Alloc
    obtain a ia where a: "ia_allocate io (indices m) = (a, ia)" by fastforce
    have m': "m' = m\<lparr>indices := ia\<rparr>" using st Reserve_Alloc a by (simp add: reserve_alloc_def)
    have pc': "pc' = (case a of None \<Rightarrow> Fin Send_Full | Some i \<Rightarrow> Sending x (Write_Cell i))"
      using st Reserve_Alloc a by (simp add: reserve_alloc_def)
    show ?thesis
    proof (rule atomic_okI [OF inv t(1)])
      have same: "stalled pc' = stalled (P t)" using t(2) by (cases a) (simp_all add: pc')
      show "ring_ok m' (\<exists>u. stalled ((P(t := pc')) u))"
        unfolding stalled_same [of pc' P t, OF same]
        using ring_ok_cong [OF _ _ _ _ _ A(1), of m'] by (simp add: m')
      show "index_ok fr m' ((\<lambda>u. own (P u))(t := own pc'))"
      proof (cases a)
        case None
        have "(\<lambda>u. own (P u))(t := None) = (\<lambda>u. own (P u))"
          using t(2) Reserve_Alloc by (auto simp: fun_upd_idem_iff)
        then show ?thesis using alloc_full [OF io A(2), of ia] a None by (simp add: m' pc')
      next
        case (Some i)
        then show ?thesis using alloc_step [OF io A(2)] a by (simp add: m' pc')
      qed
      have "pending pc' = None" by (cases a) (simp_all add: pc')
      then show "pending_ok m' ((\<lambda>u. pending (P u))(t := pending pc'))"
        using A(3) pend_same t(2) Reserve_Alloc pending_ok_cong [of m' m] by (simp add: m')
      show "pc_ok m' pc'" by (cases a) (simp_all add: pc')
      show "pc_ok m' (P u)" for u using A(4) [of u] pc_ok_cong [of m' m "P u"] by (simp add: m')
      show "receiving pc' \<longrightarrow> receiving (P t) \<or> (\<forall>u < n. \<not> receiving (P u))"
        by (cases a) (simp_all add: pc')
    qed
  next
    case (Write_Cell i)
    have own: "own (P t) = Some i" using t(2) Write_Cell by simp
    note i = index_ownD [OF A(2) own]
    have m': "m' = m\<lparr>cells := (cells m)[unat i := Some x]\<rparr>" and pc': "pc' = Sending x (Commit_Load i)"
      using st Write_Cell i(1) by (simp_all add: write_cell_def)
    show ?thesis unfolding pc'
    proof (rule atomic_okI [OF inv t(1)])
      show "ring_ok m' (\<exists>u. stalled ((P(t := Sending x (Commit_Load i))) u))"
        unfolding st_same using ring_ok_cong [OF _ _ _ _ _ A(1), of m'] by (simp add: m')
      have "(\<lambda>u. own (P u))(t := own (Sending x (Commit_Load i) :: ('e, 'm) pc)) = (\<lambda>u. own (P u))"
        using own by (auto simp: fun_upd_idem_iff)
      then show "index_ok fr m' ((\<lambda>u. own (P u))(t := own (Sending x (Commit_Load i) :: ('e, 'm) pc)))"
        using cells_index [OF A(2) own] by (simp add: m')
      show "pending_ok m' ((\<lambda>u. pending (P u))(t := pending (Sending x (Commit_Load i) :: ('e, 'm) pc)))"
        using A(3) pend_same t(2) Write_Cell pending_ok_cong [of m' m] by (simp add: m')
      show "pc_ok m' (Sending x (Commit_Load i))" using i(1) by (simp add: m')
      show "pc_ok m' (P u)" if "u \<noteq> t" for u
      proof -
        have "own (P u) \<noteq> Some i" using A(2) own that by (auto simp: index_ok_def)
        then show ?thesis unfolding m' using cells_pc_ok A(4) by blast
      qed
    qed simp
  next
    case (Commit_Load i)
    have own: "own (P t) = Some i" using t(2) Commit_Load by simp
    have "unat i < 64" by (rule index_ownD(2) [OF A(2) own])
    then have "ucast i \<le> MASK" by (simp add: word_le_nat_alt unat_ucast_u16 MASK_value)
    moreover have "unat (enqueue_pos m) div 64 \<le> length (log m)" using ring_okD(5) [OF A(1)] by simp
    ultimately show ?thesis using st pok t(2) Commit_Load by (intro quiet) auto
  next
    case (Commit_Slot i tail)
    have "commit_slot x i tail m = (pc', m')" using st Commit_Slot by simp
    from commit_slot_fine [OF inv t(2) [unfolded Commit_Slot] this] show ?thesis
      using pok t(2) Commit_Slot by (intro quiet) auto
  next
    case (Commit_Cas i tail)
    have own: "own (P t) = Some i" using t(2) Commit_Cas by simp
    note room = sender_room [OF inv own] and i = index_ownD [OF A(2) own]
    show ?thesis
    proof (cases "ok \<and> enqueue_pos m = tail")
      case True
      have m': "m' = claimed m i x" and pc': "pc' = Sending x (Commit_Store i tail)"
        using st Commit_Cas True by (auto simp: commit_cas_def)
      have ev: "even (unat (enqueue_pos m))" using pok Commit_Cas True by simp
      have room': "length (unreceived m) \<le> 63" "\<exists>u. stalled (P u) \<Longrightarrow> length (unreceived m) \<le> 62"
        using room t(2) by simp_all
      note N = claim_new_pc(1) [OF A(1) ev i(2) room', of x] claim_new_pc(2) [OF A(1) ev i(2) room']
      show ?thesis unfolding pc'
      proof (rule atomic_okI [OF inv t(1)])
        show "ring_ok m' (\<exists>u. stalled ((P(t := Sending x (Commit_Store i tail))) u))"
          unfolding st_same m' using len by (intro claim_ring [OF A(1) ev i(2) room']) (simp_all add: m')
        have "cells m ! unat i = Some x" using pok Commit_Cas by simp
        then show "index_ok fr m' ((\<lambda>u. own (P u))(t := own (Sending x (Commit_Store i tail) :: ('e, 'm) pc)))"
          unfolding m' using claim_index [OF A(2) own _ ring_okD(3) [OF A(1)]] by simp
        have less: "q < length (log m)" if pq: "pending (P u) = Some q" for u q
        proof -
          obtain y j a where "P u = Sending y (Commit_Store j a)" "q = unat a div 64"
            using pq by (cases "P u" rule: pending.cases) auto
          then show ?thesis using A(4) [of u] by (simp add: Let_def)
        qed
        have "pending (P t) = None" using t(2) Commit_Cas by simp
        with N(2) True show "pending_ok m' ((\<lambda>u. pending (P u))(t := pending (Sending x (Commit_Store i tail) :: ('e, 'm) pc)))"
          unfolding m' using claim_pending [OF A(3) less] by auto
        show "pc_ok m' (Sending x (Commit_Store i tail))" using N(1) True by (simp add: m')
        show "pc_ok m' (P u)" for u unfolding m' by (rule claim_pc_ok [OF A(1) A(4)])
      qed simp
    next
      case False
      then have m': "m' = m" and pc': "pc' = Sending x (Commit_Slot i (enqueue_pos m))"
        using st Commit_Cas by (auto simp: commit_cas_def split: if_splits)
      have "unat (enqueue_pos m) div 64 \<le> length (log m)" using ring_okD(5) [OF A(1)] by simp
      then show ?thesis using m' pc' pok t(2) Commit_Cas by (intro quiet) auto
    qed
  next
    case (Commit_Store i tail)
    have m': "m' = published m i tail" and pc': "pc' = Sending x Commit_Wake"
      using st Commit_Store by (simp_all add: commit_store_def Let_def layout_simps)
    have pok': "send_ok m x (Commit_Store i tail)" using pok Commit_Store by simp
    have pend: "pending (P t) = Some (unat tail div 64)" using t(2) Commit_Store by simp
    have room: "length (unreceived m) \<le> 64" by (rule index_count(1) [OF A(2)])
    have room': "length (unreceived m) \<le> 63" if "\<exists>u. stalled (P u)"
      using that stalled_own index_count(2) [OF A(2)] by metis
    show ?thesis unfolding pc'
    proof (rule atomic_okI [OF inv t(1)])
      show "ring_ok m' (\<exists>u. stalled ((P(t := Sending x Commit_Wake)) u))"
        unfolding st_same m' by (rule publish_ring(1) [OF A(1) pok' room])
      have "(\<lambda>u. own (P u))(t := own (Sending x Commit_Wake :: ('e, 'm) pc)) = (\<lambda>u. own (P u))"
        using t(2) Commit_Store by (auto simp: fun_upd_idem_iff)
      then show "index_ok fr m' ((\<lambda>u. own (P u))(t := own (Sending x Commit_Wake :: ('e, 'm) pc)))"
        using A(2) index_ok_cong [of m' m] by (simp add: m')
      show "pending_ok m' ((\<lambda>u. pending (P u))(t := pending (Sending x Commit_Wake :: ('e, 'm) pc)))"
        unfolding m' using publish_pending [OF A(1) pok' room A(3) pend] by simp
      show "pc_ok m' (P u)" if "u \<noteq> t" for u
      proof -
        have "pending (P u) \<noteq> Some (unat tail div 64)" using A(3) pend that by (auto simp: pending_ok_def)
        then show ?thesis
          unfolding m' using room' by (intro publish_pc_ok [OF A(1) pok' room _ A(4)]) blast+
      qed
    qed simp_all
  next
    case Commit_Wake
    then show ?thesis using st t(2) by (intro quiet) (auto simp: Core_head_def)
  qed
qed

subsection \<open>Steps of a receive\<close>

lemma deq_slot_fine:
  assumes "recv_ok m (Deq_Slot h)" and ring: "ring_ok m st" and "deq_slot h m = (pc', m')"
  shows "m' = m \<and> (pc' = Reason_State Recv_Side \<or> pc' = Fin Recv_Empty \<or> pc' = Receiving Deq_Load \<or>
     (\<exists>v. pc' = Receiving (Deq_Cas h v) \<and> recv_ok m (Deq_Cas h v)))"
proof -
  let ?pos = "drop_bit POS_SHIFT h"
  let ?w = "queue m ! (Core_head m mod 64)"
  have h: "unat h div 64 = Core_head m" using assms(1) by simp
  have "Core_head m \<le> 960" using ring_okD(2,3) [OF ring] by simp
  then have succ: "unat (?pos + 1) = Core_head m + 1"
    using pos_succ [of ?pos] h by (simp add: unat_pos)
  have "unat ?w div 64 = Core_head m + 1" if "drop_bit POS_SHIFT ?w - (?pos + 1) = 0"
    using that succ by (metis eq_iff_diff_eq_0 unat_pos)
  then show ?thesis
    using assms(3) h by (auto simp: deq_slot_def Let_def layout_simps split: if_splits)
qed

lemma recv_ring:
  fixes m :: "('e, 'ia, 'm) shared"
  assumes io: "index_alloc io fr" and inv: "atomic_ok fr m P n" and t: "t < n" "P t = Receiving p"
    and st: "recv_step io ok p m = (pc', m')"
  shows "atomic_ok fr m' (P(t := pc')) n"
proof -
  note A = atomic_okD [OF inv]
  have pok: "recv_ok m p" using A(4) [of t] t by simp
  note quiet = quiet_step [OF inv t(1)]
  have rt: "receiving (P t)" using t(2) by simp
  note only = stalled_only [OF inv rt] and others = only_receiver [OF inv rt]
  have pend_same: "(\<lambda>u. pending (P u))(t := None) = (\<lambda>u. pending (P u))"
    using t(2) by (auto simp: fun_upd_idem_iff)
  show ?thesis
  proof (cases p)
    case Deq_Load
    then show ?thesis using st t(2) by (intro quiet) (auto simp: Core_head_def)
  next
    case (Deq_Slot h)
    have "deq_slot h m = (pc', m')" using st Deq_Slot by simp
    from deq_slot_fine [OF pok [unfolded Deq_Slot] A(1) this] show ?thesis
      using t(2) Deq_Slot by (intro quiet) auto
  next
    case (Deq_Cas h v)
    have pok': "recv_ok m (Deq_Cas h v)" using pok Deq_Cas by auto
    show ?thesis
    proof (cases "ok \<and> dequeue_pos m = h")
      case True
      have m': "m' = taken m" and pc': "pc' = Receiving (Deq_Store h v)"
        using st Deq_Cas True by (auto simp: deq_cas_def)
      have ring: "ring_ok m False" using A(1) only(2) t(2) Deq_Cas by simp
      note N = take_new_pc(1) [OF ring pok' A(2)] take_new_pc(2) [OF ring pok' A(2), of t]
      show ?thesis unfolding pc'
      proof (rule atomic_okI [OF inv t(1)])
        show "ring_ok m' (\<exists>u. stalled ((P(t := Receiving (Deq_Store h v))) u))"
          unfolding only(1) m' using take_ring [OF ring pok' index_count(1) [OF A(2)]] by simp
        show "index_ok fr m' ((\<lambda>u. own (P u))(t := own (Receiving (Deq_Store h v) :: ('e, 'm) pc)))"
          using N(2) by (simp add: m')
        show "pending_ok m' ((\<lambda>u. pending (P u))(t := pending (Receiving (Deq_Store h v) :: ('e, 'm) pc)))"
          using take_pending [OF ring pok' A(3)] pend_same by (simp add: m')
        show "pc_ok m' (Receiving (Deq_Store h v))" unfolding m' by (rule N(1))
        show "pc_ok m' (P u)" if "u \<noteq> t" for u
          unfolding m' by (rule take_pc_ok [OF ring pok' A(4) others(1) [OF that]])
      qed (simp add: rt)
    next
      case False
      then have "m' = m" "pc' = Receiving (Deq_Slot (dequeue_pos m))"
        using st Deq_Cas by (auto simp: deq_cas_def split: if_splits)
      then show ?thesis using t(2) Deq_Cas by (intro quiet) (auto simp: Core_head_def)
    qed
  next
    case (Deq_Store h v)
    have pok': "recv_ok m (Deq_Store h v)" using pok Deq_Store by auto
    let ?i = "ucast (v AND MASK) :: u8"
    have m': "m' = freed m h v" and pc': "pc' = Receiving (Take ?i)"
      using st Deq_Store by (simp_all add: deq_store_def Let_def layout_simps)
    have own: "own (P t) = Some ?i" using t(2) Deq_Store by simp
    have ring: "ring_ok m True" using A(1) only(2) t(2) Deq_Store by simp
    have room: "length (unreceived m) \<le> 63" using index_count(2) [OF A(2)] own by blast
    show ?thesis unfolding pc'
    proof (rule atomic_okI [OF inv t(1)])
      show "ring_ok m' (\<exists>u. stalled ((P(t := Receiving (Take ?i))) u))"
        unfolding only(1) m' using free_ring [OF ring pok' room] by simp
      have "(\<lambda>u. own (P u))(t := own (Receiving (Take ?i) :: ('e, 'm) pc)) = (\<lambda>u. own (P u))"
        using own by (auto simp: fun_upd_idem_iff)
      then show "index_ok fr m' ((\<lambda>u. own (P u))(t := own (Receiving (Take ?i) :: ('e, 'm) pc)))"
        using A(2) index_ok_cong [of m' m] by (simp add: m')
      show "pending_ok m' ((\<lambda>u. pending (P u))(t := pending (Receiving (Take ?i) :: ('e, 'm) pc)))"
        using free_pending [OF pok' room A(3)] pend_same by (simp add: m')
      have "unat ?i = unat v mod 64" by (simp add: layout_simps unat_ucast_u8)
      then show "pc_ok m' (Receiving (Take ?i))" using pok' by (auto simp: m')
      show "pc_ok m' (P u)" if "u \<noteq> t" for u
        unfolding m' by (rule free_pc_ok [OF pok' room A(4) others(1) [OF that]])
    qed (simp add: rt)
  next
    case (Take i)
    have own: "own (P t) = Some i" using t(2) Take by simp
    note i = index_ownD [OF A(2) own]
    obtain x where x: "cells m ! unat i = Some x" "x = snd (log m ! (Core_head m - 1))" "0 < Core_head m"
      using pok Take by simp
    have m': "m' = m\<lparr>cells := (cells m)[unat i := None]\<rparr>" and pc': "pc' = Receiving (Uncommit_Free x i)"
      using st Take i(1) x(1) by (simp_all add: take_cell_def)
    show ?thesis unfolding pc'
    proof (rule atomic_okI [OF inv t(1)])
      show "ring_ok m' (\<exists>u. stalled ((P(t := Receiving (Uncommit_Free x i))) u))"
        unfolding only(1) using ring_ok_cong [OF _ _ _ _ _ A(1), of m'] only(2) t(2) Take by (simp add: m')
      have "(\<lambda>u. own (P u))(t := own (Receiving (Uncommit_Free x i) :: ('e, 'm) pc)) = (\<lambda>u. own (P u))"
        using own by (auto simp: fun_upd_idem_iff)
      then show "index_ok fr m' ((\<lambda>u. own (P u))(t := own (Receiving (Uncommit_Free x i) :: ('e, 'm) pc)))"
        using cells_index [OF A(2) own] by (simp add: m')
      show "pending_ok m' ((\<lambda>u. pending (P u))(t := pending (Receiving (Uncommit_Free x i) :: ('e, 'm) pc)))"
        using A(3) pend_same pending_ok_cong [of m' m] by (simp add: m')
      show "pc_ok m' (Receiving (Uncommit_Free x i))" using x by (simp add: m')
      show "pc_ok m' (P u)" if "u \<noteq> t" for u
      proof -
        have "own (P u) \<noteq> Some i" using A(2) own that by (auto simp: index_ok_def)
        then show ?thesis unfolding m' using cells_pc_ok A(4) by blast
      qed
    qed (simp add: rt)
  next
    case (Uncommit_Free x i)
    have own: "own (P t) = Some i" using t(2) Uncommit_Free by simp
    have m': "m' = m\<lparr>indices := ia_free io i (indices m)\<rparr>" and pc': "pc' = Receiving (Uncommit_Wake x)"
      using st Uncommit_Free by simp_all
    show ?thesis unfolding pc'
    proof (rule atomic_okI [OF inv t(1)])
      show "ring_ok m' (\<exists>u. stalled ((P(t := Receiving (Uncommit_Wake x))) u))"
        unfolding only(1) using ring_ok_cong [OF _ _ _ _ _ A(1), of m'] only(2) t(2) Uncommit_Free
        by (simp add: m')
      show "index_ok fr m' ((\<lambda>u. own (P u))(t := own (Receiving (Uncommit_Wake x) :: ('e, 'm) pc)))"
        using index_free [OF io A(2) own] by (simp add: m')
      show "pending_ok m' ((\<lambda>u. pending (P u))(t := pending (Receiving (Uncommit_Wake x) :: ('e, 'm) pc)))"
        using A(3) pend_same pending_ok_cong [of m' m] by (simp add: m')
      show "pc_ok m' (Receiving (Uncommit_Wake x))" using pok Uncommit_Free by (simp add: m')
      show "pc_ok m' (P u)" for u using A(4) [of u] pc_ok_cong [of m' m "P u"] by (simp add: m')
    qed (simp add: rt)
  next
    case (Uncommit_Wake x)
    then show ?thesis using st t(2) by (intro quiet) auto
  qed
qed

subsection \<open>Every step\<close>

text \<open>The steps of closing and of the handles do not touch the ring.\<close>

lemma close_step_ring:
  assumes inv: "atomic_ok fr m P n" and t: "t < n" "P t = Closing p" and st: "close_step p m = (pc', m')"
  shows "atomic_ok fr m' (P(t := pc')) n"
proof (rule quiet_step [OF inv t(1)])
  have pc': "(\<exists>q. pc' = Closing q) \<or> (\<exists>r. pc' = Fin r)"
    using st by (cases p) (auto simp: err_claim_def split: if_splits)
  then show "own pc' = own (P t) \<or> own pc' = None" "pending pc' = pending (P t)"
    "stalled pc' = stalled (P t)" "pc_ok m pc'"
    "receiving pc' \<longrightarrow> receiving (P t) \<or> (\<forall>u < n. \<not> receiving (P u))"
    using t(2) by auto
  show "Core_head m' = Core_head m"
    using st head_close [of m] by (cases p) (auto simp: err_claim_def Core_head_def)
qed (use st in \<open>cases p; auto simp: err_claim_def\<close>)+

lemma handle_step_ring:
  assumes inv: "atomic_ok fr m P n" and t: "t < n" "P t = Handle p" and st: "handle_step p m = (pc', m')"
    and fine: "pc' \<noteq> Panicked"
  shows "atomic_ok fr m' (P(t := pc')) n"
proof (rule quiet_step [OF inv t(1)])
  have pc': "pc' = Handle Drop_Fence \<or> (pc' = Handle Rx_Wake \<and> p = Rx_Close) \<or>
      (\<exists>q. pc' = Closing q) \<or> pc' = Fin Handle_Done"
    using st fine by (cases p) (auto simp: drop_tx_def drop_fence_def split: if_splits)
  then show "own pc' = own (P t) \<or> own pc' = None" "pending pc' = pending (P t)"
    "stalled pc' = stalled (P t)" "pc_ok m pc'"
    "receiving pc' \<longrightarrow> receiving (P t) \<or> (\<forall>u < n. \<not> receiving (P u))"
    using t(2) by auto
  show "Core_head m' = Core_head m"
    using st by (cases p) (auto simp: drop_tx_def drop_fence_def Core_head_def)
qed (use st in \<open>cases p; auto simp: drop_tx_def drop_fence_def\<close>)+

lemma pc_step_log: "pc_step io ok pc m = (pc', m') \<Longrightarrow> length (log m) \<le> length (log m')"
proof (cases pc)
  case (Sending x p)
  assume "pc_step io ok pc m = (pc', m')"
  with Sending show ?thesis by (cases p) (auto simp: step_defs split: if_splits option.splits prod.splits)
next
  case (Receiving p)
  assume "pc_step io ok pc m = (pc', m')"
  with Receiving show ?thesis using recv_step_state [of io ok p m pc' m'] by simp
next
  case (Closing p)
  assume "pc_step io ok pc m = (pc', m')"
  with Closing show ?thesis by (cases p) (auto simp: err_claim_def)
next
  case (Handle p)
  assume "pc_step io ok pc m = (pc', m')"
  with Handle show ?thesis by (cases p) (auto simp: drop_tx_def drop_fence_def)
qed (auto simp: reason_state_def reason_error_def)

lemma act_log: "length (log (mem s)) \<le> length (log (mem (act io a s)))"
proof (cases a)
  case (Tick t ok)
  then show ?thesis using pc_step_log [of io ok "pcs s t" "mem s"] by (auto split: prod.splits)
qed auto

lemma tick_inv:
  fixes s :: "('e, 'ia, 'm) threaded"
  assumes io: "index_alloc io fr" and inv: "atomic_inv fr s" "close_inv s" and t: "t < nthreads s"
    and add: "pcs s t = Handle Add_Tx \<Longrightarrow> int (total_senders s) < 2 ^ 61 - 1"
    and len: "length (log (mem (act io (Tick t ok) s))) \<le> 960"
  shows "atomic_inv fr (act io (Tick t ok) s) \<and> close_inv (act io (Tick t ok) s)"
proof -
  obtain pc' m' where st: "pc_step io ok (pcs s t) (mem s) = (pc', m')" by fastforce
  let ?P = "(pcs s)(t := pc')"
  have act: "act io (Tick t ok) s = s\<lparr>mem := m', pcs := ?P,
      senders := (senders s)(t := senders_after (pcs s t) (senders s t))\<rparr>"
    using st by simp
  have len': "length (log m') \<le> 960" using len unfolding act by simp
  note I = inv(1) [unfolded atomic_inv_def]
  note ok = atomic_okD(4) [OF I, of t]
  have keep: "(senders s)(t := senders_after (pcs s t) (senders s t)) = senders s"
    if "\<And>p. pcs s t \<noteq> Handle p"
    using that by (cases "pcs s t") auto
  have "atomic_ok fr m' ?P (nthreads s) \<and>
      close_inv (s\<lparr>mem := m', pcs := ?P, senders := (senders s)(t := senders_after (pcs s t) (senders s t))\<rparr>)"
  proof (cases "pcs s t")
    case (Sending x p)
    then have "send_step io ok x p (mem s) = (pc', m')" using st by simp
    from send_ring [OF io I t Sending this len'] close_send [OF inv(2) t Sending this]
    show ?thesis using keep Sending by simp
  next
    case (Receiving p)
    then have "recv_step io ok p (mem s) = (pc', m')" using st by simp
    from recv_ring [OF io I t Receiving this] close_recv [OF inv(2,1) Receiving this]
    show ?thesis using keep Receiving by simp
  next
    case (Reason_State x)
    then have r: "reason_state x (mem s) = (pc', m')" using st by simp
    have "atomic_ok fr m' ?P (nthreads s)"
      using r Reason_State by (intro quiet_step [OF I t]) (cases x; auto simp: reason_state_def split: if_splits)+
    then show ?thesis using close_reason [OF inv(2) Reason_State r] keep Reason_State by simp
  next
    case (Reason_Error x)
    then have r: "reason_error x (mem s) = (pc', m')" using st by simp
    obtain e where e: "pc' = Fin (closed_result x (Some e))"
      using close_reason_error(2) [OF inv(2) Reason_Error r] by blast
    have "m' = mem s" using r by (simp add: reason_error_def)
    then have "atomic_ok fr m' ?P (nthreads s)"
      using e Reason_Error by (intro quiet_step [OF I t]) auto
    then show ?thesis using close_reason_error(1) [OF inv(2) Reason_Error r] keep Reason_Error by simp
  next
    case (Closing p)
    then have r: "close_step p (mem s) = (pc', m')" using st by simp
    from close_step_ring [OF I t Closing r] close_closing [OF inv(2) Closing r]
    show ?thesis using keep Closing by simp
  next
    case (Handle p)
    then have r: "handle_step p (mem s) = (pc', m')" using st by simp
    have add': "p = Add_Tx \<Longrightarrow> int (total_senders s) < 2 ^ 61 - 1" using add Handle by simp
    note C = close_handle [OF inv(2) t Handle r add']
    from handle_step_ring [OF I t Handle r C(2)] C(1)
    show ?thesis using Handle by simp
  next
    case (Fin r)
    then have "pc' = pcs s t" "m' = mem s" using st by simp_all
    moreover have "(pcs s)(t := pcs s t) = pcs s" by (rule fun_upd_triv)
    ultimately show ?thesis using I inv(2) keep Fin by simp
  qed (use ok in simp_all)
  then show ?thesis unfolding act by (simp add: atomic_inv_def)
qed

text \<open>Beginning a call and moving a sender.\<close>

lemma begin_inv:
  assumes inv: "atomic_inv fr s" "close_inv s" and may: "may_act True s (Begin t c)"
  shows "atomic_inv fr (act io (Begin t c) s) \<and> close_inv (act io (Begin t c) s)"
proof
  note I = inv(1) [unfolded atomic_inv_def]
  have t: "t < nthreads s" "is_Fin (pcs s t)" "may_begin True s t c" using may by simp_all
  obtain r where r: "pcs s t = Fin r" using t(2) by (cases "pcs s t") auto
  have "atomic_ok fr (mem s) ((pcs s)(t := call_pc c)) (nthreads s)"
    using t r by (intro quiet_step [OF I t(1)]) (cases c; auto)+
  then show "atomic_inv fr (act io (Begin t c) s)" by (simp add: atomic_inv_def)
  have "close_ok (act io (Begin t c) s) t (call_pc c)"
    using t(3) by (cases c) simp_all
  moreover have "\<not> claiming (call_pc c)" by (cases c) simp_all
  ultimately show "close_inv (act io (Begin t c) s)"
    by (intro close_invI [OF inv(2), where t = t and pc' = "call_pc c"])
      (use inv(2) in \<open>simp_all add: close_inv_def drained_def\<close>)
qed

lemma give_inv:
  assumes inv: "atomic_inv fr s" "close_inv s" and may: "may_act True s (Give t u)"
  shows "atomic_inv fr (act io (Give t u) s) \<and> close_inv (act io (Give t u) s)"
proof
  show "atomic_inv fr (act io (Give t u) s)" using inv(1) by (simp add: atomic_inv_def)
  let ?s' = "act io (Give t u) s"
  have t: "t < nthreads s" "u < nthreads s" "t \<noteq> u" "is_Fin (pcs s t)" "0 < senders s t"
    using may by simp_all
  have "total_senders (s\<lparr>senders := (senders s)(t := senders s t - 1)\<rparr>) + senders s t = total_senders s + (senders s t - 1)"
    by (rule total_update [OF t(1)])
  moreover have "total_senders ?s' + senders s u =
      total_senders (s\<lparr>senders := (senders s)(t := senders s t - 1)\<rparr>) + (senders s u + 1)"
    using total_update [of u "s\<lparr>senders := (senders s)(t := senders s t - 1)\<rparr>" "senders s u + 1"] t(2,3) by simp
  ultimately have total: "total_senders ?s' = total_senders s" using t(5) by simp
  have "close_ok ?s' v (pcs s v)" for v
  proof (rule close_ok_mono [where s = s])
    show "close_ok s v (pcs s v)" using inv(2) by (simp add: close_inv_def)
    show "senders s v \<le> senders ?s' v \<or> is_Fin (pcs s v)" using t by simp
    show "drained s \<longrightarrow> drained ?s'" using total by (simp add: drained_def)
  qed (use total in simp_all)
  then show "close_inv ?s'"
    using inv(2) total unfolding close_inv_def by simp
qed

lemma start_inv:
  assumes io: "index_alloc io fr" and new: "Core_new io cap = Done c" and n: "0 < n"
  shows "atomic_inv fr (threads_new c n :: ('e, 'ia, 'm) threaded) \<and>
    close_inv (threads_new c n :: ('e, 'ia, 'm) threaded)"
proof
  let ?m = "core.extend c \<lparr>cells = replicate (unat (capacity c)) None, log = []\<rparr> :: ('e, 'ia, 'm) shared"
  note N = Core_new_abs [OF new] and R = core_repD [OF Core_new_rep [OF new]]
  have same: "queue ?m = queue c" "dequeue_pos ?m = dequeue_pos c" "enqueue_pos ?m = enqueue_pos c"
    "indices ?m = indices c" "state ?m = state c" "error ?m = error c"
    by (simp_all add: core.defs)
  have H: "Core_head ?m = 0" "tx_closed ?m = False" "rx_closed ?m = False"
    using N(3,5,6) same by (simp_all add: Core_head_def tx_closed_def rx_closed_def)
  have cap: "unat cap \<le> 64" using new by (simp add: Core_new_def MAX_CAPACITY_def split: if_splits)
  have fr: "fr (indices c) = {..<unat cap}" using N(9) index_allocD(1) [OF io cap] by simp
  have "slot_ok ?m False k" if "k < 64" for k
    using R(7) [OF that] that same H by (simp add: slot_ok_def Let_def queued_at_def core.defs)
  then have "ring_ok ?m False"
    using R(3,5,6) same H by (simp add: ring_ok_def core.defs)
  moreover have "index_ok fr ?m (\<lambda>t. None)"
    using cap fr N(10) same by (simp add: index_ok_def unreceived_def core.defs)
  moreover have "pending_ok ?m (\<lambda>t. None)" by (simp add: pending_ok_def core.defs)
  ultimately show "atomic_inv fr (threads_new c n :: ('e, 'ia, 'm) threaded)"
    by (simp add: atomic_inv_def atomic_ok_def threads_ok_def threads_new_def)
  have "(\<Sum>t < n. if t = 0 then 1 else 0) = (1 :: nat)" using n by simp
  then have total: "total_senders (threads_new c n :: ('e, 'ia, 'm) threaded) = 1"
    by (simp add: total_senders_def threads_new_def)
  show "close_inv (threads_new c n :: ('e, 'ia, 'm) threaded)"
    using total N(4,8) H same by (simp add: close_inv_def threads_new_def state_bits)
qed

text \<open>Both invariants hold of every state that one receiver and any number of senders reach.\<close>

theorem interleaved_inv:
  assumes io: "index_alloc io fr" and "interleaved io True s" and "length (log (mem s)) \<le> 960"
  shows "atomic_inv fr s \<and> close_inv s"
  using assms(2,3)
proof induction
  case (Start cap c n)
  from start_inv [OF io this(1,2)] show ?case .
next
  case (Act s a)
  then have inv: "atomic_inv fr s" "close_inv s"
    using act_log [of s io a] by simp_all
  show ?case
  proof (cases a)
    case (Begin t c)
    then show ?thesis using begin_inv [OF inv] Act.hyps(2) by blast
  next
    case (Tick t ok)
    then show ?thesis using tick_inv [OF io inv, of t ok] Act.hyps(2) Act.prems
      by (simp only: may_act.simps)
  next
    case (Give t u)
    then show ?thesis using give_inv [OF inv] Act.hyps(2) by blast
  qed
qed

end
