(* ===== verification/Core_Atomic_Spec.thy ===== *)
theory Core_Atomic_Spec
  imports Core_Atomic_Step
begin

section \<open>The channel under interleaving refines an atomic queue\<close>

text \<open>
  What the calls promise: a queue of messages that takes a message at one instant of a send and
  gives one up at one instant of a receive. The step relation says what each instant may do; the
  theorems show that every step of every interleaving is one of its steps, that no interleaving
  panics or reads a cell without a value, and what a receiver may conclude from its answer.
\<close>

subsection \<open>The atomic queue\<close>

datatype ('e, 'm) phase =
    Returned "('e, 'm) result" | Offering 'm | Accepted 'm | Refused | Wanting | Holding 'm | Elsewhere

inductive queue_step ::
  "'m list \<times> (nat \<Rightarrow> ('e, 'm) phase) \<Rightarrow> 'm list \<times> (nat \<Rightarrow> ('e, 'm) phase) \<Rightarrow> bool" where
  Stay: "queue_step (q, f) (q, f)"
| Offer: "f t = Returned r \<Longrightarrow> queue_step (q, f) (q, f(t := Offering m))"
| Accept: "f t = Offering m \<Longrightarrow> queue_step (q, f) (q @ [m], f(t := Accepted m))"
| Sent: "f t = Accepted m \<Longrightarrow> queue_step (q, f) (q, f(t := Returned Sent))"
| Full: "f t = Offering m \<Longrightarrow> queue_step (q, f) (q, f(t := Returned Send_Full))"
| Refuse: "f t = Offering m \<Longrightarrow> queue_step (q, f) (q, f(t := Refused))"
| Closed: "f t = Refused \<Longrightarrow> queue_step (q, f) (q, f(t := Returned (Send_Closed e)))"
| Want: "f t = Returned r \<Longrightarrow> queue_step (q, f) (q, f(t := Wanting))"
| Hold: "f t = Wanting \<Longrightarrow> queue_step (m # q, f) (q, f(t := Holding m))"
| Deliver: "f t = Holding m \<Longrightarrow> queue_step (q, f) (q, f(t := Returned (Received m)))"
| Nothing: "f t = Wanting \<Longrightarrow> q = [] \<or> (\<exists>u m. f u = Accepted m) \<Longrightarrow>
     queue_step (q, f) (q, f(t := Returned Recv_Empty))"
| Over: "f t = Wanting \<Longrightarrow> queue_step ([], f) ([], f(t := Returned (Recv_Closed None)))"
| Failed: "f t = Wanting \<Longrightarrow> queue_step (q, f) (q, f(t := Returned (Recv_Closed (Some e))))"
| Begin_Other: "f t = Returned r \<Longrightarrow> queue_step (q, f) (q, f(t := Elsewhere))"
| End_Other: "f t = Elsewhere \<Longrightarrow> r = Handle_Done \<or> r = Errored b \<Longrightarrow>
     queue_step (q, f) (q, f(t := Returned r))"

fun phase_of :: "('e, 'ia, 'm) shared \<Rightarrow> ('e, 'm) pc \<Rightarrow> ('e, 'm) phase" where
  "phase_of s (Fin r) = Returned r"
| "phase_of s (Sending m pc) =
     (if pc = Commit_Wake \<or> (\<exists>i tail. pc = Commit_Store i tail) then Accepted m else Offering m)"
| "phase_of s (Receiving (Deq_Store h v)) = Holding (snd (log s ! (Core_head s - 1)))"
| "phase_of s (Receiving (Take i)) = Holding (snd (log s ! (Core_head s - 1)))"
| "phase_of s (Receiving (Uncommit_Free m i)) = Holding m"
| "phase_of s (Receiving (Uncommit_Wake m)) = Holding m"
| "phase_of s (Receiving _) = Wanting"
| "phase_of s (Reason_State x) = (if x = Send_Side then Refused else Wanting)"
| "phase_of s (Reason_Error x) = (if x = Send_Side then Refused else Wanting)"
| "phase_of s _ = Elsewhere"

definition atomic_abs :: "('e, 'ia, 'm) threaded \<Rightarrow> 'm list \<times> (nat \<Rightarrow> ('e, 'm) phase)" where
  "atomic_abs s = (map snd (unreceived (mem s)), \<lambda>t. phase_of (mem s) (pcs s t))"

subsection \<open>The simulation\<close>

lemma phase_frame:
  assumes "Core_head m' = Core_head m" "0 < Core_head m \<Longrightarrow> log m' ! (Core_head m - 1) = log m ! (Core_head m - 1)"
    "pc_ok m pc"
  shows "phase_of m' pc = phase_of m pc"
  using assms by (cases "(m, pc)" rule: phase_of.cases) auto

lemma phase_other: "\<not> receiving pc \<Longrightarrow> phase_of m' pc = phase_of m pc"
  by (cases "(m, pc)" rule: phase_of.cases) auto

text \<open>A step of a thread changes its own phase only.\<close>

lemma simulation_step:
  assumes "queue_step (q, f) (q', f(t := phase_of m' pc'))"
    and "f = (\<lambda>u. phase_of m (P u))" and "\<And>u. u \<noteq> t \<Longrightarrow> phase_of m' (P u) = phase_of m (P u)"
  shows "queue_step (q, \<lambda>u. phase_of m (P u)) (q', \<lambda>u. phase_of m' ((P(t := pc')) u))"
proof -
  have "(\<lambda>u. phase_of m' ((P(t := pc')) u)) = (\<lambda>u. phase_of m (P u))(t := phase_of m' pc')"
    using assms(3) by (intro ext) simp
  with assms(1,2) show ?thesis by simp
qed

lemma send_step_log:
  assumes "send_step io ok x p m = (pc', m')"
  shows "(log m' = log m \<and> Core_head m' = Core_head m) \<or>
    (\<exists>i tail. p = Commit_Cas i tail \<and> pc' = Sending x (Commit_Store i tail) \<and> m' = claimed m i x)"
  using assms by (cases p; auto simp: step_defs Core_head_def split: if_splits option.splits prod.splits)

lemma send_step_phase:
  assumes "send_step io ok x p m = (pc', m')" and "pc' \<noteq> Panicked" "pc' \<noteq> Undefined"
    and "\<not> (\<exists>i tail. p = Commit_Cas i tail \<and> pc' = Sending x (Commit_Store i tail))"
  shows "phase_of m' pc' = phase_of m (Sending x p) \<or>
    phase_of m (Sending x p) = Offering x \<and> (phase_of m' pc' = Returned Send_Full \<or> phase_of m' pc' = Refused) \<or>
    phase_of m (Sending x p) = Accepted x \<and> phase_of m' pc' = Returned Sent"
  using assms by (cases p; auto simp: step_defs split: if_splits option.splits prod.splits)

lemma send_simulation:
  assumes inv: "atomic_ok fr m P n" and t: "P t = Sending x p"
    and st: "send_step io ok x p m = (pc', m')" and fine: "pc' \<noteq> Panicked" "pc' \<noteq> Undefined"
  shows "queue_step (map snd (unreceived m), \<lambda>u. phase_of m (P u))
    (map snd (unreceived m'), \<lambda>u. phase_of m' ((P(t := pc')) u))"
proof (cases "\<exists>i tail. p = Commit_Cas i tail \<and> pc' = Sending x (Commit_Store i tail)")
  case True
  then obtain i tail where p: "p = Commit_Cas i tail" "pc' = Sending x (Commit_Store i tail)" by blast
  have m': "m' = claimed m i x" using st p by (auto simp: commit_cas_def split: if_splits)
  have H: "Core_head m \<le> length (log m)" by (rule ring_okD(3) [OF atomic_okD(1) [OF inv]])
  have q: "map snd (unreceived m') = map snd (unreceived m) @ [x]"
    using H by (simp add: m' unreceived_def)
  have "phase_of m (P t) = Offering x" using t p by simp
  then have "queue_step (map snd (unreceived m), \<lambda>u. phase_of m (P u))
      (map snd (unreceived m) @ [x], (\<lambda>u. phase_of m (P u))(t := Accepted x))"
    by (rule Accept)
  then show ?thesis unfolding q
  proof (intro simulation_step [OF _ refl])
    show "phase_of m' (P u) = phase_of m (P u)" for u
      using H atomic_okD(4) [OF inv] by (intro phase_frame) (auto simp: m' nth_append)
  qed (simp add: p)
next
  case False
  then have log: "log m' = log m" "Core_head m' = Core_head m" using send_step_log [OF st] by auto
  have q: "unreceived m' = unreceived m" using log by (simp add: unreceived_def)
  have other: "phase_of m' (P u) = phase_of m (P u)" for u
    using log atomic_okD(4) [OF inv] by (intro phase_frame) simp_all
  have me: "phase_of m (P t) = phase_of m (Sending x p)" using t by simp
  let ?f = "\<lambda>u. phase_of m (P u)"
  have "queue_step (map snd (unreceived m), ?f) (map snd (unreceived m), ?f(t := phase_of m' pc'))"
    using send_step_phase [OF st fine False]
  proof (elim disjE conjE)
    assume "phase_of m' pc' = phase_of m (Sending x p)"
    then have "?f(t := phase_of m' pc') = ?f" using me by (simp add: fun_upd_idem_iff)
    then show ?thesis by (simp add: Stay)
  qed (use me in \<open>simp_all add: Full Refuse Sent\<close>)
  then show ?thesis unfolding q by (rule simulation_step [OF _ refl other])
qed

text \<open>When the slot at the head has no message, the queue is empty or a send is not finished.\<close>

lemma nothing_to_receive:
  assumes inv: "atomic_ok fr m P n" and "recv_ok m (Deq_Slot h)" and st: "deq_slot h m = (pc', m')"
    and "pc' = Fin Recv_Empty \<or> pc' = Reason_State Recv_Side"
  shows "unreceived m = [] \<or> (\<exists>u. pending (P u) = Some (Core_head m))"
proof -
  note A = atomic_okD [OF inv]
  let ?H = "Core_head m"
  let ?w = "queue m ! (?H mod 64)"
  have h: "unat h div 64 = ?H" using assms(2) by simp
  have H: "?H \<le> length (log m)" "length (log m) \<le> 960" by (rule ring_okD [OF A(1)])+
  have "sint (drop_bit POS_SHIFT ?w - (drop_bit POS_SHIFT h + 1)) < 0"
    using st assms(4) h by (auto simp: deq_slot_def Let_def layout_simps split: if_splits)
  moreover have "unat (drop_bit POS_SHIFT h + 1) = ?H + 1"
    using pos_succ [of "drop_bit POS_SHIFT h"] h H by (simp add: unat_pos)
  moreover have "unat (drop_bit POS_SHIFT ?w) < 32768" using unat_u16_less [of ?w] by (simp add: unat_pos)
  ultimately have behind: "unat ?w div 64 < ?H + 1"
    using H sint_dif [of "drop_bit POS_SHIFT ?w" "drop_bit POS_SHIFT h + 1"] by (simp add: unat_pos)
  show ?thesis
  proof (cases "?H < length (log m)")
    case True
    have "unat ?w div 64 = ?H"
      using ring_slot [OF A(1), of ?H] ring_okD(4) [OF A(1) True] behind True by auto
    then show ?thesis using A(3) True by (auto simp: pending_ok_def)
  next
    case False
    then show ?thesis by (simp add: unreceived_def)
  qed
qed

lemma pending_accepted: "pending pc = Some p \<Longrightarrow> \<exists>m. phase_of s pc = Accepted m"
  by (cases pc rule: pending.cases) auto

lemma recv_simulation:
  assumes inv: "atomic_ok fr m P n" and t: "P t = Receiving p"
    and st: "recv_step io ok p m = (pc', m')" and fine: "pc' \<noteq> Undefined"
  shows "queue_step (map snd (unreceived m), \<lambda>u. phase_of m (P u))
    (map snd (unreceived m'), \<lambda>u. phase_of m' ((P(t := pc')) u))"
proof -
  note A = atomic_okD [OF inv]
  let ?f = "\<lambda>u. phase_of m (P u)"
  have rt: "receiving (P t)" using t by simp
  have pok: "recv_ok m p" using A(4) [of t] t by simp
  have other: "phase_of m' (P u) = phase_of m (P u)" if "u \<noteq> t" for u
    using only_receiver(1) [OF inv rt that] by (rule phase_other)
  have me: "phase_of m (P t) = phase_of m (Receiving p)" using t by simp
  show ?thesis
  proof (cases "\<exists>h v. p = Deq_Cas h v \<and> pc' = Receiving (Deq_Store h v)")
    case True
    then obtain h v where p: "p = Deq_Cas h v" "pc' = Receiving (Deq_Store h v)" by blast
    have m': "m' = taken m" using st p by (auto simp: deq_cas_def split: if_splits)
    have ring: "ring_ok m False" using A(1) stalled_only(2) [OF inv rt] t p by simp
    have q: "unreceived m = log m ! Core_head m # unreceived m'"
      unfolding m' using take_new_pc(4) [OF ring _ A(2)] pok p by blast
    have "Core_head m' = Core_head m + 1"
      unfolding m' using take_pos(1) [OF ring] pok p by blast
    then have "phase_of m' pc' = Holding (snd (log m ! Core_head m))" by (simp add: p m')
    moreover have "?f t = Wanting" using me p by simp
    ultimately show ?thesis unfolding q
      by (intro simulation_step [OF _ refl other]) (simp_all add: Hold)
  next
    case False
    then have log: "log m' = log m" "Core_head m' = Core_head m"
      using recv_step_state [OF st] recv_step_pos [OF st] st
      by (auto simp: Core_head_def deq_cas_def split: if_splits)
    have q: "unreceived m' = unreceived m" using log by (simp add: unreceived_def)
    have "queue_step (map snd (unreceived m), ?f) (map snd (unreceived m), ?f(t := phase_of m' pc'))"
    proof (cases "phase_of m' pc' = phase_of m (Receiving p)")
      case True
      then have "?f(t := phase_of m' pc') = ?f" using me by (simp add: fun_upd_idem_iff)
      then show ?thesis by (simp add: Stay)
    next
      case ne: False
      show ?thesis
      proof (cases p)
        case (Deq_Slot h)
        have "pc' = Fin Recv_Empty"
          using ne st False log unfolding Deq_Slot by (auto simp: deq_slot_def Let_def split: if_splits)
        moreover have "unreceived m = [] \<or> (\<exists>u. pending (P u) = Some (Core_head m))"
          using nothing_to_receive [OF inv, of h pc' m'] pok st Deq_Slot \<open>pc' = Fin Recv_Empty\<close> by simp
        then have "map snd (unreceived m) = [] \<or> (\<exists>u x. ?f u = Accepted x)"
          using pending_accepted [where s = m] by (metis list.map_disc_iff)
        ultimately show ?thesis using me Deq_Slot by (auto intro!: Nothing)
      next
        case (Uncommit_Wake x)
        then show ?thesis using st me by (auto intro!: Deliver)
      next
        case (Take i)
        then show ?thesis using ne st pok fine log by (auto simp: take_cell_def split: if_splits option.splits)
      qed (use ne st False log in \<open>auto simp: deq_cas_def deq_store_def Let_def split: if_splits\<close>)
    qed
    then show ?thesis unfolding q by (rule simulation_step [OF _ refl other])
  qed
qed

lemma quiet_simulation:
  assumes "log m' = log m" "Core_head m' = Core_head m" and "\<And>u. pc_ok m (P u)"
    and "queue_step (map snd (unreceived m), \<lambda>u. phase_of m (P u))
      (map snd (unreceived m), (\<lambda>u. phase_of m (P u))(t := phase_of m' pc'))"
  shows "queue_step (map snd (unreceived m), \<lambda>u. phase_of m (P u))
    (map snd (unreceived m'), \<lambda>u. phase_of m' ((P(t := pc')) u))"
proof -
  have q: "unreceived m' = unreceived m" using assms by (simp add: unreceived_def)
  have "phase_of m' (P u) = phase_of m (P u)" for u
    using assms(1-3) by (intro phase_frame) simp_all
  then show ?thesis unfolding q by (intro simulation_step [OF assms(4) refl])
qed

lemma tick_simulation:
  fixes s :: "('e, 'ia, 'm) threaded"
  assumes inv: "atomic_inv fr s" "close_inv s" "atomic_inv fr (act io (Tick t ok) s)"
  shows "queue_step (atomic_abs s) (atomic_abs (act io (Tick t ok) s))"
proof -
  obtain pc' m' where st: "pc_step io ok (pcs s t) (mem s) = (pc', m')" by fastforce
  let ?P = "pcs s" and ?m = "mem s"
  let ?f = "\<lambda>u. phase_of ?m (?P u)"
  note I = inv(1) [unfolded atomic_inv_def]
  have pok: "pc_ok ?m (?P u)" for u by (rule atomic_okD(4) [OF I])
  have "pc_ok m' pc'"
    using atomic_okD(4) [OF inv(3) [unfolded atomic_inv_def], of t] st by simp
  then have fine: "pc' \<noteq> Panicked" "pc' \<noteq> Undefined" by auto
  have cok: "close_ok s t (?P t)" using inv(2) by (simp add: close_inv_def)
  have "queue_step (map snd (unreceived ?m), ?f)
    (map snd (unreceived m'), \<lambda>u. phase_of m' ((?P(t := pc')) u))"
  proof (cases "?P t")
    case (Sending x p)
    then show ?thesis using send_simulation [OF I Sending _ fine] st by simp
  next
    case (Receiving p)
    then show ?thesis using recv_simulation [OF I Receiving _ fine(2)] st by simp
  next
    case (Reason_State x)
    then have r: "m' = ?m" "pc' = (if errored ?m then Reason_Error x else Fin (closed_result x None))"
      using st by (auto simp: reason_state_def state_bits flag_clear_iff)
    have "unreceived ?m = []" if "\<not> errored ?m" "x = Recv_Side"
      using cok Reason_State that by (simp add: drained_def unreceived_def)
    moreover have "?f t = (if x = Send_Side then Refused else Wanting)" using Reason_State by simp
    moreover have "phase_of m' pc' = (if errored ?m then (if x = Send_Side then Refused else Wanting)
        else Returned (closed_result x None))"
      using r by simp
    ultimately have "queue_step (map snd (unreceived ?m), ?f)
        (map snd (unreceived ?m), ?f(t := phase_of m' pc'))"
      by (cases "errored ?m"; cases x) (simp_all add: fun_upd_idem Stay Closed Over)
    then show ?thesis using r(1) by (intro quiet_simulation [OF _ _ pok]) simp_all
  next
    case (Reason_Error x)
    then obtain e where r: "m' = ?m" "pc' = Fin (closed_result x (Some e))"
      using st fine by (auto simp: reason_error_def split: option.splits)
    have "?f t = (if x = Send_Side then Refused else Wanting)" using Reason_Error by simp
    then have "queue_step (map snd (unreceived ?m), ?f)
        (map snd (unreceived ?m), ?f(t := phase_of m' pc'))"
      by (cases x) (simp_all add: r Closed Failed)
    then show ?thesis using r(1) by (intro quiet_simulation [OF _ _ pok]) simp_all
  next
    case (Closing p)
    have same: "log m' = log ?m" "Core_head m' = Core_head ?m"
      using st Closing head_close [of ?m] by (cases p; auto simp: err_claim_def Core_head_def)+
    have "phase_of m' pc' = Elsewhere \<or> (\<exists>r b. phase_of m' pc' = Returned r \<and> (r = Handle_Done \<or> r = Errored b))"
      using st Closing cok by (cases p) (auto simp: err_claim_def split: if_splits)
    moreover have "?f t = Elsewhere" using Closing by simp
    ultimately show ?thesis
      by (intro quiet_simulation [OF same pok]) (auto simp: fun_upd_idem Stay intro!: End_Other)
  next
    case (Handle p)
    have same: "log m' = log ?m" "Core_head m' = Core_head ?m"
      using st Handle by (cases p; auto simp: drop_tx_def drop_fence_def Core_head_def)+
    have "phase_of m' pc' = Elsewhere \<or> phase_of m' pc' = Returned Handle_Done"
      using st Handle fine by (cases p) (auto simp: drop_tx_def drop_fence_def split: if_splits)
    moreover have "?f t = Elsewhere" using Handle by simp
    ultimately show ?thesis
      by (intro quiet_simulation [OF same pok]) (auto simp: fun_upd_idem Stay intro!: End_Other)
  next
    case (Fin r)
    then have r: "m' = ?m" "pc' = Fin r" using st by simp_all
    have "?f(t := phase_of m' pc') = ?f" using Fin r by (simp add: fun_upd_idem_iff)
    then show ?thesis using r by (intro quiet_simulation [OF _ _ pok]) (simp_all add: Stay)
  qed (use pok [of t] in simp_all)
  then show ?thesis using st by (simp add: atomic_abs_def)
qed

lemma begin_simulation:
  assumes inv: "atomic_inv fr s" and may: "may_act True s (Begin t c)"
  shows "queue_step (atomic_abs s) (atomic_abs (act io (Begin t c) s))"
proof -
  note I = inv [unfolded atomic_inv_def]
  obtain r where r: "pcs s t = Fin r" using may by (cases "pcs s t") auto
  have "queue_step (map snd (unreceived (mem s)), \<lambda>u. phase_of (mem s) (pcs s u))
    (map snd (unreceived (mem s)), \<lambda>u. phase_of (mem s) (((pcs s)(t := call_pc c)) u))"
    using r by (intro quiet_simulation [OF refl refl atomic_okD(4) [OF I]])
      (cases c; auto intro!: Offer Want Begin_Other)
  then show ?thesis by (simp add: atomic_abs_def)
qed

end
