(* ===== verification/Core_Atomic_Alone.thy ===== *)
theory Core_Atomic_Alone
  imports Core_Atomic
begin

section \<open>A call without interference\<close>

text \<open>
  \<open>Channel_Core\<close> treats a call as one step. \<open>sequential\<close> composes its operations to the calls of
  \<open>Core_Atomic\<close>; a thread that runs alone through a call does the same.
\<close>

fun alone :: "'ia index_ops \<Rightarrow> nat \<Rightarrow> ('e, 'm) pc \<Rightarrow> ('e, 'ia, 'm) shared \<Rightarrow> ('e, 'ia, 'm) stepped" where
  "alone io 0 pc s = (pc, s)"
| "alone io (Suc n) pc s = (let (pc', s') = pc_step io True pc s in alone io n pc' s')"

fun send_answer :: "('e, unit) TrySendError \<Rightarrow> ('e, 'm) result" where
  "send_answer (TrySendError_Full _) = Send_Full"
| "send_answer (TrySendError_Disconnected _) = Send_Closed None"
| "send_answer (TrySendError_Error _ e) = Send_Closed (Some e)"

fun commit_answer :: "('e, unit) SendError + unit \<Rightarrow> ('e, 'm) result" where
  "commit_answer (Ok _) = Sent"
| "commit_answer (Err (SendError_Disconnected _)) = Send_Closed None"
| "commit_answer (Err (SendError_Error _ e)) = Send_Closed (Some e)"

fun recv_answer :: "'e TryRecvError \<Rightarrow> ('e, 'm) result" where
  "recv_answer TryRecvError_Empty = Recv_Empty"
| "recv_answer TryRecvError_Disconnected = Recv_Closed None"
| "recv_answer (TryRecvError_Error e) = Recv_Closed (Some e)"

fun sequential :: "'ia index_ops \<Rightarrow> ('e, 'm) call \<Rightarrow> ('e, 'ia, 'm) shared \<Rightarrow> (('e, 'm) result \<times> ('e, 'ia, 'm) shared) outcome" where
  "sequential io (Call_Send m) s =
     (case Core_try_reserve io s of
        (s1, Err e) \<Rightarrow> Done (send_answer e, s1)
      | (s1, Ok i) \<Rightarrow>
          if unat i < length (cells s1)
          then outcome_map (\<lambda>(s2, r). (commit_answer r, if isl r then s2 else s2\<lparr>log := log s @ [(i, m)]\<rparr>))
                 (Core_commit_send [True] (s1\<lparr>cells := (cells s1)[unat i := Some m]\<rparr>) i)
          else UB)"
| "sequential io Call_Recv s =
     outcome_bind (Core_try_dequeue [True] s) (\<lambda>(s1, r).
       case r of
         Err e \<Rightarrow> Done (recv_answer e, s1)
       | Ok i \<Rightarrow>
           (if unat i < length (cells s1)
            then (case cells s1 ! unat i of
                    None \<Rightarrow> UB
                  | Some m \<Rightarrow> Done (Received m, Core_uncommit io (s1\<lparr>cells := (cells s1)[unat i := None]\<rparr>) i))
            else UB))"
| "sequential io (Call_Error e) s = (let (s1, b) = Core_close_with_error s e in Done (Errored b, s1))"
| "sequential io Call_Clone s = Done (Handle_Done, Core_add_tx s)"
| "sequential io Call_Drop s = Done (Handle_Done, Core_drop_tx s)"
| "sequential io Call_Drop_Rx s = Done (Handle_Done, Core_close_rx s)"

lemma alone_fin: "alone io n (Fin r) s = (Fin r, s)" "alone io n Panicked s = (Panicked, s)"
  "alone io n Undefined s = (Undefined, s)"
  by (induction n) simp_all

lemma alone_unfold: "0 < n \<Longrightarrow> alone io n pc s = (let (pc', s') = pc_step io True pc s in alone io (n - 1) pc' s')"
  by (cases n) simp_all

text \<open>The answer of \<open>close_reason\<close>, from three steps or more.\<close>

lemma alone_reason:
  assumes "errored s \<longrightarrow> error s \<noteq> None" and "2 \<le> n"
  shows "alone io n (Reason_State x) s = (Fin (closed_result x (Core_close_reason s)), s)"
proof -
  obtain k where n: "n = Suc (Suc k)" using assms(2) by (metis add_2_eq_Suc le_Suc_ex)
  show ?thesis
  proof (cases "errored s")
    case True
    then obtain e where "error s = Some e" using assms(1) by blast
    with True show ?thesis
      by (simp add: n reason_state_def reason_error_def Core_close_reason_def state_bits flag_clear_iff alone_fin)
  next
    case False
    then show ?thesis
      by (simp add: n reason_state_def Core_close_reason_def state_bits flag_clear_iff alone_fin)
  qed
qed

text \<open>The same outcome, with the panics and the undefined behaviour of both.\<close>

fun same_outcome :: "(('e, 'm) result \<times> ('e, 'ia, 'm) shared) outcome \<Rightarrow> ('e, 'ia, 'm) stepped \<Rightarrow> bool" where
  "same_outcome (Done (r, s)) (pc, s') = (pc = Fin r \<and> s' = s)"
| "same_outcome Panic (pc, s') = (pc = Panicked)"
| "same_outcome UB (pc, s') = (pc = Undefined)"
| "same_outcome Running _ = True"

lemma recv_alone:
  assumes "errored s \<longrightarrow> error s \<noteq> None"
  shows "same_outcome (sequential io Call_Recv s) (alone io 8 (Receiving Deq_Load) s)"
proof -
  let ?h = "dequeue_pos s"
  let ?pos = "drop_bit POS_SHIFT ?h"
  let ?v = "queue s ! unat (?pos AND MASK)"
  let ?dif = "drop_bit POS_SHIFT ?v - (?pos + 1)"
  have two: "alone io 8 (Receiving Deq_Load) s = (let (pc', s') = deq_slot ?h s in alone io 6 pc' s')"
    by (simp add: alone_unfold)
  show ?thesis
  proof (cases "sint ?dif < 0")
    case True
    show ?thesis
      using alone_reason [OF assms, of 6 io Recv_Side] True
      by (auto simp: two Core_try_dequeue_def deq_slot_def Let_def alone_fin split: option.splits)
  next
    case False
    show ?thesis
    proof (cases "?dif = 0")
      case True
      let ?i = "ucast (?v AND MASK) :: u8"
      let ?s1 = "s\<lparr>dequeue_pos := ?h + POS_ONE, queue := (queue s)[unat (?pos AND MASK) := ?v + LAP_ONE]\<rparr>"
      have seq: "Core_try_dequeue [True] s = Done (?s1, Ok ?i)"
        using True by (simp add: Core_try_dequeue_def Let_def)
      have "alone io 8 (Receiving Deq_Load) s = alone io 4 (Receiving (Take ?i)) ?s1"
        using True False by (simp add: two deq_slot_def deq_cas_def deq_store_def Let_def alone_unfold)
      then show ?thesis
        using seq by (auto simp: take_cell_def alone_unfold alone_fin Core_uncommit_def split: option.splits)
    next
      case nz: False
      then show ?thesis using False by (simp add: Core_try_dequeue_def Let_def)
    qed
  qed
qed

lemma commit_alone:
  assumes "errored s \<longrightarrow> error s \<noteq> None" and l: "log s = l"
  shows "same_outcome
     (outcome_map (\<lambda>(s2, r). (commit_answer r, if isl r then s2 else s2\<lparr>log := l @ [(i, m)]\<rparr>))
       (Core_commit_send [True] s i))
     (alone io 5 (Sending m (Commit_Load i)) s)"
proof (cases "ucast i \<le> MASK")
  case False
  then show ?thesis by (simp add: Core_commit_send_def alone_unfold alone_fin)
next
  case le: True
  let ?t = "enqueue_pos s"
  let ?pos = "drop_bit POS_SHIFT ?t"
  let ?dif = "drop_bit POS_SHIFT (queue s ! unat (?pos AND MASK)) - ?pos"
  have one: "alone io 5 (Sending m (Commit_Load i)) s = (let (pc', s') = commit_slot m i ?t s in alone io 3 pc' s')"
    using le by (simp add: alone_unfold)
  show ?thesis
  proof (cases "?t AND CLOSED = CLOSED")
    case True
    then show ?thesis
      using alone_reason [OF assms(1), of 3 io Send_Side] le
      by (auto simp: one Core_commit_send_def commit_slot_def split: option.splits)
  next
    case unclosed: False
    consider "sint ?dif < 0" | "\<not> sint ?dif < 0" "?dif = 0" | "\<not> sint ?dif < 0" "?dif \<noteq> 0" by blast
    then show ?thesis
    proof cases
      case 1
      then show ?thesis
        using le unclosed by (simp add: one Core_commit_send_def commit_slot_def Let_def alone_fin)
    next
      case 2
      then show ?thesis
        using le unclosed by (simp add: one Core_commit_send_def commit_slot_def commit_cas_def commit_store_def
            Let_def alone_unfold alone_fin l)
    next
      case 3
      then show ?thesis
        using le unclosed by (simp add: Core_commit_send_def Let_def)
    qed
  qed
qed

lemma send_alone:
  assumes "errored s \<longrightarrow> error s \<noteq> None"
  shows "same_outcome (sequential io (Call_Send m) s) (alone io 8 (Sending m Reserve_Load) s)"
proof (cases "enqueue_pos s AND CLOSED = CLOSED")
  case True
  then show ?thesis
    using alone_reason [OF assms, of 7 io Send_Side]
    by (auto simp: alone_unfold [of 8] reserve_load_def Core_try_reserve_def split: option.splits)
next
  case False
  obtain a ia where a: "ia_allocate io (indices s) = (a, ia)" by fastforce
  let ?s1 = "s\<lparr>indices := ia\<rparr>"
  have two: "alone io 8 (Sending m Reserve_Load) s =
      (case a of None \<Rightarrow> (Fin Send_Full, ?s1) | Some i \<Rightarrow> alone io 6 (Sending m (Write_Cell i)) ?s1)"
    using False a by (simp add: alone_unfold reserve_load_def reserve_alloc_def alone_fin split: option.split)
  show ?thesis
  proof (cases a)
    case None
    then show ?thesis using two False a by (simp add: Core_try_reserve_def)
  next
    case (Some i)
    let ?s2 = "?s1\<lparr>cells := (cells s)[unat i := Some m]\<rparr>"
    show ?thesis
    proof (cases "unat i < length (cells s)")
      case True
      have three: "alone io 8 (Sending m Reserve_Load) s = alone io 5 (Sending m (Commit_Load i)) ?s2"
        using two Some True by (simp add: alone_unfold [of 6] write_cell_def)
      have "errored ?s2 \<longrightarrow> error ?s2 \<noteq> None" using assms by (simp add: state_bits)
      from commit_alone [OF this, of "log s" i m io] show ?thesis
        unfolding three using Some True False a by (simp add: Core_try_reserve_def)
    next
      case no: False
      then have "alone io 8 (Sending m Reserve_Load) s = (Undefined, ?s1)"
        using two Some by (simp add: alone_unfold [of 6] write_cell_def alone_fin)
      then show ?thesis using Some no False a by (simp add: Core_try_reserve_def)
    qed
  qed
qed

lemma close_alone: "same_outcome (sequential io (Call_Error e) s) (alone io 8 (Closing (Err_Claim e)) s)"
  by (simp add: alone_unfold alone_fin err_claim_def Core_close_with_error_def Core_close_rx_def
      Core_close_tx_def Let_def)

lemma drop_alone:
  assumes "0 < tx_count s"
  shows "same_outcome (sequential io Call_Drop s) (alone io 8 (Handle Drop_Tx) s)"
proof (cases "drop_bit TX_SHIFT (state s) = 1")
  case True
  have "st_count (state s - 8) = 0"
    using True count_sub_tx [of "state s"] by (simp add: last_sender_iff)
  then have "drop_bit TX_SHIFT (state s - TX_ONE) = 0"
    by (simp add: st_count_def TX_ONE_value unat_eq_zero)
  with True show ?thesis
    by (simp add: alone_unfold alone_fin drop_tx_def drop_fence_def Core_drop_tx_def Core_close_tx_def Let_def)
next
  case False
  then show ?thesis by (simp add: alone_unfold alone_fin drop_tx_def Core_drop_tx_def Let_def)
qed

lemma clone_alone: "same_outcome (sequential io Call_Clone s) (alone io 8 (Handle Add_Tx) s)"
  by (simp add: alone_unfold alone_fin Core_add_tx_def)

lemma drop_rx_alone: "same_outcome (sequential io Call_Drop_Rx s) (alone io 8 (Handle Rx_Close) s)"
  by (simp add: alone_unfold alone_fin Core_close_rx_def)

end
