(* ===== verification/Core_Atomic_Progress.thy ===== *)
theory Core_Atomic_Progress
  imports Core_Atomic_Properties
begin

section \<open>Every call ends when it is left alone\<close>

text \<open>
  The retry loops of the channel core under interleaving: from any state that the threads reach, a
  thread that takes eight steps while the others pause has returned from its call, whatever the
  others left unfinished. \<open>rank\<close> bounds the steps that are left; a position word that a thread has
  read is fresh while it is the current one.
\<close>

fun send_rank :: "('e, 'ia, 'm) shared \<Rightarrow> send_pc \<Rightarrow> nat" where
  "send_rank s Reserve_Load = 8"
| "send_rank s Reserve_Alloc = 7"
| "send_rank s (Write_Cell i) = 6"
| "send_rank s (Commit_Load i) = 5"
| "send_rank s (Commit_Slot i tail) = (if tail = enqueue_pos s then 4 else 6)"
| "send_rank s (Commit_Cas i tail) = (if tail = enqueue_pos s then 3 else 5)"
| "send_rank s (Commit_Store i tail) = 2"
| "send_rank s Commit_Wake = 1"

fun recv_rank :: "('e, 'ia, 'm) shared \<Rightarrow> 'm recv_pc \<Rightarrow> nat" where
  "recv_rank s Deq_Load = 7"
| "recv_rank s (Deq_Slot h) = (if h = dequeue_pos s then 6 else 8)"
| "recv_rank s (Deq_Cas h v) = (if h = dequeue_pos s then 5 else 7)"
| "recv_rank s (Deq_Store h v) = 4"
| "recv_rank s (Take i) = 3"
| "recv_rank s (Uncommit_Free m i) = 2"
| "recv_rank s (Uncommit_Wake m) = 1"

fun close_rank :: "('e, 'm) close_pc \<Rightarrow> nat" where
  "close_rank (Err_Claim e) = 7"
| "close_rank (Err_Write e) = 6"
| "close_rank Err_Set = 5"
| "close_rank Err_Close_Rx = 4"
| "close_rank Err_Wake = 3"
| "close_rank (Close_Tx r) = 2"
| "close_rank (Close_Wake r) = 1"

fun handle_rank :: "handle_pc \<Rightarrow> nat" where
  "handle_rank Add_Tx = 1"
| "handle_rank Drop_Tx = 4"
| "handle_rank Drop_Fence = 3"
| "handle_rank Rx_Close = 2"
| "handle_rank Rx_Wake = 1"

fun rank :: "('e, 'ia, 'm) shared \<Rightarrow> ('e, 'm) pc \<Rightarrow> nat" where
  "rank s (Sending m p) = send_rank s p"
| "rank s (Receiving p) = recv_rank s p"
| "rank s (Reason_State x) = 2"
| "rank s (Reason_Error x) = 1"
| "rank s (Closing p) = close_rank p"
| "rank s (Handle p) = handle_rank p"
| "rank s pc = 0"

lemma rank_bound: "rank s pc \<le> 8"
proof (cases pc)
  case (Sending m p)
  then show ?thesis by (cases p) simp_all
next
  case (Receiving p)
  then show ?thesis by (cases p) simp_all
next
  case (Closing p)
  then show ?thesis by (cases p) simp_all
next
  case (Handle p)
  then show ?thesis by (cases p) simp_all
qed simp_all

lemma rank_zero: "rank s pc = 0 \<Longrightarrow> pc_ok s pc \<Longrightarrow> is_Fin pc"
proof (cases pc)
  case (Sending m p)
  then show "rank s pc = 0 \<Longrightarrow> ?thesis" by (cases p) (simp_all split: if_splits)
next
  case (Receiving p)
  then show "rank s pc = 0 \<Longrightarrow> ?thesis" by (cases p) (simp_all split: if_splits)
next
  case (Closing p)
  then show "rank s pc = 0 \<Longrightarrow> ?thesis" by (cases p) simp_all
next
  case (Handle p)
  then show "rank s pc = 0 \<Longrightarrow> ?thesis" by (cases p) simp_all
qed simp_all

subsection \<open>Every step of a thread left alone brings it nearer to the end\<close>

lemma fresh_slot:
  assumes inv: "atomic_ok fr m P n" and pc: "P t = Sending x (Commit_Slot i (enqueue_pos m))"
    and st: "commit_slot x i (enqueue_pos m) m = (pc', m')"
  shows "pc' = Reason_State Send_Side \<or> pc' = Sending x (Commit_Cas i (enqueue_pos m))"
proof (cases "enqueue_pos m AND CLOSED = CLOSED")
  case True
  then show ?thesis using st by (simp add: commit_slot_def)
next
  case False
  note A = atomic_okD [OF inv]
  let ?pos = "drop_bit POS_SHIFT (enqueue_pos m)"
  have pos: "unat (enqueue_pos m) div 64 = length (log m)" using ring_okD(5) [OF A(1)] by simp
  have own: "own (P t) = Some i" "\<not> stalled (P t)" using pc by simp_all
  have "unat (queue m ! (length (log m) mod 64)) div 64 = length (log m)"
    by (rule tail_slot [OF A(1) sender_room [OF inv own]])
  then have "unat (drop_bit POS_SHIFT (queue m ! unat (?pos AND MASK))) = unat ?pos"
    by (simp add: layout_simps pos)
  then have "drop_bit POS_SHIFT (queue m ! unat (?pos AND MASK)) = ?pos"
    by (rule word_unat_eq_iff [THEN iffD2])
  then show ?thesis using st False by (auto simp: commit_slot_def Let_def)
qed

lemma send_rank_less:
  assumes inv: "atomic_ok fr m P n" and t: "P t = Sending x p"
    and st: "send_step io True x p m = (pc', m')"
  shows "rank m' pc' < send_rank m p"
proof (cases p)
  case (Commit_Slot i tail)
  then show ?thesis
  proof (cases "tail = enqueue_pos m")
    case True
    have slot: "commit_slot x i (enqueue_pos m) m = (pc', m')" using st Commit_Slot True by simp
    then have "m' = m" by (simp add: commit_slot_def)
    moreover have "pc' = Reason_State Send_Side \<or> pc' = Sending x (Commit_Cas i (enqueue_pos m))"
      using t Commit_Slot True by (intro fresh_slot [OF inv _ slot, of t]) simp
    ultimately show ?thesis using Commit_Slot True by auto
  next
    case False
    then show ?thesis using st Commit_Slot by (auto simp: commit_slot_def Let_def split: if_splits)
  qed
next
  case Reserve_Alloc
  then show ?thesis using st by (auto simp: reserve_alloc_def split: option.splits prod.splits)
qed (use st in \<open>auto simp: reserve_load_def write_cell_def commit_cas_def commit_store_def Let_def
      split: if_splits\<close>)

lemma fresh_head:
  assumes inv: "atomic_ok fr m P n" and "recv_ok m (Deq_Slot h)" and st: "deq_slot h m = (pc', m')"
  shows "pc' \<noteq> Receiving Deq_Load"
proof
  assume pc': "pc' = Receiving Deq_Load"
  note A = atomic_okD [OF inv]
  let ?H = "Core_head m"
  let ?w = "queue m ! (?H mod 64)"
  have h: "unat h div 64 = ?H" using assms(2) by simp
  have H: "?H \<le> length (log m)" "length (log m) \<le> 960" by (rule ring_okD [OF A(1)])+
  have ne: "\<not> sint (drop_bit POS_SHIFT ?w - (drop_bit POS_SHIFT h + 1)) < 0"
      "drop_bit POS_SHIFT ?w - (drop_bit POS_SHIFT h + 1) \<noteq> 0"
    using st pc' h by (auto simp: deq_slot_def Let_def layout_simps split: if_splits)
  have succ: "unat (drop_bit POS_SHIFT h + 1) = ?H + 1"
    using pos_succ [of "drop_bit POS_SHIFT h"] h H by (simp add: unat_pos)
  have "unat (drop_bit POS_SHIFT ?w) < 32768" using unat_u16_less [of ?w] by (simp add: unat_pos)
  then have ge: "?H + 1 \<le> unat ?w div 64"
    using ne(1) succ H sint_dif [of "drop_bit POS_SHIFT ?w" "drop_bit POS_SHIFT h + 1"]
    by (simp add: unat_pos)
  have "unat ?w div 64 \<le> ?H + 1"
    using ring_slot [OF A(1), of ?H] ring_okD(4) [OF A(1), of ?H] by (auto split: if_splits)
  with ge have "unat (drop_bit POS_SHIFT ?w) = unat (drop_bit POS_SHIFT h + 1)"
    by (simp add: unat_pos succ)
  then show False using ne(2) by (simp add: word_unat_eq_iff [symmetric])
qed

lemma recv_rank_less:
  assumes inv: "atomic_ok fr m P n" and t: "P t = Receiving p"
    and st: "recv_step io True p m = (pc', m')"
  shows "rank m' pc' < recv_rank m p"
proof (cases p)
  case (Deq_Slot h)
  have "recv_ok m (Deq_Slot h)" using atomic_okD(4) [OF inv, of t] t Deq_Slot by simp
  then have "pc' \<noteq> Receiving Deq_Load" using fresh_head [OF inv] st Deq_Slot by simp
  then show ?thesis
    using st Deq_Slot by (auto simp: deq_slot_def Let_def split: if_splits)
qed (use st in \<open>auto simp: deq_cas_def deq_store_def take_cell_def Let_def split: if_splits option.splits\<close>)

lemma pc_rank_less:
  assumes inv: "atomic_ok fr m P n" and "\<not> is_Fin (P t)"
    and st: "pc_step io True (P t) m = (pc', m')"
  shows "rank m' pc' < rank m (P t)"
proof (cases "P t")
  case (Sending x p)
  then show ?thesis using send_rank_less [OF inv Sending, of io pc' m'] st by simp
next
  case (Receiving p)
  then show ?thesis using recv_rank_less [OF inv Receiving, of io pc' m'] st by simp
next
  case (Closing p)
  then show ?thesis using st by (cases p) (auto simp: err_claim_def split: if_splits)
next
  case (Handle p)
  then show ?thesis using st by (cases p) (auto simp: drop_tx_def drop_fence_def split: if_splits)
next
  case (Fin r)
  then show ?thesis using assms(2) by simp
qed (use st assms(2) atomic_okD(4) [OF inv, of t] in
    \<open>auto simp: reason_state_def reason_error_def split: if_splits option.splits\<close>)

subsection \<open>Eight steps are enough\<close>

fun will_claim :: "('e, 'm) pc \<Rightarrow> bool" where
  "will_claim (Sending m p) = (p \<noteq> Commit_Wake \<and> (\<forall>i tail. p \<noteq> Commit_Store i tail))"
| "will_claim _ = False"

lemma claim_log:
  assumes "pc_step io ok pc m = (pc', m')"
  shows "length (log m') + of_bool (will_claim pc') \<le> length (log m) + of_bool (will_claim pc)"
proof (cases pc)
  case (Sending x p)
  then have st: "send_step io ok x p m = (pc', m')" using assms by simp
  show ?thesis
    using Sending st by (cases p) (auto simp: step_defs split: if_splits option.splits prod.splits)
next
  case (Receiving p)
  then have st: "recv_step io ok p m = (pc', m')" using assms by simp
  then show ?thesis using Receiving recv_step_state [OF st] recv_step_pc [OF st] by auto
next
  case (Closing p)
  then show ?thesis using assms by (cases p) (auto simp: err_claim_def split: if_splits)
next
  case (Handle p)
  then show ?thesis using assms by (cases p) (auto simp: drop_tx_def drop_fence_def split: if_splits)
qed (use assms in \<open>auto simp: reason_state_def reason_error_def split: option.splits if_splits\<close>)

lemma fin_stays: "is_Fin (pcs s t) \<Longrightarrow> is_Fin (pcs (run io (replicate n (Tick t True)) s) t)"
proof (induction n arbitrary: s)
  case (Suc n)
  then have "pcs (act io (Tick t True) s) t = pcs s t" by (cases "pcs s t") simp_all
  with Suc show ?case by (simp del: act.simps)
qed simp

lemma alone_ends:
  assumes io: "index_alloc io fr" and "atomic_inv fr s" "close_inv s" "t < nthreads s"
    and "length (log (mem s)) + of_bool (will_claim (pcs s t)) \<le> 960" and "rank (mem s) (pcs s t) \<le> n"
  shows "is_Fin (pcs (run io (replicate n (Tick t True)) s) t)"
  using assms(2-)
proof (induction n arbitrary: s)
  case 0
  then show ?case
    using rank_zero [of "mem s" "pcs s t"] atomic_okD(4) [of fr "mem s" "pcs s" "nthreads s" t]
    by (simp add: atomic_inv_def)
next
  case (Suc n)
  obtain pc' m' where st: "pc_step io True (pcs s t) (mem s) = (pc', m')" by fastforce
  let ?s' = "act io (Tick t True) s"
  have s': "mem ?s' = m'" "pcs ?s' t = pc'" "nthreads ?s' = nthreads s" using st by simp_all
  show ?case
  proof (cases "is_Fin (pcs s t) \<or> pcs s t = Handle Add_Tx")
    case True
    then have "is_Fin (pcs ?s' t)" using s'(2) st by (cases "pcs s t") auto
    then show ?thesis using fin_stays by (simp del: act.simps)
  next
    case False
    have "length (log (mem ?s')) + of_bool (will_claim (pcs ?s' t)) \<le> 960"
      using claim_log [OF st] Suc.prems(4) unfolding s' by simp
    moreover from this have "length (log (mem ?s')) \<le> 960" by simp
    moreover have "atomic_inv fr ?s' \<and> close_inv ?s'"
      by (rule tick_inv [OF io Suc.prems(1-3)]) (use False calculation(2) in simp_all)
    moreover have "rank (mem ?s') (pcs ?s' t) \<le> n"
      using pc_rank_less [OF Suc.prems(1) [unfolded atomic_inv_def] _ st] False Suc.prems(5)
      unfolding s' by simp
    ultimately have "is_Fin (pcs (run io (replicate n (Tick t True)) ?s') t)"
      using Suc.IH [of ?s'] Suc.prems(3) s'(3) by simp
    then show ?thesis by (simp del: act.simps)
  qed
qed



end
