(* ===== verification/Core_Atomic_Limits.thy ===== *)
theory Core_Atomic_Limits
  imports Core_Atomic_Properties
begin

section \<open>Where the guarantees end\<close>

text \<open>
  The two hypotheses of the theorems on interleavings are needed. One receiver: \<open>Receiver\<close> is \<open>Sync\<close>
  and receives through a shared reference; when one thread takes a message and is interrupted
  before it has freed the slot, and another goes on receiving, the positions come round to the slot
  and a sender panics. 960 messages: the sequence numbers of the slots then wrap, and a sender that
  has read its position and is interrupted panics when others have used the position.
\<close>

subsection \<open>A call that is not interrupted\<close>

fun transfer :: "('e, 'm) pc \<Rightarrow> bool" where
  "transfer (Closing p) = False"
| "transfer (Handle p) = False"
| "transfer _ = True"

lemma transfer_step:
  assumes "transfer pc" and "pc_step io ok pc m = (pc', m')"
  shows "transfer pc'" and "senders_after pc k = k"
proof -
  show "transfer pc'"
  proof (cases pc)
    case (Sending x p)
    then show ?thesis using assms send_step_frame(4) [of io ok x p m pc' m'] by auto
  next
    case (Receiving p)
    then show ?thesis using assms recv_step_pc [of io ok p m pc' m'] by auto
  qed (use assms in \<open>auto simp: reason_state_def reason_error_def split: option.splits if_splits\<close>)
  show "senders_after pc k = k" using assms(1) by (cases pc) simp_all
qed

lemma ticks_alone:
  assumes "alone io n (pcs s t) (mem s) = (pc', m')" and "transfer (pcs s t)" and "t < nthreads s"
  shows "run io (replicate n (Tick t True)) s = s\<lparr>mem := m', pcs := (pcs s)(t := pc')\<rparr> \<and>
    may_run io one_rx (replicate n (Tick t True)) s"
  using assms
proof (induction n arbitrary: s)
  case 0
  have "(pcs s)(t := pcs s t) = pcs s" by (rule fun_upd_triv)
  with 0 show ?case by (cases s) auto
next
  case (Suc n)
  obtain pc1 m1 where st: "pc_step io True (pcs s t) (mem s) = (pc1, m1)" by fastforce
  let ?s1 = "s\<lparr>mem := m1, pcs := (pcs s)(t := pc1)\<rparr>"
  note T = transfer_step [OF Suc.prems(2) st]
  have act: "act io (Tick t True) s = ?s1" using st T(2) by simp
  have "run io (replicate n (Tick t True)) ?s1 = ?s1\<lparr>mem := m', pcs := (pcs ?s1)(t := pc')\<rparr> \<and>
      may_run io one_rx (replicate n (Tick t True)) ?s1"
    using Suc.prems(1,3) st T(1) by (intro Suc.IH) simp_all
  moreover have "?s1\<lparr>mem := m', pcs := (pcs ?s1)(t := pc')\<rparr> = s\<lparr>mem := m', pcs := (pcs s)(t := pc')\<rparr>"
    by simp
  moreover have "may_act one_rx s (Tick t True)" using Suc.prems(2,3) by auto
  ultimately show ?case
    unfolding replicate_Suc run_simps may_run.simps act by (simp only: simp_thms)
qed

text \<open>A send or a receive that runs to its end: what \<open>sequential\<close> says.\<close>

definition whole_call :: "nat \<Rightarrow> ('e, 'm) call \<Rightarrow> ('e, 'm) action list" where
  "whole_call t c = Begin t c # replicate 8 (Tick t True)"

lemma whole_call_run:
  fixes s :: "('e, 'ia, 'm) threaded"
  assumes may: "may_act one_rx s (Begin t c)" and c: "c = Call_Recv \<or> (\<exists>x. c = Call_Send x)"
    and ok: "errored (mem s) \<longrightarrow> error (mem s) \<noteq> None"
  shows "sequential io c (mem s) = Done (r, m') \<Longrightarrow>
      run io (whole_call t c) s = s\<lparr>mem := m', pcs := (pcs s)(t := Fin r)\<rparr>"
    and "sequential io c (mem s) = Panic \<Longrightarrow> pcs (run io (whole_call t c) s) t = Panicked"
    and "may_run io one_rx (whole_call t c) s"
proof -
  let ?s1 = "s\<lparr>pcs := (pcs s)(t := call_pc c)\<rparr>"
  obtain pc' m1 where al: "alone io 8 (call_pc c) (mem s) = (pc', m1)" by fastforce
  have act: "act io (Begin t c) s = ?s1" using c by auto
  have "run io (replicate 8 (Tick t True)) ?s1 = ?s1\<lparr>mem := m1, pcs := (pcs ?s1)(t := pc')\<rparr> \<and>
      may_run io one_rx (replicate 8 (Tick t True)) ?s1"
    by (rule ticks_alone) (use al c may in auto)
  then have run: "run io (whole_call t c) s = s\<lparr>mem := m1, pcs := (pcs s)(t := pc')\<rparr>"
    and "may_run io one_rx (whole_call t c) s"
    using act may by (simp_all add: whole_call_def)
  then show "may_run io one_rx (whole_call t c) s" by simp
  have same: "same_outcome (sequential io c (mem s)) (pc', m1)"
    using c al
  proof (elim disjE exE)
    fix x assume x: "c = Call_Send x"
    show ?thesis using send_alone [OF ok, of io x] al x by (simp del: sequential.simps)
  qed (use recv_alone [OF ok, of io] in \<open>simp del: sequential.simps\<close>)
  show "run io (whole_call t c) s = s\<lparr>mem := m', pcs := (pcs s)(t := Fin r)\<rparr>"
    if "sequential io c (mem s) = Done (r, m')"
    using same run that by simp
  show "pcs (run io (whole_call t c) s) t = Panicked" if "sequential io c (mem s) = Panic"
    using same run that by simp
qed

lemma whole_call_other:
  fixes s :: "('e, 'ia, 'm) threaded"
  assumes u: "u \<noteq> t"
  shows "pcs (run io (whole_call t c) s) u = pcs s u"
proof -
  have tick: "pcs (act io (Tick t ok) s) u = pcs s u" for s :: "('e, 'ia, 'm) threaded" and ok
    using u by (simp split: prod.split)
  have "pcs (run io (replicate n (Tick t True)) s) u = pcs s u"
    for n and s :: "('e, 'ia, 'm) threaded"
    by (induction n arbitrary: s) (simp_all add: tick del: act.simps)
  then show ?thesis using u by (simp add: whole_call_def)
qed

subsection \<open>One lap behind a stalled receiver\<close>

text \<open>
  After \<open>p\<close> messages, the first of which the stalled thread has taken: slot 0 still has the
  sequence number 1, and of the two indices the first is not free.
\<close>

definition held_word :: usize where
  "held_word = NOT (mask 2) OR 1"

definition lagging :: "nat \<Rightarrow> ('e, usize, 'm) shared \<Rightarrow> bool" where
  "lagging p m \<longleftrightarrow>
     length (queue m) = 64 \<and> unat (enqueue_pos m) = 64 * p \<and> unat (dequeue_pos m) = 64 * p \<and>
     unat (queue m ! 0) div 64 = 1 \<and> (\<forall>j. p \<le> j \<longrightarrow> j < 64 \<longrightarrow> unat (queue m ! j) = 64 * j) \<and>
     indices m = held_word \<and> length (cells m) = 2 \<and> \<not> errored m \<and> length (log m) = p"

lemma held_index:
  "ia_allocate bitmap_ops held_word = (Some 1, - 1)" "ia_free bitmap_ops 1 (- 1) = held_word"
  by code_simp+

lemma lagging_send:
  assumes l: "lagging p m" and p: "1 \<le> p" "p < 64"
  shows "sequential bitmap_ops (Call_Send x) m = Done (Sent,
     m\<lparr>indices := - 1, cells := (cells m)[1 := Some x], enqueue_pos := enqueue_pos m + POS_ONE,
       queue := (queue m)[p := ucast (1 :: u8) OR push_bit POS_SHIFT (drop_bit POS_SHIFT (enqueue_pos m) + 1)],
       cons_wait := cons_wait m @ [Wake], log := log m @ [(1, x)]\<rparr>)"
proof -
  have enq: "unat (enqueue_pos m) = 64 * p" and slot: "unat (queue m ! p) = 64 * p"
    using l p by (simp_all add: lagging_def)
  have "unat (drop_bit POS_SHIFT (queue m ! p)) = unat (drop_bit POS_SHIFT (enqueue_pos m))"
    by (simp add: unat_pos enq slot)
  then have dif: "drop_bit POS_SHIFT (queue m ! p) = drop_bit POS_SHIFT (enqueue_pos m)"
    by (rule word_unat_eq_iff [THEN iffD2])
  have idx: "unat (drop_bit POS_SHIFT (enqueue_pos m) AND MASK) = p"
    using p enq by (simp add: layout_simps)
  have fine: "enqueue_pos m AND CLOSED \<noteq> CLOSED" using enq by (simp add: closed_iff)
  have "Core_try_reserve bitmap_ops m = (m\<lparr>indices := - 1\<rparr>, Ok 1)"
    using l fine held_index(1) by (simp add: Core_try_reserve_def lagging_def)
  moreover have "ucast (1 :: u8) \<le> MASK" by (simp add: MASK_value)
  ultimately show ?thesis
    using l fine dif idx by (simp add: Core_commit_send_def Let_def lagging_def)
qed

lemma lagging_round:
  assumes l: "lagging p m" and p: "1 \<le> p" "p < 64"
  shows "\<exists>m1 m2. sequential bitmap_ops (Call_Send x) m = Done (Sent, m1) \<and>
     sequential bitmap_ops Call_Recv m1 = Done (Received x, m2) \<and> lagging (p + 1) m2 \<and> \<not> errored m1"
proof -
  define w where "w = (ucast (1 :: u8) OR push_bit POS_SHIFT (drop_bit POS_SHIFT (enqueue_pos m) + 1) :: u16)"
  let ?m1 = "m\<lparr>indices := - 1, cells := (cells m)[1 := Some x], enqueue_pos := enqueue_pos m + POS_ONE,
       queue := (queue m)[p := w], cons_wait := cons_wait m @ [Wake], log := log m @ [(1, x)]\<rparr>"
  note L = l [unfolded lagging_def]
  have send: "sequential bitmap_ops (Call_Send x) m = Done (Sent, ?m1)"
    using lagging_send [OF l p] unfolding w_def .
  have w: "unat w = 64 * (p + 1) + 1"
    using unat_commit_word [of 1 "drop_bit POS_SHIFT (enqueue_pos m)"] L p by (simp add: unat_pos w_def)
  have deq: "unat (dequeue_pos m) = 64 * p" using L by simp
  have idx: "unat (drop_bit POS_SHIFT (dequeue_pos m) AND MASK) = p"
    using p deq by (simp add: layout_simps)
  have "unat (drop_bit POS_SHIFT w) = unat (drop_bit POS_SHIFT (dequeue_pos m) + 1)"
    using pos_succ [of "drop_bit POS_SHIFT (dequeue_pos m)"] p by (simp add: unat_pos w deq)
  then have dif: "drop_bit POS_SHIFT w - (drop_bit POS_SHIFT (dequeue_pos m) + 1) = 0"
    by (simp add: word_unat_eq_iff [symmetric])
  have i: "(ucast (w AND MASK) :: u8) = 1"
    by (simp add: word_unat_eq_iff layout_simps unat_ucast_u8 w)
  let ?m2 = "Core_uncommit bitmap_ops (?m1\<lparr>dequeue_pos := dequeue_pos m + POS_ONE,
      queue := (queue m)[p := w + LAP_ONE], cells := (cells m)[1 := None]\<rparr>) 1"
  have "Core_try_dequeue [True] ?m1 = Done (?m1\<lparr>dequeue_pos := dequeue_pos m + POS_ONE,
      queue := (queue m)[p := w + LAP_ONE]\<rparr>, Ok 1)"
    using dif idx i L p by (simp add: Core_try_dequeue_def Let_def)
  then have recv: "sequential bitmap_ops Call_Recv ?m1 = Done (Received x, ?m2)"
    using L by simp
  have "unat (enqueue_pos m + POS_ONE) = 64 * (p + 1)" "unat (dequeue_pos m + POS_ONE) = 64 * (p + 1)"
    using L p by (simp_all add: POS_ONE_value unat_word_ariths)
  then have "lagging (p + 1) ?m2"
    using L p held_index(2) by (simp add: lagging_def Core_uncommit_def state_bits)
  moreover have "\<not> errored ?m1" using L by (simp add: state_bits)
  ultimately show ?thesis using send recv by blast
qed

text \<open>At position 64 the sender meets the slot the stalled receiver has not freed.\<close>

lemma lagging_panics:
  assumes "lagging 64 m"
  shows "sequential bitmap_ops (Call_Send x) m = Panic"
proof -
  note L = assms [unfolded lagging_def]
  have idx: "unat (drop_bit POS_SHIFT (enqueue_pos m) AND MASK) = 0"
    using L by (simp add: layout_simps)
  have "sint (drop_bit POS_SHIFT (queue m ! 0) - drop_bit POS_SHIFT (enqueue_pos m)) < 0"
    using L sint_dif [of "drop_bit POS_SHIFT (queue m ! 0)" "drop_bit POS_SHIFT (enqueue_pos m)"]
    by (simp add: unat_pos)
  moreover have fine: "enqueue_pos m AND CLOSED \<noteq> CLOSED" using L by (simp add: closed_iff)
  moreover have "Core_try_reserve bitmap_ops m = (m\<lparr>indices := - 1\<rparr>, Ok 1)"
    using L fine held_index(1) by (simp add: Core_try_reserve_def)
  moreover have "ucast (1 :: u8) \<le> MASK" by (simp add: MASK_value)
  ultimately show ?thesis
    using L idx by (simp add: Core_commit_send_def Let_def)
qed

subsection \<open>The run\<close>

definition lag_state :: "nat \<Rightarrow> (u8, usize, u8) threaded \<Rightarrow> bool" where
  "lag_state p s \<longleftrightarrow>
     interleaved bitmap_ops False s \<and> nthreads s = 3 \<and> rx_live s \<and> 0 < senders s 0 \<and>
     is_Fin (pcs s 0) \<and> is_Fin (pcs s 2) \<and> stalled (pcs s 1) \<and> lagging p (mem s)"

lemma lag_round:
  assumes s: "lag_state p s" and p: "1 \<le> p" "p < 64"
  shows "\<exists>s'. lag_state (p + 1) s'"
proof -
  note S = s [unfolded lag_state_def]
  obtain m1 m2 where m: "sequential bitmap_ops (Call_Send 7) (mem s) = Done (Sent, m1)"
      "sequential bitmap_ops Call_Recv m1 = Done (Received 7, m2)" "lagging (p + 1) m2" "\<not> errored m1"
    using lagging_round [of p "mem s" 7] S p by blast
  let ?s1 = "s\<lparr>mem := m1, pcs := (pcs s)(0 := Fin Sent)\<rparr>"
  have ok: "errored (mem s) \<longrightarrow> error (mem s) \<noteq> None" using S by (simp add: lagging_def)
  have may1: "may_act False s (Begin 0 (Call_Send 7))" using S by simp
  have run1: "run bitmap_ops (whole_call 0 (Call_Send 7)) s = ?s1"
    by (rule whole_call_run(1) [OF may1 _ ok m(1)]) simp
  have i1: "interleaved bitmap_ops False ?s1"
    unfolding run1 [symmetric]
    by (rule interleaved_run) (use S whole_call_run(3) [OF may1 _ ok] in simp_all)
  let ?s2 = "?s1\<lparr>mem := m2, pcs := (pcs ?s1)(2 := Fin (Received 7))\<rparr>"
  have may2: "may_act False ?s1 (Begin 2 Call_Recv)" using S by simp
  have ok2: "errored (mem ?s1) \<longrightarrow> error (mem ?s1) \<noteq> None" using m(4) by simp
  have run2: "run bitmap_ops (whole_call 2 Call_Recv) ?s1 = ?s2"
    by (rule whole_call_run(1) [OF may2 _ ok2]) (use m(2) in \<open>simp_all del: sequential.simps\<close>)
  have "interleaved bitmap_ops False ?s2"
    unfolding run2 [symmetric]
    by (rule interleaved_run [OF i1]) (rule whole_call_run(3) [OF may2 _ ok2], simp)
  then have "lag_state (p + 1) ?s2" using S m(3) by (simp add: lag_state_def)
  then show ?thesis by blast
qed

lemma lag_reaches: "lag_state 1 s \<Longrightarrow> n < 64 \<Longrightarrow> \<exists>s'. lag_state (n + 1) s'"
proof (induction n)
  case (Suc n)
  then obtain s' where "lag_state (n + 1) s'" by auto
  from lag_round [OF this] Suc.prems(2) show ?case by simp
qed auto

definition pair_core :: "(u8, usize) core" where
  "pair_core = (case Core_new bitmap_ops 2 of Done c \<Rightarrow> c | _ \<Rightarrow> undefined)"

definition interrupted :: "(u8, usize, u8) threaded" where
  "interrupted = run bitmap_ops (whole_call 0 (Call_Send 5) @ Begin 1 Call_Recv # replicate 3 (Tick 1 True))
     (threads_new pair_core 3)"

lemma interrupted_lags: "lag_state 1 interrupted"
proof -
  let ?acts = "whole_call 0 (Call_Send 5) @ Begin 1 Call_Recv # replicate 3 (Tick 1 True) :: (u8, u8) action list"
  have "Core_new bitmap_ops 2 = Done (pair_core :: (u8, usize) core)"
    by (simp add: pair_core_def Core_new_def MAX_CAPACITY_def)
  then have "interleaved bitmap_ops False (threads_new pair_core 3 :: (u8, usize, u8) threaded)"
    by (rule interleaved.Start) simp
  moreover have "may_run bitmap_ops False ?acts (threads_new pair_core 3)" by code_simp
  ultimately have "interleaved bitmap_ops False interrupted"
    unfolding interrupted_def by (rule interleaved_run)
  moreover have "nthreads interrupted = 3 \<and> rx_live interrupted \<and> 0 < senders interrupted 0 \<and>
      is_Fin (pcs interrupted 0) \<and> is_Fin (pcs interrupted 2) \<and> stalled (pcs interrupted 1)"
    by code_simp
  moreover have "lagging 1 (mem interrupted)"
  proof -
    have q: "map unat (drop 1 (queue (mem interrupted))) = map (\<lambda>j. 64 * j) [1..<64]" by code_simp
    have "unat (queue (mem interrupted) ! j) = 64 * j"
      if "1 \<le> j" "j < 64" "length (queue (mem interrupted)) = 64" for j
      using arg_cong [OF q, of "\<lambda>xs. xs ! (j - 1)"] that by simp
    moreover have "length (queue (mem interrupted)) = 64 \<and> unat (enqueue_pos (mem interrupted)) = 64 \<and>
        unat (dequeue_pos (mem interrupted)) = 64 \<and> unat (queue (mem interrupted) ! 0) div 64 = 1 \<and>
        indices (mem interrupted) = held_word \<and> length (cells (mem interrupted)) = 2 \<and>
        \<not> errored (mem interrupted) \<and> length (log (mem interrupted)) = 1"
      by code_simp
    ultimately show ?thesis by (auto simp: lagging_def)
  qed
  ultimately show ?thesis by (simp add: lag_state_def)
qed


subsection \<open>A sender interrupted at position 960\<close>

text \<open>One message sent and received, with any free index.\<close>

lemma round_rep:
  fixes m :: "('e, 'ia, 'm) shared"
  assumes rep: "core_rep m p [] False False" and p: "p < 1023"
    and io: "ia_allocate io (indices m) = (Some i, ia)" "ia_free io i ia = indices m"
    and i: "unat i < length (cells m)" "unat i < 64" and ok: "\<not> errored m"
  shows "\<exists>m1 m2. sequential io (Call_Send x) m = Done (Sent, m1) \<and>
     sequential io Call_Recv m1 = Done (Received x, m2) \<and> core_rep m2 (p + 1) [] False False \<and>
     indices m2 = indices m \<and> length (cells m2) = length (cells m) \<and> \<not> errored m1 \<and> \<not> errored m2 \<and>
     length (log m2) = length (log m) + 1"
proof -
  let ?a = "m\<lparr>indices := ia, cells := (cells m)[unat i := Some x]\<rparr>"
  have rep_a: "core_rep ?a p [] False False" using rep by (simp add: core_rep_def)
  let ?m1 = "(Core_committed ?a i)\<lparr>log := log m @ [(i, x)]\<rparr>"
  have "enqueue_pos m AND CLOSED \<noteq> CLOSED" using rep_enqueue_pos(3) [OF rep] by simp
  then have "Core_try_reserve io m = (m\<lparr>indices := ia\<rparr>, Ok i)" using io(1) by (simp add: Core_try_reserve_def)
  moreover have "Core_commit_send [True] ?a i = Done (Core_committed ?a i, Ok ())"
    by (rule commit_send_open [OF rep_a _ i(2)]) simp_all
  ultimately have send: "sequential io (Call_Send x) m = Done (Sent, ?m1)" using i(1) by simp
  have rep1: "core_rep ?m1 p [i] False False"
    using Core_committed_rep [OF rep_a _ i(2)] by (simp add: core_rep_def)
  let ?d = "Core_dequeued ?m1"
  have rep2: "core_rep ?d (p + 1) [] False False" by (rule Core_dequeued_rep [OF rep1]) (use p in simp)
  have cells: "cells ?d = (cells m)[unat i := Some x]" "indices ?d = ia" "log ?d = log m @ [(i, x)]"
    by (simp_all add: Core_dequeued_def Core_committed_def Let_def)
  let ?m2 = "Core_uncommit io (?d\<lparr>cells := (cells ?d)[unat i := None]\<rparr>) i"
  have "Core_try_dequeue [True] ?m1 = Done (?d, Ok i)"
    by (rule try_dequeue_some [OF rep1]) (use p in simp_all)
  then have recv: "sequential io Call_Recv ?m1 = Done (Received x, ?m2)" using i(1) cells by simp
  have "core_rep ?m2 (p + 1) [] False False" using rep2 by (simp add: core_rep_def Core_uncommit_def)
  moreover have "indices ?m2 = indices m" "length (cells ?m2) = length (cells m)"
    "length (log ?m2) = length (log m) + 1"
    using cells io(2) by (simp_all add: Core_uncommit_def)
  moreover have "\<not> errored ?m1" "\<not> errored ?m2" using ok by (simp_all add: state_bits)
  ultimately show ?thesis using send recv by blast
qed

text \<open>Threads 0 and 2 pass one message on, while thread 1 stays where it is.\<close>

definition even_state :: "usize \<Rightarrow> nat \<Rightarrow> ((u8, u8) pc \<Rightarrow> bool) \<Rightarrow> (u8, usize, u8) threaded \<Rightarrow> bool" where
  "even_state w p Q s \<longleftrightarrow>
     interleaved bitmap_ops True s \<and> nthreads s = 3 \<and> rx_live s \<and> 0 < senders s 0 \<and> 0 < senders s 1 \<and>
     is_Fin (pcs s 0) \<and> is_Fin (pcs s 2) \<and> \<not> receiving (pcs s 1) \<and> Q (pcs s 1) \<and>
     core_rep (mem s) p [] False False \<and> indices (mem s) = w \<and> length (cells (mem s)) = 2 \<and>
     \<not> errored (mem s) \<and> length (log (mem s)) = p"

lemma even_round:
  assumes s: "even_state w p Q s" and p: "p < 1023"
    and io: "ia_allocate bitmap_ops w = (Some i, ia)" "ia_free bitmap_ops i ia = w" "unat i < 2"
  shows "\<exists>s'. even_state w (p + 1) Q s'"
proof -
  note S = s [unfolded even_state_def]
  obtain m1 m2 where m: "sequential bitmap_ops (Call_Send 7) (mem s) = Done (Sent, m1)"
      "sequential bitmap_ops Call_Recv m1 = Done (Received 7, m2)" "core_rep m2 (p + 1) [] False False"
      "indices m2 = w" "length (cells m2) = 2" "\<not> errored m1" "\<not> errored m2" "length (log m2) = p + 1"
    using round_rep [of "mem s" p bitmap_ops i ia 7] S p io by auto
  let ?s1 = "s\<lparr>mem := m1, pcs := (pcs s)(0 := Fin Sent)\<rparr>"
  have ok: "errored (mem s) \<longrightarrow> error (mem s) \<noteq> None" using S by simp
  have may1: "may_act True s (Begin 0 (Call_Send 7))" using S by simp
  have run1: "run bitmap_ops (whole_call 0 (Call_Send 7)) s = ?s1"
    by (rule whole_call_run(1) [OF may1 _ ok m(1)]) simp
  have i1: "interleaved bitmap_ops True ?s1"
    unfolding run1 [symmetric]
    by (rule interleaved_run) (use S whole_call_run(3) [OF may1 _ ok] in simp_all)
  let ?s2 = "?s1\<lparr>mem := m2, pcs := (pcs ?s1)(2 := Fin (Received 7))\<rparr>"
  have three: "u < 3 \<Longrightarrow> u = 0 \<or> u = 1 \<or> u = 2" for u :: nat by linarith
  have idle: "\<not> receiving pc" if "is_Fin pc" for pc :: "(u8, u8) pc" using that by (cases pc) simp_all
  have "\<not> receiving (pcs ?s1 u)" if "u < 3" for u
    using three [OF that] S idle by auto
  then have may2: "may_act True ?s1 (Begin 2 Call_Recv)" using S by simp
  have ok2: "errored (mem ?s1) \<longrightarrow> error (mem ?s1) \<noteq> None" using m(6) by simp
  have run2: "run bitmap_ops (whole_call 2 Call_Recv) ?s1 = ?s2"
    by (rule whole_call_run(1) [OF may2 _ ok2]) (use m(2) in \<open>simp_all del: sequential.simps\<close>)
  have "interleaved bitmap_ops True ?s2"
    unfolding run2 [symmetric]
    by (rule interleaved_run [OF i1]) (rule whole_call_run(3) [OF may2 _ ok2], simp)
  then have "even_state w (p + 1) Q ?s2" using S m by (simp add: even_state_def)
  then show ?thesis by blast
qed

lemma even_reaches:
  assumes "even_state w p Q s" and "p + n \<le> 1023"
    and io: "ia_allocate bitmap_ops w = (Some i, ia)" "ia_free bitmap_ops i ia = w" "unat i < 2"
  shows "\<exists>s'. even_state w (p + n) Q s'"
  using assms(2)
proof (induction n)
  case 0
  then show ?case using assms(1) by auto
next
  case (Suc n)
  then obtain s' where "even_state w (p + n) Q s'" by auto
  from even_round [OF this _ io] Suc.prems show ?case by simp
qed

definition two_senders :: "(u8, usize, u8) threaded" where
  "two_senders = run bitmap_ops [Begin 0 Call_Clone, Tick 0 True, Give 0 1] (threads_new pair_core 3)"

lemma first_index:
  "ia_allocate bitmap_ops (NOT (mask 2)) = (Some 0, held_word)"
  "ia_free bitmap_ops 0 held_word = NOT (mask 2)"
  by code_simp+

lemma two_senders_even: "even_state (NOT (mask 2)) 0 is_Fin two_senders"
proof -
  let ?acts = "[Begin 0 Call_Clone, Tick 0 True, Give 0 1] :: (u8, u8) action list"
  have "Core_new bitmap_ops 2 = Done (pair_core :: (u8, usize) core)"
    by (simp add: pair_core_def Core_new_def MAX_CAPACITY_def)
  then have "interleaved bitmap_ops True (threads_new pair_core 3 :: (u8, usize, u8) threaded)"
    by (rule interleaved.Start) simp
  moreover have "may_run bitmap_ops True ?acts (threads_new pair_core 3)" by code_simp
  ultimately have "interleaved bitmap_ops True two_senders"
    unfolding two_senders_def by (rule interleaved_run)
  moreover have "nthreads two_senders = 3 \<and> rx_live two_senders \<and> 0 < senders two_senders 0 \<and>
      0 < senders two_senders 1 \<and> is_Fin (pcs two_senders 0) \<and> is_Fin (pcs two_senders 1) \<and>
      is_Fin (pcs two_senders 2) \<and> \<not> receiving (pcs two_senders 1)"
    by code_simp
  moreover have "core_rep (mem two_senders) 0 [] False False"
  proof -
    have q: "map unat (queue (mem two_senders)) = map (\<lambda>k. 64 * k) [0..<64]" by code_simp
    have "unat (queue (mem two_senders) ! k) = 64 * k"
      if "k < 64" "length (queue (mem two_senders)) = 64" for k
      using arg_cong [OF q, of "\<lambda>xs. xs ! k"] that by simp
    moreover have "length (queue (mem two_senders)) = 64 \<and> unat (enqueue_pos (mem two_senders)) = 0 \<and>
        unat (dequeue_pos (mem two_senders)) = 0"
      by code_simp
    ultimately show ?thesis by (simp add: core_rep_def queued_at_def)
  qed
  moreover have "indices (mem two_senders) = NOT (mask 2) \<and> length (cells (mem two_senders)) = 2 \<and>
      \<not> errored (mem two_senders) \<and> length (log (mem two_senders)) = 0"
    by code_simp
  ultimately show ?thesis by (simp add: even_state_def)
qed

text \<open>Thread 1 begins to send and reads its position.\<close>

definition at_960 :: "(u8, u8) pc \<Rightarrow> bool" where
  "at_960 pc \<longleftrightarrow> (\<exists>tail. pc = Sending 9 (Commit_Slot 0 tail) \<and> unat tail = 64 * 960)"

lemma interrupt_sender:
  assumes "even_state (NOT (mask 2)) 960 is_Fin s"
  shows "\<exists>s'. even_state held_word 960 at_960 s'"
proof -
  note S = assms [unfolded even_state_def]
  let ?m = "mem s"
  let ?m' = "?m\<lparr>indices := held_word, cells := (cells ?m)[0 := Some 9]\<rparr>"
  let ?pc = "Sending 9 (Commit_Slot 0 (enqueue_pos ?m)) :: (u8, u8) pc"
  have enq: "unat (enqueue_pos ?m) = 64 * 960" using core_repD(6) [of ?m 960 "[]" False False] S by simp
  then have "enqueue_pos ?m AND CLOSED \<noteq> CLOSED" by (simp add: closed_iff)
  moreover have "ucast (0 :: u8) \<le> MASK" by (simp add: MASK_value)
  moreover have "cells ?m \<noteq> []" using S by auto
  ultimately have al: "alone bitmap_ops 4 (Sending 9 Reserve_Load) ?m = (?pc, ?m')"
    using S first_index(1) by (simp add: alone_unfold reserve_load_def reserve_alloc_def write_cell_def)
  let ?s1 = "s\<lparr>pcs := (pcs s)(1 := Sending 9 Reserve_Load)\<rparr>"
  let ?s2 = "s\<lparr>mem := ?m', pcs := (pcs s)(1 := ?pc)\<rparr>"
  have may: "may_act True s (Begin 1 (Call_Send 9))" using S by simp
  have act: "act bitmap_ops (Begin 1 (Call_Send 9)) s = ?s1" by simp
  have i1: "interleaved bitmap_ops True ?s1"
    using S may interleaved.Act [of bitmap_ops True s] unfolding act [symmetric] by blast
  have run: "run bitmap_ops (replicate 4 (Tick 1 True)) ?s1 = ?s1\<lparr>mem := ?m', pcs := (pcs ?s1)(1 := ?pc)\<rparr> \<and>
      may_run bitmap_ops True (replicate 4 (Tick 1 True)) ?s1"
    by (rule ticks_alone) (use al S in simp_all)
  then have "run bitmap_ops (replicate 4 (Tick 1 True)) ?s1 = ?s2" by simp
  with interleaved_run [OF i1] run have i2: "interleaved bitmap_ops True ?s2" by metis
  have "core_rep ?m' 960 [] False False" using S by (simp add: core_rep_def)
  moreover have "\<not> errored ?m'" using S by (simp add: state_bits)
  ultimately have "even_state held_word 960 at_960 ?s2"
    using S i2 enq by (simp add: even_state_def at_960_def)
  then show ?thesis by blast
qed

text \<open>
  C36: the bound of 960 messages is sharp. With one receiver and two senders, on a channel with two
  cells, a sender that is interrupted after it has read the position 960 panics at the
  \<open>unreachable!\<close> of \<open>commit_send\<close> once the other threads have passed on one more message.
\<close>

theorem stale_sender_panics:
  "\<exists>s :: (u8, usize, u8) threaded. interleaved bitmap_ops True s \<and> length (log (mem s)) = 961 \<and>
     pcs s 1 = Panicked"
proof -
  obtain s0 where "even_state (NOT (mask 2)) 960 is_Fin s0"
    using even_reaches [OF two_senders_even, of 960, OF _ first_index] by auto
  then obtain s1 where "even_state held_word 960 at_960 s1" using interrupt_sender by blast
  then obtain s where "even_state held_word 961 at_960 s"
    using even_round [of held_word 960 at_960 s1 1 "- 1"] held_index by auto
  note S = this [unfolded even_state_def]
  obtain tail where pc: "pcs s 1 = Sending 9 (Commit_Slot 0 tail)" and tail: "unat tail = 64 * 960"
    using S by (auto simp: at_960_def)
  have slot: "unat (drop_bit POS_SHIFT tail AND MASK) = 0" by (simp add: layout_simps tail)
  have "slot_holds (unat (queue (mem s) ! ((961 + 63) mod 64))) (961 + 63) None"
    using core_repD(7) [of "mem s" 961 "[]" False False 63] S by (simp add: queued_at_def)
  then have "unat (queue (mem s) ! 0) div 64 = 0" by simp
  then have "sint (drop_bit POS_SHIFT (queue (mem s) ! 0) - drop_bit POS_SHIFT tail) < 0"
    using sint_dif [of "drop_bit POS_SHIFT (queue (mem s) ! 0)" "drop_bit POS_SHIFT tail"]
    by (simp add: unat_pos tail)
  moreover have "tail AND CLOSED \<noteq> CLOSED" by (simp add: closed_iff tail)
  ultimately have "commit_slot 9 0 tail (mem s) = (Panicked, mem s)"
    using slot by (simp add: commit_slot_def Let_def)
  then have "pcs (act bitmap_ops (Tick 1 True) s) 1 = Panicked" "mem (act bitmap_ops (Tick 1 True) s) = mem s"
    using pc by simp_all
  moreover have "may_act True s (Tick 1 True)" using S pc by simp
  then have "interleaved bitmap_ops True (act bitmap_ops (Tick 1 True) s)"
    using S interleaved.Act by blast
  ultimately show ?thesis using S by metis
qed

end
