(* ===== verification/Oneshot_Atomic.thy ===== *)
theory Oneshot_Atomic
  imports Oneshot_Spec
begin

section \<open>One-shot channels under interleaving\<close>

text \<open>
  The calls of \<open>oneshot.rs\<close> again, cut at every access to the shared memory: the flags, the cell,
  the wait cell and the reference count. Any number of senders, one after the other, and the tasks
  that share a receiver take turns in any order. What the wait cell answers to a poll is arbitrary;
  the calls on it are logged in \<open>os_wait\<close>.
\<close>

subsection \<open>Program counters\<close>

text \<open>
  A sender: \<open>Tx_Write\<close> to \<open>Tx_Take_Back\<close> are the steps of \<open>send\<close>, \<open>Tx_Drop_Tx\<close> and \<open>Tx_Release\<close> those
  of its destructor. \<open>Tx_Finish\<close> remembers the message, which is now in the cell.
\<close>

datatype 'm tx_pc =
    Tx_Idle
  | Tx_Write 'm
  | Tx_Finish 'm
  | Tx_Wake
  | Tx_Take_Back
  | Tx_Drop_Tx "('m Closed + unit) option"
  | Tx_Release "('m Closed + unit) option"
  | Tx_Done "('m Closed + unit) option"

text \<open>A poll is part of \<open>recv\<close>, or of the loop of \<open>take_sender\<close>, which goes on with the flags it has read.\<close>

datatype rx_call = Call_Recv | Call_Sender u8

datatype 'm rx_result =
    Got 'm | No_Message OneshotRecvError | Sender_Result "SenderError + unit" | Closed_It

datatype 'm rx_pc =
    Rx_Idle
  | Rx_Poll rx_call
  | Rx_Wait rx_call
  | Rx_Parked rx_call
  | Rx_Copy rx_call
  | Rx_Store rx_call 'm
  | Rx_Cas
  | Rx_Clone
  | Rx_Swap
  | Rx_Wait_Close u8
  | Rx_Drop_Cell
  | Rx_Release
  | Rx_Ret "'m rx_result"
  | Rx_Gone

subsection \<open>The steps of a sender\<close>

definition os_deref :: "'m oneshot \<Rightarrow> 'b outcome \<Rightarrow> 'b outcome" where
  "os_deref o1 x = (if os_refs o1 = Arc 0 then UB else x)"

text \<open>The read-modify-write of \<open>finish_write\<close>, and what its result makes \<open>send\<close> do next.\<close>

definition finish_write_step :: "'m oneshot \<Rightarrow> ('m tx_pc \<times> 'm oneshot) outcome" where
  [simp]: "finish_write_step o1 =
     (let st = os_state o1; o2 = o1\<lparr>os_state := st OR SENT\<rparr>
      in Done (if st AND OS_CLOSED \<noteq> 0 then Tx_Take_Back
               else if st AND RX_WAITING \<noteq> 0 then Tx_Wake
               else Tx_Release (Some (Ok ())), o2))"

definition take_back_step :: "'m oneshot \<Rightarrow> ('m tx_pc \<times> 'm oneshot) outcome" where
  [simp]: "take_back_step o1 =
     (case os_cell o1 of
        None \<Rightarrow> UB
      | Some v \<Rightarrow> Done (Tx_Drop_Tx (Some (Err (Closed v))), o1\<lparr>os_cell := None\<rparr>))"

text \<open>The last two steps are those of the destructor, which skips the first of them after a send.\<close>

fun tx_step :: "'m tx_pc \<Rightarrow> 'm oneshot \<Rightarrow> ('m tx_pc \<times> 'm oneshot) outcome" where
  "tx_step (Tx_Write m) o1 = os_deref o1 (Done (Tx_Finish m, o1\<lparr>os_cell := Some m\<rparr>))"
| "tx_step (Tx_Finish m) o1 = os_deref o1 (finish_write_step o1)"
| "tx_step Tx_Wake o1 = os_deref o1 (Done (Tx_Release (Some (Ok ())), o1\<lparr>os_wait := os_wait o1 @ [Wake]\<rparr>))"
| "tx_step Tx_Take_Back o1 = os_deref o1 (take_back_step o1)"
| "tx_step (Tx_Drop_Tx r) o1 = os_deref o1 (Done (Tx_Release r, OneshotHeader_drop_tx o1))"
| "tx_step (Tx_Release r) o1 = outcome_map (Pair (Tx_Done r)) (OneshotRef_drop o1)"
| "tx_step pc o1 = Done (pc, o1)"

subsection \<open>The steps of a receiver\<close>

text \<open>How a call goes on when its poll is ready; a message found by \<open>take_sender\<close> is dropped.\<close>

definition take_sender_next :: "u8 \<Rightarrow> 'm rx_pc" where
  "take_sender_next st =
     (if st AND OS_CLOSED \<noteq> 0 then Rx_Ret (Sender_Result (Err SenderError_Closed))
      else if st AND HAS_TX \<noteq> 0 then Rx_Ret (Sender_Result (Err SenderError_SenderAlreadyActive))
      else Rx_Cas)"

fun poll_ready :: "rx_call \<Rightarrow> OneshotRecvError + 'm \<Rightarrow> 'm oneshot \<Rightarrow> 'm rx_pc \<times> 'm oneshot" where
  "poll_ready Call_Recv (Ok v) o1 = (Rx_Ret (Got v), o1)"
| "poll_ready Call_Recv (Err e) o1 = (Rx_Ret (No_Message e), o1)"
| "poll_ready (Call_Sender st) (Ok v) o1 = (take_sender_next st, o1\<lparr>os_dropped := os_dropped o1 @ [v]\<rparr>)"
| "poll_ready (Call_Sender st) (Err e) o1 = (take_sender_next st, o1)"

text \<open>
  The steps of \<open>poll_recv\<close>: the read-modify-write of the flags and the call of \<open>poll_wait\<close>, whose
  answer is the first argument.
\<close>

definition poll_step :: "rx_call \<Rightarrow> 'm oneshot \<Rightarrow> ('m rx_pc \<times> 'm oneshot) outcome" where
  [simp]: "poll_step c o1 =
     (let st = os_state o1; o2 = o1\<lparr>os_state := st OR RX_WAITING\<rparr>
      in Done (if st AND OS_CLOSED \<noteq> 0 then poll_ready c (Err RecvError_Closed) o2
               else if st AND SENT \<noteq> 0 then (Rx_Copy c, o2)
               else if st AND HAS_TX = 0 then poll_ready c (Err RecvError_NoSender) o2
               else (Rx_Wait c, o2)))"

definition wait_step :: "(unit + unit) poll \<Rightarrow> rx_call \<Rightarrow> 'm oneshot \<Rightarrow> ('m rx_pc \<times> 'm oneshot) outcome" where
  [simp]: "wait_step a c o1 =
     Done (case a of
             Pending \<Rightarrow> (Rx_Parked c, o1)
           | Ready (Err _) \<Rightarrow> poll_ready c (Err RecvError_Closed) o1
           | Ready (Ok _) \<Rightarrow> (Rx_Poll c, o1))"

text \<open>The two steps of \<open>take_value\<close>.\<close>

definition copy_step :: "rx_call \<Rightarrow> 'm oneshot \<Rightarrow> ('m rx_pc \<times> 'm oneshot) outcome" where
  [simp]: "copy_step c o1 = (case os_cell o1 of None \<Rightarrow> UB | Some v \<Rightarrow> Done (Rx_Store c v, o1\<lparr>os_cell := None\<rparr>))"

definition store_step :: "rx_call \<Rightarrow> 'm \<Rightarrow> 'm oneshot \<Rightarrow> ('m rx_pc \<times> 'm oneshot) outcome" where
  [simp]: "store_step c v o1 = Done (poll_ready c (Ok v) (o1\<lparr>os_state := HAS_RX\<rparr>))"

text \<open>The compare-exchange of \<open>take_sender\<close>.\<close>

definition sender_cas_step :: "'m oneshot \<Rightarrow> ('m rx_pc \<times> 'm oneshot) outcome" where
  [simp]: "sender_cas_step o1 =
     (let st = os_state o1
      in if st = HAS_RX then Done (Rx_Clone, o1\<lparr>os_state := HAS_RX OR HAS_TX\<rparr>)
         else Done (if st AND SENT \<noteq> 0 then Rx_Poll (Call_Sender st) else take_sender_next st, o1))"

text \<open>The steps of \<open>close\<close>: the swap of the flags, then the wait cell and the decision on the flags read.\<close>

definition close_swap_step :: "'m oneshot \<Rightarrow> ('m rx_pc \<times> 'm oneshot) outcome" where
  [simp]: "close_swap_step o1 = Done (Rx_Wait_Close (os_state o1), o1\<lparr>os_state := OS_CLOSED\<rparr>)"

definition close_wait_step :: "u8 \<Rightarrow> 'm oneshot \<Rightarrow> ('m rx_pc \<times> 'm oneshot) outcome" where
  [simp]: "close_wait_step st o1 =
     (let o2 = o1\<lparr>os_wait := os_wait o1 @ [Wake_Close]\<rparr>
      in if st AND SENT \<noteq> 0 \<and> st AND HAS_TX = 0 then Done (Rx_Drop_Cell, o2)
         else if st AND OS_CLOSED = 0 then Done (Rx_Ret Closed_It, o2)
         else Panic)"

text \<open>One step of a task that uses the receiver, or of the receiver's destructor (\<open>Rx_Release\<close>).\<close>

fun rx_step :: "(unit + unit) poll \<Rightarrow> 'm rx_pc \<Rightarrow> 'm oneshot \<Rightarrow> ('m rx_pc \<times> 'm oneshot) outcome" where
  "rx_step a (Rx_Poll c) o1 = os_deref o1 (poll_step c o1)"
| "rx_step a (Rx_Wait c) o1 = os_deref o1 (wait_step a c o1)"
| "rx_step a (Rx_Copy c) o1 = os_deref o1 (copy_step c o1)"
| "rx_step a (Rx_Store c v) o1 = os_deref o1 (store_step c v o1)"
| "rx_step a Rx_Cas o1 = os_deref o1 (sender_cas_step o1)"
| "rx_step a Rx_Clone o1 = outcome_map (Pair (Rx_Ret (Sender_Result (Ok ())))) (OneshotRef_clone o1)"
| "rx_step a Rx_Swap o1 = os_deref o1 (close_swap_step o1)"
| "rx_step a (Rx_Wait_Close st) o1 = os_deref o1 (close_wait_step st o1)"
| "rx_step a Rx_Drop_Cell o1 = os_deref o1 (outcome_map (Pair (Rx_Ret Closed_It)) (oneshot_drop_cell o1))"
| "rx_step a Rx_Release o1 = outcome_map (Pair Rx_Gone) (OneshotRef_drop o1)"
| "rx_step a pc o1 = Done (pc, o1)"

subsection \<open>The system\<close>

text \<open>
  The messages for which \<open>send\<close> succeeded and those taken out of the cell are logged, as are the
  number of calls of \<open>close\<close> and, in \<open>marked\<close>, how many calls the wait cell had seen when a receiver
  last announced that it waits.
\<close>

record 'm os_system =
  os_chan :: "'m oneshot"
  txs :: "'m tx_pc list"
  rxs :: "'m rx_pc list"
  os_sent :: "'m list"
  os_got :: "'m list"
  closes :: nat
  marked :: nat

datatype 'm os_action =
    Tx_Tick nat | Rx_Tick nat "(unit + unit) poll" | Send nat 'm | Drop_Sender nat | Recv nat
  | Ask_Sender nat | Close nat | Drop_Receiver nat | Poll_Again nat | Cancel nat

fun rx_free :: "'m rx_pc \<Rightarrow> bool" where
  "rx_free Rx_Idle = True"
| "rx_free (Rx_Ret r) = True"
| "rx_free _ = False"

definition set_tx :: "nat \<Rightarrow> 'm tx_pc \<Rightarrow> 'm os_system \<Rightarrow> 'm os_system" where
  "set_tx t pc s = s\<lparr>txs := (txs s)[t := pc]\<rparr>"

definition set_rx :: "nat \<Rightarrow> 'm rx_pc \<Rightarrow> 'm os_system \<Rightarrow> 'm os_system" where
  "set_rx t pc s = s\<lparr>rxs := (rxs s)[t := pc]\<rparr>"

definition tx_tick :: "nat \<Rightarrow> 'm os_system \<Rightarrow> 'm os_system outcome" where
  "tx_tick t s =
     outcome_map (\<lambda>(pc, o1). set_tx t pc (s\<lparr>os_chan := o1,
         os_sent := os_sent s @ (case txs s ! t of Tx_Finish m \<Rightarrow> if pc = Tx_Take_Back then [] else [m] | _ \<Rightarrow> [])\<rparr>))
       (tx_step (txs s ! t) (os_chan s))"

definition rx_tick :: "nat \<Rightarrow> (unit + unit) poll \<Rightarrow> 'm os_system \<Rightarrow> 'm os_system outcome" where
  "rx_tick t a s =
     outcome_map (\<lambda>(pc, o1). set_rx t pc (s\<lparr>os_chan := o1,
         os_got := os_got s @ (case pc of Rx_Store c v \<Rightarrow> [v] | _ \<Rightarrow> []),
         txs := txs s @ (if rxs s ! t = Rx_Clone then [Tx_Idle] else []),
         marked := (case rxs s ! t of Rx_Poll c \<Rightarrow> length (os_wait (os_chan s)) | _ \<Rightarrow> marked s)\<rparr>))
       (rx_step a (rxs s ! t) (os_chan s))"

text \<open>Calls begin only where the type system allows them; everything else changes nothing.\<close>

fun os_act :: "'m os_action \<Rightarrow> 'm os_system \<Rightarrow> 'm os_system outcome" where
  "os_act (Tx_Tick t) s = (if t < length (txs s) then tx_tick t s else Done s)"
| "os_act (Rx_Tick t a) s = (if t < length (rxs s) then rx_tick t a s else Done s)"
| "os_act (Send t m) s =
     Done (if t < length (txs s) \<and> txs s ! t = Tx_Idle then set_tx t (Tx_Write m) s else s)"
| "os_act (Drop_Sender t) s =
     Done (if t < length (txs s) \<and> txs s ! t = Tx_Idle then set_tx t (Tx_Drop_Tx None) s else s)"
| "os_act (Recv t) s =
     Done (if t < length (rxs s) \<and> rx_free (rxs s ! t) then set_rx t (Rx_Poll Call_Recv) s else s)"
| "os_act (Ask_Sender t) s =
     Done (if t < length (rxs s) \<and> rx_free (rxs s ! t) then set_rx t Rx_Cas s else s)"
| "os_act (Close t) s =
     Done (if t < length (rxs s) \<and> rx_free (rxs s ! t)
           then (set_rx t Rx_Swap s)\<lparr>closes := closes s + 1\<rparr> else s)"
| "os_act (Drop_Receiver t) s =
     Done (if length (rxs s) = 1 \<and> t = 0 \<and> rx_free (rxs s ! t) then set_rx t Rx_Release s else s)"
| "os_act (Poll_Again t) s =
     Done (if t < length (rxs s)
           then (case rxs s ! t of Rx_Parked c \<Rightarrow> set_rx t (Rx_Poll c) s | _ \<Rightarrow> s) else s)"
| "os_act (Cancel t) s =
     Done (if t < length (rxs s)
           then (case rxs s ! t of Rx_Parked c \<Rightarrow> set_rx t Rx_Idle s | _ \<Rightarrow> s) else s)"

fun os_acts :: "'m os_action list \<Rightarrow> 'm os_system \<Rightarrow> 'm os_system outcome" where
  "os_acts [] s = Done s"
| "os_acts (a # as) s = outcome_bind (os_act a s) (os_acts as)"

text \<open>\<open>n\<close> tasks share a new receiver.\<close>

definition os_system_new :: "nat \<Rightarrow> 'm oneshot \<Rightarrow> 'm os_system" where
  "os_system_new n o1 = \<lparr>os_chan = o1, txs = [], rxs = replicate n Rx_Idle, os_sent = [], os_got = [],
     closes = 0, marked = 0\<rparr>"

end
