(* ===== verification/Oneshot_Atomic_Inv.thy ===== *)
theory Oneshot_Atomic_Inv
  imports Oneshot_Atomic
begin

section \<open>The invariant of a one-shot channel under interleaving\<close>

text \<open>
  With one receiver and at most one call of \<open>close\<close>: the flags say which phase the channel is in;
  at most one sender may still write to the cell; the receiver reads the cell only when a message is
  in it; every handle owns a reference; and a receiver that waits is woken.
\<close>

subsection \<open>Parts\<close>

fun tx_active :: "'m tx_pc \<Rightarrow> bool" where
  "tx_active Tx_Wake = False"
| "tx_active (Tx_Release r) = False"
| "tx_active (Tx_Done r) = False"
| "tx_active _ = True"

fun tx_owns :: "'m tx_pc \<Rightarrow> bool" where
  "tx_owns (Tx_Done r) = False"
| "tx_owns _ = True"

definition how_many :: "('a \<Rightarrow> bool) \<Rightarrow> 'a list \<Rightarrow> nat" where
  "how_many P xs = length (filter P xs)"

lemma how_many_simps [simp]:
  "how_many P [] = 0" "how_many P (x # xs) = (if P x then 1 else 0) + how_many P xs"
  "how_many P (xs @ ys) = how_many P xs + how_many P ys"
  by (simp_all add: how_many_def)

lemma how_many_update:
  "t < length xs \<Longrightarrow>
    how_many P (xs[t := x]) + (if P (xs ! t) then 1 else 0) = how_many P xs + (if P x then 1 else 0)"
proof (induction xs arbitrary: t)
  case (Cons y xs)
  then show ?case using Cons.IH [of "t - 1"] by (cases t) auto
qed simp

lemma how_many_pos: "t < length xs \<Longrightarrow> P (xs ! t) \<Longrightarrow> 0 < how_many P xs"
  by (auto simp: how_many_def filter_empty_conv)

lemma how_many_one:
  assumes "how_many P xs \<le> 1" and "t < length xs" "P (xs ! t)" and "u < length xs" "P (xs ! u)"
  shows "u = t"
  using assms
proof (induction xs arbitrary: t u)
  case (Cons x xs)
  then show ?case using how_many_pos [of _ xs P] by (cases t; cases u) (auto split: if_split_asm)
qed simp

text \<open>The phases: no sender, a sender that has not sent, a message, closed.\<close>

definition os_idle :: "u8 \<Rightarrow> bool" where "os_idle w \<longleftrightarrow> w = 1 \<or> w = 5"
definition os_taken :: "u8 \<Rightarrow> bool" where "os_taken w \<longleftrightarrow> w = 3 \<or> w = 7"
definition os_full :: "u8 \<Rightarrow> bool" where "os_full w \<longleftrightarrow> w = 11 \<or> w = 15"
definition os_shut :: "u8 \<Rightarrow> bool" where "os_shut w \<longleftrightarrow> w = 16 \<or> w = 20 \<or> w = 24 \<or> w = 28"
definition os_waited :: "u8 \<Rightarrow> bool" where "os_waited w \<longleftrightarrow> w = 5 \<or> w = 7 \<or> w = 15 \<or> os_shut w"

lemmas phase_defs = os_idle_def os_taken_def os_full_def os_shut_def os_waited_def

lemma phases_apart:
  "os_idle w \<Longrightarrow> \<not> os_taken w \<and> \<not> os_full w \<and> \<not> os_shut w"
  "os_taken w \<Longrightarrow> \<not> os_idle w \<and> \<not> os_full w \<and> \<not> os_shut w"
  "os_full w \<Longrightarrow> \<not> os_idle w \<and> \<not> os_taken w \<and> \<not> os_shut w"
  "os_shut w \<Longrightarrow> \<not> os_idle w \<and> \<not> os_taken w \<and> \<not> os_full w \<and> os_waited w"
  by (auto simp: phase_defs)

lemma phases_final [simp]: "os_full 15" "\<not> os_idle 15" "\<not> os_taken 15" "\<not> os_shut 15"
  by (simp_all add: phase_defs)

fun tx_ok :: "'m oneshot \<Rightarrow> 'm tx_pc \<Rightarrow> bool" where
  "tx_ok o1 (Tx_Finish m) = (os_cell o1 = Some m)"
| "tx_ok o1 Tx_Take_Back = (os_shut (os_state o1) \<and> os_cell o1 \<noteq> None)"
| "tx_ok o1 (Tx_Drop_Tx (Some r)) = os_shut (os_state o1)"
| "tx_ok o1 _ = True"

fun rx_ok :: "nat \<Rightarrow> 'm oneshot \<Rightarrow> 'm rx_pc \<Rightarrow> bool" where
  "rx_ok n o1 (Rx_Wait c) = os_waited (os_state o1)"
| "rx_ok n o1 (Rx_Parked c) = os_waited (os_state o1)"
| "rx_ok n o1 (Rx_Copy c) = (os_state o1 = 15 \<and> os_cell o1 \<noteq> None)"
| "rx_ok n o1 (Rx_Store c v) = (os_state o1 = 15)"
| "rx_ok n o1 Rx_Clone = os_taken (os_state o1)"
| "rx_ok n o1 Rx_Swap = (n = 1 \<and> \<not> os_shut (os_state o1))"
| "rx_ok n o1 (Rx_Wait_Close w) = (os_idle w \<or> os_taken w \<or> os_full w)"
| "rx_ok n o1 Rx_Drop_Cell = False"
| "rx_ok n o1 _ = True"

lemma rx_ok_taken:
  assumes "rx_ok n o1 r" and "os_taken (os_state o1)" and "\<not> os_shut (os_state o2)"
    and "r = Rx_Clone \<Longrightarrow> os_taken (os_state o2)" and "os_waited (os_state o1) \<Longrightarrow> os_waited (os_state o2)"
  shows "rx_ok n o2 r"
  using assms by (cases r) auto

lemma rx_ok_shut:
  assumes "rx_ok n o1 r" and "os_shut (os_state o1)" and "os_shut (os_state o2)"
  shows "rx_ok n o2 r"
  using assms phases_apart(4) [OF assms(2)] phases_apart(4) [OF assms(3)] by (cases r) auto

text \<open>The message in the cell that has been sent and not yet taken.\<close>

definition os_pending :: "'m oneshot \<Rightarrow> 'm rx_pc \<Rightarrow> 'm list" where
  "os_pending o1 r = (if os_full (os_state o1) \<and> \<not> (\<exists>c v. r = Rx_Store c v)
     then (case os_cell o1 of Some v \<Rightarrow> [v] | None \<Rightarrow> []) else [])"

fun rx_waits :: "'m rx_pc \<Rightarrow> bool" where
  "rx_waits (Rx_Wait c) = True"
| "rx_waits (Rx_Parked c) = True"
| "rx_waits _ = False"

definition os_tokens :: "'m tx_pc list \<Rightarrow> 'm rx_pc \<Rightarrow> nat" where
  "os_tokens ts r = how_many tx_active ts + (if r = Rx_Clone then 1 else 0)"

definition refs_ok :: "'m oneshot \<Rightarrow> 'm tx_pc list \<Rightarrow> 'm rx_pc \<Rightarrow> bool" where
  "refs_ok o1 ts r \<longleftrightarrow>
     (\<forall>n. os_refs o1 = Arc n \<longrightarrow> n = how_many tx_owns ts + (if r = Rx_Gone then 0 else 1))"

definition phase_ok :: "'m oneshot \<Rightarrow> 'm tx_pc list \<Rightarrow> 'm rx_pc \<Rightarrow> bool" where
  "phase_ok o1 ts r \<longleftrightarrow>
     os_idle (os_state o1) \<and> os_tokens ts r = 0 \<or> os_taken (os_state o1) \<and> os_tokens ts r = 1 \<or>
     os_full (os_state o1) \<and> os_tokens ts r = 0 \<and> (os_cell o1 \<noteq> None \<or> (\<exists>c v. r = Rx_Store c v)) \<or>
     os_shut (os_state o1) \<and> os_tokens ts r \<le> 1"

definition wake_ok :: "'m os_system \<Rightarrow> 'm rx_pc \<Rightarrow> bool" where
  "wake_ok s r \<longleftrightarrow> (rx_waits r \<longrightarrow> marked s \<le> length (os_wait (os_chan s)) \<and>
     (os_full (os_state (os_chan s)) \<longrightarrow>
        Tx_Wake \<in> set (txs s) \<or> Wake \<in> set (drop (marked s) (os_wait (os_chan s)))))"

definition log_ok :: "'m os_system \<Rightarrow> 'm rx_pc \<Rightarrow> bool" where
  "log_ok s r \<longleftrightarrow>
     (if os_shut (os_state (os_chan s)) then \<exists>l. length l \<le> 1 \<and> os_sent s = os_got s @ l
      else os_sent s = os_got s @ os_pending (os_chan s) r)"

lemma log_ok_simps:
  "os_shut (os_state (os_chan s)) \<Longrightarrow> log_ok s r = (\<exists>l. length l \<le> 1 \<and> os_sent s = os_got s @ l)"
  "\<not> os_shut (os_state (os_chan s)) \<Longrightarrow> log_ok s r = (os_sent s = os_got s @ os_pending (os_chan s) r)"
  unfolding log_ok_def by simp_all

lemma os_pending_simps:
  "\<not> os_full (os_state o1) \<Longrightarrow> os_pending o1 r = []" "os_pending o1 (Rx_Store c v) = []"
  "os_full (os_state o1) \<Longrightarrow> \<not> (\<exists>c v. r = Rx_Store c v) \<Longrightarrow> os_cell o1 = Some m \<Longrightarrow> os_pending o1 r = [m]"
  by (simp_all add: os_pending_def)

lemma os_pending_cong:
  "os_state o2 = os_state o1 \<Longrightarrow> os_cell o2 = os_cell o1 \<Longrightarrow> os_pending o2 r = os_pending o1 r"
  by (simp add: os_pending_def)

lemma taken_released: "os_taken w \<Longrightarrow> os_idle (w AND NOT HAS_TX) \<and> \<not> os_full (w AND NOT HAS_TX) \<and> (os_waited w \<longrightarrow> os_waited (w AND NOT HAS_TX))"
  by (auto simp: phase_defs flag_values)

lemma taken_sent: "os_taken w \<Longrightarrow> os_full (w OR SENT) \<and> (os_waited w \<longrightarrow> os_waited (w OR SENT))"
  by (auto simp: phase_defs flag_values)

lemma shut_words: "os_shut w \<Longrightarrow> os_shut (w OR SENT) \<and> os_shut (w AND NOT HAS_TX) \<and> os_shut (w OR RX_WAITING)"
  by (auto simp: phase_defs flag_values)

lemma closed_bit:
  "os_shut w \<Longrightarrow> w AND OS_CLOSED \<noteq> 0" "os_taken w \<Longrightarrow> w AND OS_CLOSED = 0"
  "os_idle w \<Longrightarrow> w AND OS_CLOSED = 0" "os_full w \<Longrightarrow> w AND OS_CLOSED = 0"
  by (auto simp: phase_defs flag_values)

lemma waiting_bit: "os_taken w \<Longrightarrow> (w AND RX_WAITING = 0) = (\<not> os_waited w)"
  by (auto simp: phase_defs flag_values)

definition os_inv :: "'m os_system \<Rightarrow> bool" where
  "os_inv s \<longleftrightarrow> (\<exists>r. rxs s = [r] \<and> phase_ok (os_chan s) (txs s) r \<and>
     (\<forall>p \<in> set (txs s). tx_ok (os_chan s) p) \<and> rx_ok (closes s) (os_chan s) r \<and>
     refs_ok (os_chan s) (txs s) r \<and> log_ok s r \<and> wake_ok s r \<and>
     closes s \<le> 1 \<and> (closes s = 0 \<longrightarrow> \<not> os_shut (os_state (os_chan s))) \<and>
     (closes s = 1 \<longrightarrow> os_shut (os_state (os_chan s)) \<or> r = Rx_Swap))"

lemma os_invE:
  assumes "os_inv s"
  obtains r where "rxs s = [r]" "phase_ok (os_chan s) (txs s) r" "\<forall>p \<in> set (txs s). tx_ok (os_chan s) p"
    "rx_ok (closes s) (os_chan s) r" "refs_ok (os_chan s) (txs s) r" "log_ok s r" "wake_ok s r" "closes s \<le> 1"
    "closes s = 0 \<longrightarrow> \<not> os_shut (os_state (os_chan s))"
    "closes s = 1 \<longrightarrow> os_shut (os_state (os_chan s)) \<or> r = Rx_Swap"
  using assms unfolding os_inv_def by (elim exE conjE) (rule that)

lemma os_invI:
  assumes "rxs s = [r]" "phase_ok (os_chan s) (txs s) r" "\<And>p. p \<in> set (txs s) \<Longrightarrow> tx_ok (os_chan s) p"
    "rx_ok (closes s) (os_chan s) r" "refs_ok (os_chan s) (txs s) r" "log_ok s r" "wake_ok s r" "closes s \<le> 1"
    "closes s = 0 \<longrightarrow> \<not> os_shut (os_state (os_chan s))"
    "closes s = 1 \<longrightarrow> os_shut (os_state (os_chan s)) \<or> r = Rx_Swap"
  shows "os_inv s"
  unfolding os_inv_def using assms by (intro exI [of _ r] conjI ballI) simp_all

subsection \<open>The steps of a sender\<close>

lemma active_owns: "tx_active p \<Longrightarrow> tx_owns p"
  by (cases p) simp_all

lemma tx_ok_passive: "\<not> tx_active p \<Longrightarrow> tx_ok o1 p"
  by (cases p) simp_all

lemma tx_ok_cong: "os_cell o2 = os_cell o1 \<Longrightarrow> os_state o2 = os_state o1 \<Longrightarrow> tx_ok o2 p = tx_ok o1 p"
  by (cases "(o1, p)" rule: tx_ok.cases) simp_all

lemma others_passive:
  assumes "how_many tx_active ts \<le> 1" and "t < length ts" and "tx_active (ts ! t)" and "q \<in> set (ts[t := pc])"
  shows "q = pc \<or> \<not> tx_active q"
proof -
  from assms(4) obtain u where u: "u < length ts" "q = ts[t := pc] ! u" by (auto simp: in_set_conv_nth)
  with how_many_one [OF assms(1-3), of u] show ?thesis by (cases "u = t") auto
qed

lemma refs_alive:
  assumes "refs_ok o1 ts r" and "t < length ts" and "tx_owns (ts ! t)"
  shows "os_deref o1 x = x"
  using assms how_many_pos [of t ts tx_owns] by (auto simp: refs_ok_def os_deref_def)

lemma refs_alive_rx: "refs_ok o1 ts r \<Longrightarrow> r \<noteq> Rx_Gone \<Longrightarrow> os_deref o1 x = x"
  by (auto simp: refs_ok_def os_deref_def)

lemma refs_ok_same:
  assumes "refs_ok o1 ts r" and "t < length ts" and "tx_owns (ts ! t)" and "tx_owns pc" and "os_refs o2 = os_refs o1"
  shows "refs_ok o2 (ts[t := pc]) r"
  using assms how_many_update [OF assms(2), of tx_owns pc] by (simp add: refs_ok_def)

lemma tokens_update:
  assumes "t < length ts"
  shows "os_tokens (ts[t := pc]) r + (if tx_active (ts ! t) then 1 else 0) =
    os_tokens ts r + (if tx_active pc then 1 else 0)"
  using how_many_update [OF assms, of tx_active pc] by (simp add: os_tokens_def)

lemma tokens_bound: "phase_ok o1 ts r \<Longrightarrow> os_tokens ts r \<le> 1"
  by (auto simp: phase_ok_def)

lemma tokens_active: "t < length ts \<Longrightarrow> tx_active (ts ! t) \<Longrightarrow> 0 < os_tokens ts r"
  using how_many_pos [of t ts tx_active] by (simp add: os_tokens_def)

text \<open>A step of an active sender, seen from the outside.\<close>

lemma active_step:
  assumes inv: "os_inv s" and t: "t < length (txs s)" "tx_active (txs s ! t)"
    and st: "os_state o1 = os_state (os_chan s) \<or> os_taken (os_state (os_chan s)) \<and> os_taken (os_state o1) \<or>
      os_shut (os_state (os_chan s)) \<and> os_shut (os_state o1)"
    and same: "os_refs o1 = os_refs (os_chan s)" "os_wait o1 = os_wait (os_chan s)"
      "os_waited (os_state (os_chan s)) \<longrightarrow> os_waited (os_state o1)"
    and pc: "tx_active pc" "tx_ok o1 pc"
  shows "os_inv (s\<lparr>os_chan := o1, txs := (txs s)[t := pc]\<rparr>)"
proof -
  from inv obtain r where r: "rxs s = [r]" "phase_ok (os_chan s) (txs s) r"
    "\<forall>p \<in> set (txs s). tx_ok (os_chan s) p" "rx_ok (closes s) (os_chan s) r" "refs_ok (os_chan s) (txs s) r"
    "log_ok s r" "wake_ok s r" "closes s \<le> 1" "closes s = 0 \<longrightarrow> \<not> os_shut (os_state (os_chan s))"
    "closes s = 1 \<longrightarrow> os_shut (os_state (os_chan s)) \<or> r = Rx_Swap" by (rule os_invE)
  have one: "os_tokens (txs s) r = 1" using tokens_bound [OF r(2)] tokens_active [OF t, of r] by simp
  with tokens_update [OF t(1), of pc r] t(2) pc(1) have tok: "os_tokens ((txs s)[t := pc]) r = 1" by simp
  have phase: "os_taken (os_state (os_chan s)) \<or> os_shut (os_state (os_chan s))"
    using r(2) one by (auto simp: phase_ok_def)
  with st have phase': "os_taken (os_state (os_chan s)) \<and> os_taken (os_state o1) \<or>
    os_shut (os_state (os_chan s)) \<and> os_shut (os_state o1)" by auto
  then have apart: "os_shut (os_state o1) = os_shut (os_state (os_chan s))" "\<not> os_full (os_state o1)"
    "\<not> os_full (os_state (os_chan s))" by (auto dest: phases_apart(2,4))
  have owns: "tx_owns (txs s ! t)" "tx_owns pc" using t(2) pc(1) by (simp_all add: active_owns)
  let ?s = "s\<lparr>os_chan := o1, txs := (txs s)[t := pc]\<rparr>"
  show ?thesis
  proof (rule os_invI [of _ r])
    show "refs_ok (os_chan ?s)
        (txs ?s) r"
      using refs_ok_same [OF r(5) t(1) owns same(1)] by simp
    show "tx_ok (os_chan ?s) p"
      if "p \<in> set (txs ?s)" for p
      using others_passive [of "txs s" t p pc] that one t pc(2) by (auto simp: os_tokens_def intro: tx_ok_passive)
    show "rx_ok (closes ?s) (os_chan ?s) r"
      using r(4) phase' same(3) by (auto intro: rx_ok_taken rx_ok_shut dest: phases_apart(2))
    show "log_ok ?s r"
      using r(6) apart by (cases "os_shut (os_state o1)") (simp_all add: log_ok_simps os_pending_simps)
    show "wake_ok ?s r"
      using r(7) apart same(2) by (simp add: wake_ok_def)
  qed (use r phase' tok apart in \<open>auto simp: phase_ok_def\<close>)
qed

text \<open>A sender that has sent or has dropped its claim goes on without touching flags and cell.\<close>

lemma passive_step:
  assumes inv: "os_inv s" and t: "t < length (txs s)" "\<not> tx_active (txs s ! t)" "\<not> tx_active pc"
    and same: "os_state o1 = os_state (os_chan s)" "os_cell o1 = os_cell (os_chan s)"
    and refs: "\<And>r. refs_ok (os_chan s) (txs s) r \<Longrightarrow> refs_ok o1 ((txs s)[t := pc]) r"
    and wait: "os_wait o1 = os_wait (os_chan s) @ (if txs s ! t = Tx_Wake then [Wake] else [])"
  shows "os_inv (s\<lparr>os_chan := o1, txs := (txs s)[t := pc]\<rparr>)"
proof -
  from inv obtain r where r: "rxs s = [r]" "phase_ok (os_chan s) (txs s) r"
    "\<forall>p \<in> set (txs s). tx_ok (os_chan s) p" "rx_ok (closes s) (os_chan s) r" "refs_ok (os_chan s) (txs s) r"
    "log_ok s r" "wake_ok s r" "closes s \<le> 1" "closes s = 0 \<longrightarrow> \<not> os_shut (os_state (os_chan s))"
    "closes s = 1 \<longrightarrow> os_shut (os_state (os_chan s)) \<or> r = Rx_Swap" by (rule os_invE)
  let ?s = "s\<lparr>os_chan := o1, txs := (txs s)[t := pc]\<rparr>"
  have tok: "os_tokens ((txs s)[t := pc]) r = os_tokens (txs s) r"
    using tokens_update [OF t(1), of pc r] t(2,3) by simp
  show ?thesis
  proof (rule os_invI [of _ r])
    show "tx_ok (os_chan ?s) p" if "p \<in> set (txs ?s)" for p
    proof -
      from that have "p = pc \<or> p \<in> set (txs s)" using set_update_subset_insert [of "txs s" t pc] by auto
      with r(3) t(3) same show ?thesis by (auto simp: tx_ok_cong [of o1 "os_chan s"] intro: tx_ok_passive)
    qed
    show "rx_ok (closes ?s) (os_chan ?s) r" using r(4) same by (cases r) simp_all
    show "refs_ok (os_chan ?s) (txs ?s) r" using refs [OF r(5)] by simp
    show "log_ok ?s r"
      using r(6) same by (cases "os_shut (os_state o1)") (simp_all add: log_ok_simps os_pending_cong [of o1 "os_chan s"])
    show "wake_ok ?s r"
    proof -
      have "Tx_Wake \<in> set ((txs s)[t := pc]) \<or> txs s ! t = Tx_Wake" if "Tx_Wake \<in> set (txs s)"
        using that t(1) by (metis in_set_conv_nth length_list_update nth_list_update_neq)
      then show ?thesis using r(7) same(1) wait by (auto simp: wake_ok_def)
    qed
  qed (use r same tok in \<open>auto simp: phase_ok_def\<close>)
qed

lemma release_refs:
  assumes "refs_ok o1 ts r" and "t < length ts" and "ts ! t = Tx_Release x"
  shows "\<exists>o2. OneshotRef_drop o1 = Done o2 \<and> refs_ok o2 (ts[t := Tx_Done x]) r \<and> os_state o2 = os_state o1 \<and>
    os_cell o2 = os_cell o1 \<and> os_wait o2 = os_wait o1"
  using assms how_many_pos [of t ts tx_owns] how_many_update [of t ts tx_owns "Tx_Done x"]
  by (cases "os_refs o1") (auto simp: OneshotRef_drop_def refs_ok_def)

text \<open>The two steps that end a claim on the cell: the message is sent, or the claim is given up.\<close>

lemma ending_step:
  assumes inv: "os_inv s" and t: "t < length (txs s)" "tx_active (txs s ! t)"
    and pc: "\<not> tx_active pc" "tx_owns pc"
    and o1: "os_refs o1 = os_refs (os_chan s)" "os_wait o1 = os_wait (os_chan s)" "os_cell o1 = os_cell (os_chan s)"
    and st: "os_shut (os_state (os_chan s)) \<and> os_shut (os_state o1) \<and> m = [] \<or>
      os_taken (os_state (os_chan s)) \<and> os_state o1 = os_state (os_chan s) AND NOT HAS_TX \<and> m = [] \<or>
      os_taken (os_state (os_chan s)) \<and> os_state o1 = os_state (os_chan s) OR SENT \<and>
        os_cell o1 = Some v \<and> m = [v] \<and> (os_waited (os_state (os_chan s)) \<longrightarrow> pc = Tx_Wake)"
  shows "os_inv (s\<lparr>os_chan := o1, os_sent := os_sent s @ m, txs := (txs s)[t := pc]\<rparr>)"
proof -
  from inv obtain r where r: "rxs s = [r]" "phase_ok (os_chan s) (txs s) r"
    "\<forall>p \<in> set (txs s). tx_ok (os_chan s) p" "rx_ok (closes s) (os_chan s) r" "refs_ok (os_chan s) (txs s) r"
    "log_ok s r" "wake_ok s r" "closes s \<le> 1" "closes s = 0 \<longrightarrow> \<not> os_shut (os_state (os_chan s))"
    "closes s = 1 \<longrightarrow> os_shut (os_state (os_chan s)) \<or> r = Rx_Swap" by (rule os_invE)
  let ?s = "s\<lparr>os_chan := o1, os_sent := os_sent s @ m, txs := (txs s)[t := pc]\<rparr>"
  let ?w = "os_state (os_chan s)" and ?w' = "os_state o1"
  have one: "os_tokens (txs s) r = 1" using tokens_bound [OF r(2)] tokens_active [OF t, of r] by simp
  with tokens_update [OF t(1), of pc r] t(2) pc(1) have tok: "os_tokens ((txs s)[t := pc]) r = 0" by simp
  have phase: "os_shut ?w \<and> os_shut ?w' \<and> m = [] \<or> os_taken ?w \<and> os_idle ?w' \<and> m = [] \<or>
      os_taken ?w \<and> os_full ?w' \<and> os_cell o1 = Some v \<and> m = [v]"
    and waited: "os_waited ?w \<Longrightarrow> os_waited ?w'" and wakes: "os_full ?w' \<Longrightarrow> os_waited ?w \<Longrightarrow> pc = Tx_Wake"
    using st by (auto dest: taken_released taken_sent phases_apart)
  have not_clone: "r \<noteq> Rx_Clone" using one t how_many_pos [of t "txs s" tx_active] by (auto simp: os_tokens_def)
  show ?thesis
  proof (rule os_invI [of _ r])
    show "tx_ok (os_chan ?s) p" if "p \<in> set (txs ?s)" for p
      using others_passive [of "txs s" t p pc] that one t pc(1) by (auto simp: os_tokens_def intro: tx_ok_passive)
    show "rx_ok (closes ?s) (os_chan ?s) r"
      using r(4) phase waited not_clone by (auto intro: rx_ok_taken rx_ok_shut dest: phases_apart(1,3))
    show "refs_ok (os_chan ?s) (txs ?s) r"
      using refs_ok_same [OF r(5) t(1) active_owns [OF t(2)] pc(2) o1(1)] by simp
    show "log_ok ?s r"
      using phase
    proof (elim disjE conjE)
      assume w: "os_shut ?w" "os_shut ?w'" "m = []"
      with r(6) show ?thesis by (simp add: log_ok_simps)
    next
      assume w: "os_taken ?w" "os_idle ?w'" "m = []"
      with r(6) phases_apart(2) [OF w(1)] phases_apart(1) [OF w(2)] show ?thesis
        by (simp add: log_ok_simps os_pending_simps)
    next
      assume w: "os_taken ?w" "os_full ?w'" "os_cell o1 = Some v" "m = [v]"
      have "\<not> (\<exists>c v. r = Rx_Store c v)" using r(4) w(1) by auto
      with r(6) phases_apart(2) [OF w(1)] phases_apart(3) [OF w(2)] w show ?thesis
        by (simp add: log_ok_simps os_pending_simps)
    qed
    have "Tx_Wake \<in> set ((txs s)[t := pc])" if "pc = Tx_Wake"
      using that t(1) by (simp add: set_update_memI)
    then show "wake_ok ?s r"
      using r(4,7) phase wakes o1(2) by (cases r) (auto simp: wake_ok_def)
  qed (use r phase tok o1(3) in \<open>auto simp: phase_ok_def dest: phases_apart(1-3)\<close>)
qed

lemma active_phase:
  assumes "os_inv s" and "t < length (txs s)" and "tx_active (txs s ! t)"
  shows "os_taken (os_state (os_chan s)) \<or> os_shut (os_state (os_chan s))"
proof -
  from assms(1) obtain r where "phase_ok (os_chan s) (txs s) r" by (rule os_invE)
  with tokens_active [OF assms(2,3), of r] show ?thesis by (auto simp: phase_ok_def)
qed

lemma tx_tick_inv:
  assumes inv: "os_inv s" and t: "t < length (txs s)"
  shows "\<exists>s'. tx_tick t s = Done s' \<and> os_inv s' \<and> closes s' = closes s"
proof -
  from inv obtain r where ok: "\<forall>p \<in> set (txs s). tx_ok (os_chan s) p" and refs: "refs_ok (os_chan s) (txs s) r"
    by (rule os_invE)
  let ?c = "os_chan s" and ?p = "txs s ! t"
  let ?w = "os_state ?c"
  from ok t have okp: "tx_ok ?c ?p" by simp
  show ?thesis
  proof (cases ?p)
    case Tx_Idle
    with inv list_update_id [of "txs s" t] show ?thesis by (simp add: tx_tick_def set_tx_def)
  next
    case (Tx_Done x)
    with inv list_update_id [of "txs s" t] show ?thesis by (simp add: tx_tick_def set_tx_def)
  next
    case (Tx_Write m)
    then have "os_inv (s\<lparr>os_chan := ?c\<lparr>os_cell := Some m\<rparr>, txs := (txs s)[t := Tx_Finish m]\<rparr>)"
      using inv t by (intro active_step) simp_all
    with Tx_Write show ?thesis by (simp add: tx_tick_def set_tx_def refs_alive [OF refs t])
  next
    case (Tx_Finish m)
    with active_phase [OF inv t] have phase: "os_taken ?w \<or> os_shut ?w" by simp
    have cell: "os_cell ?c = Some m" using okp Tx_Finish by simp
    show ?thesis
    proof (cases "os_shut ?w")
      case True
      with Tx_Finish cell shut_words [OF True]
      have "os_inv (s\<lparr>os_chan := ?c\<lparr>os_state := ?w OR SENT\<rparr>, txs := (txs s)[t := Tx_Take_Back]\<rparr>)"
        using inv t phases_apart(4) by (intro active_step) auto
      with Tx_Finish closed_bit(1) [OF True] show ?thesis
        by (simp add: tx_tick_def set_tx_def Let_def refs_alive [OF refs t])
    next
      case False
      with phase have taken: "os_taken ?w" by simp
      let ?pc = "if ?w AND RX_WAITING \<noteq> 0 then Tx_Wake else Tx_Release (Some (Ok ()))"
      have "os_inv (s\<lparr>os_chan := ?c\<lparr>os_state := ?w OR SENT\<rparr>, os_sent := os_sent s @ [m], txs := (txs s)[t := ?pc]\<rparr>)"
        using inv t Tx_Finish taken cell waiting_bit [OF taken] by (intro ending_step [where v = m]) auto
      with Tx_Finish closed_bit(2) [OF taken] show ?thesis
        by (cases "?w AND RX_WAITING = 0") (simp_all add: tx_tick_def set_tx_def Let_def refs_alive [OF refs t])
    qed
  next
    case Tx_Wake
    let ?o1 = "?c\<lparr>os_wait := os_wait ?c @ [Wake]\<rparr>"
    have "os_inv (s\<lparr>os_chan := ?o1, txs := (txs s)[t := Tx_Release (Some (Ok ()))]\<rparr>)"
      using inv t Tx_Wake by (intro passive_step) (auto intro: refs_ok_same)
    with Tx_Wake show ?thesis by (simp add: tx_tick_def set_tx_def refs_alive [OF refs t])
  next
    case Tx_Take_Back
    with okp obtain v where v: "os_cell ?c = Some v" "os_shut ?w" by auto
    then have "os_inv (s\<lparr>os_chan := ?c\<lparr>os_cell := None\<rparr>, txs := (txs s)[t := Tx_Drop_Tx (Some (Err (Closed v)))]\<rparr>)"
      using inv t Tx_Take_Back by (intro active_step) simp_all
    with Tx_Take_Back v(1) show ?thesis by (simp add: tx_tick_def set_tx_def refs_alive [OF refs t])
  next
    case (Tx_Drop_Tx x)
    with active_phase [OF inv t] have phase: "os_taken ?w \<or> os_shut ?w" by simp
    have "os_inv (s\<lparr>os_chan := OneshotHeader_drop_tx ?c, os_sent := os_sent s @ [], txs := (txs s)[t := Tx_Release x]\<rparr>)"
      using inv t Tx_Drop_Tx phase shut_words
      by (intro ending_step) (auto simp: OneshotHeader_drop_tx_def)
    with Tx_Drop_Tx show ?thesis by (simp add: tx_tick_def set_tx_def refs_alive [OF refs t])
  next
    case (Tx_Release x)
    from release_refs [OF refs t Tx_Release] obtain o2 where o2: "OneshotRef_drop ?c = Done o2"
      "os_state o2 = ?w" "os_cell o2 = os_cell ?c" "os_wait o2 = os_wait ?c" by blast
    have owned: "refs_ok o2 ((txs s)[t := Tx_Done x]) q" if "refs_ok ?c (txs s) q" for q
      using release_refs [OF that t Tx_Release] o2(1) by auto
    have "os_inv (s\<lparr>os_chan := o2, txs := (txs s)[t := Tx_Done x]\<rparr>)"
      using inv t Tx_Release o2 owned by (intro passive_step) auto
    with Tx_Release o2 show ?thesis by (simp add: tx_tick_def set_tx_def)
  qed
qed

subsection \<open>The steps of the receiver\<close>

text \<open>A step of the receiver that leaves the senders alone.\<close>

lemma rx_stepI:
  assumes inv: "os_inv s" "rxs s = [r]"
    and refs: "os_refs o1 = os_refs (os_chan s)" "r' \<noteq> Rx_Gone" "r \<noteq> Rx_Gone"
    and st: "os_shut (os_state (os_chan s)) = os_shut (os_state o1)"
    and phase: "phase_ok o1 (txs s) r'" and ok: "\<And>p. p \<in> set (txs s) \<Longrightarrow> tx_ok (os_chan s) p \<Longrightarrow> tx_ok o1 p"
    and rx: "rx_ok (closes s) o1 r'" and swap: "r \<noteq> Rx_Swap"
    and log: "\<not> os_shut (os_state o1) \<Longrightarrow> os_sent s = os_got s @ os_pending (os_chan s) r \<Longrightarrow>
      os_sent s = os_got s @ g @ os_pending o1 r'" "os_shut (os_state o1) \<Longrightarrow> g = []"
    and wake: "rx_waits r' \<Longrightarrow> \<not> os_full (os_state o1) \<and> k \<le> length (os_wait o1) \<or>
      rx_waits r \<and> k = marked s \<and> os_wait o1 = os_wait (os_chan s) \<and> os_state o1 = os_state (os_chan s)"
  shows "os_inv (s\<lparr>os_chan := o1, os_got := os_got s @ g, marked := k, rxs := [r']\<rparr>)"
proof -
  have r: "phase_ok (os_chan s) (txs s) r" "\<forall>p \<in> set (txs s). tx_ok (os_chan s) p" "rx_ok (closes s) (os_chan s) r"
    "refs_ok (os_chan s) (txs s) r" "log_ok s r" "wake_ok s r" "closes s \<le> 1"
    "closes s = 0 \<longrightarrow> \<not> os_shut (os_state (os_chan s))"
    "closes s = 1 \<longrightarrow> os_shut (os_state (os_chan s)) \<or> r = Rx_Swap"
    using os_invE [OF inv(1)] inv(2) by (metis list.inject)+
  let ?s = "s\<lparr>os_chan := o1, os_got := os_got s @ g, marked := k, rxs := [r']\<rparr>"
  show ?thesis
  proof (rule os_invI [of _ r'])
    show "refs_ok (os_chan ?s) (txs ?s) r'" using r(4) refs by (simp add: refs_ok_def)
    show "log_ok ?s r'"
      using r(5) log st by (cases "os_shut (os_state o1)") (simp_all add: log_ok_simps)
    show "wake_ok ?s r'" using r(6) wake by (auto simp: wake_ok_def)
    show "tx_ok (os_chan ?s) p" if "p \<in> set (txs ?s)" for p using ok r(2) that by simp
  qed (use r phase rx swap st in auto)
qed

definition rx_quiet :: "'m rx_pc \<Rightarrow> bool" where
  "rx_quiet r \<longleftrightarrow> r = Rx_Cas \<or> r = Rx_Idle \<or> (\<exists>x. r = Rx_Ret x) \<or> (\<exists>c. r = Rx_Poll c)"

lemma quietD:
  "rx_quiet r \<Longrightarrow> rx_ok n o1 r \<and> \<not> rx_waits r \<and> r \<noteq> Rx_Clone \<and> r \<noteq> Rx_Gone \<and> r \<noteq> Rx_Swap \<and> \<not> (\<exists>c v. r = Rx_Store c v)"
  by (auto simp: rx_quiet_def)

lemma poll_ready_quiet:
  "rx_quiet (fst (poll_ready c x o1))"
  "os_state (snd (poll_ready c x o1)) = os_state o1" "os_cell (snd (poll_ready c x o1)) = os_cell o1"
  "os_refs (snd (poll_ready c x o1)) = os_refs o1" "os_wait (snd (poll_ready c x o1)) = os_wait o1"
  by (cases c; cases x; simp add: rx_quiet_def take_sender_next_def)+

lemma poll_ready_facts [simp]:
  "rx_ok n o2 (fst (poll_ready c x o1))" "\<not> rx_waits (fst (poll_ready c x o1))" "fst (poll_ready c x o1) \<noteq> Rx_Clone"
  "fst (poll_ready c x o1) \<noteq> Rx_Gone" "fst (poll_ready c x o1) \<noteq> Rx_Store d v"
  by (cases c; cases x; simp add: take_sender_next_def)+

lemma tokens_rx: "r \<noteq> Rx_Clone \<Longrightarrow> r' \<noteq> Rx_Clone \<Longrightarrow> os_tokens ts r' = os_tokens ts r"
  by (simp add: os_tokens_def)

lemma tokens_zero: "os_tokens ts r = 0 \<Longrightarrow> p \<in> set ts \<Longrightarrow> \<not> tx_active p"
  by (auto simp: os_tokens_def how_many_def filter_empty_conv split: if_split_asm)

lemma tx_ok_shut_cong: "os_cell o2 = os_cell o1 \<Longrightarrow> os_shut (os_state o2) = os_shut (os_state o1) \<Longrightarrow> tx_ok o2 p = tx_ok o1 p"
  by (cases "(o1, p)" rule: tx_ok.cases) simp_all

lemma phase_ok_rx:
  assumes "phase_ok o1 ts r" and "r \<noteq> Rx_Clone" and "r' \<noteq> Rx_Clone" and "\<not> (\<exists>c v. r = Rx_Store c v)"
    and "os_cell o2 = os_cell o1" and "os_state o2 = os_state o1 \<or> os_state o2 = os_state o1 OR RX_WAITING"
  shows "phase_ok o2 ts r'"
proof -
  have "os_idle w \<Longrightarrow> os_idle (w OR RX_WAITING)" "os_taken w \<Longrightarrow> os_taken (w OR RX_WAITING)"
    "os_full w \<Longrightarrow> os_full (w OR RX_WAITING)" "os_shut w \<Longrightarrow> os_shut (w OR RX_WAITING)" for w
    by (auto simp: phase_defs flag_values)
  with assms show ?thesis by (auto simp: phase_ok_def tokens_rx [OF assms(2,3)])
qed

lemma rx_tick_Done:
  assumes "rxs s = [r]" and "r \<noteq> Rx_Clone" and "rx_step a r (os_chan s) = Done (pc, o1)"
  shows "rx_tick 0 a s = Done (s\<lparr>os_chan := o1, os_got := os_got s @ (case pc of Rx_Store c v \<Rightarrow> [v] | _ \<Rightarrow> []),
    marked := (case r of Rx_Poll c \<Rightarrow> length (os_wait (os_chan s)) | _ \<Rightarrow> marked s), rxs := [pc]\<rparr>)"
  using assms by (simp add: rx_tick_def set_rx_def)

lemma poll_bits:
  "os_shut w \<Longrightarrow> w AND OS_CLOSED \<noteq> 0"
  "os_full w \<Longrightarrow> w AND OS_CLOSED = 0 \<and> w AND SENT \<noteq> 0 \<and> w OR RX_WAITING = 15"
  "os_idle w \<Longrightarrow> w AND OS_CLOSED = 0 \<and> w AND SENT = 0 \<and> w AND HAS_TX = 0"
  "os_taken w \<Longrightarrow> w AND OS_CLOSED = 0 \<and> w AND SENT = 0 \<and> w AND HAS_TX \<noteq> 0 \<and> os_waited (w OR RX_WAITING) \<and> \<not> os_full (w OR RX_WAITING)"
  "os_idle w \<or> os_taken w \<or> os_full w \<Longrightarrow> (w AND SENT = 0 \<or> w AND HAS_TX \<noteq> 0) \<and> w AND OS_CLOSED = 0 \<and> \<not> os_shut (w OR RX_WAITING)"
  by (auto simp: phase_defs flag_values)

lemma phase_any:
  "phase_ok o1 ts r \<Longrightarrow> os_idle (os_state o1) \<or> os_taken (os_state o1) \<or> os_full (os_state o1) \<or> os_shut (os_state o1)"
  by (auto simp: phase_ok_def)

lemma waiting_phase:
  assumes "os_idle w \<or> os_taken w \<or> os_full w \<or> os_shut w"
  shows "os_full (w OR RX_WAITING) = os_full w" "os_shut (w OR RX_WAITING) = os_shut w"
  using assms by (auto simp: phase_defs flag_values)

text \<open>A quiet step: the flags but \<open>RX_WAITING\<close>, the cell and the log stay as they are.\<close>

lemma quiet_rx_step:
  assumes inv: "os_inv s" "rxs s = [r]" and r: "r \<noteq> Rx_Clone" "r \<noteq> Rx_Gone" "r \<noteq> Rx_Swap" "\<not> (\<exists>c v. r = Rx_Store c v)"
    and r': "r' \<noteq> Rx_Clone" "r' \<noteq> Rx_Gone" "\<not> (\<exists>c v. r' = Rx_Store c v)" "rx_ok (closes s) o1 r'"
    and o1: "os_refs o1 = os_refs (os_chan s)" "os_cell o1 = os_cell (os_chan s)"
      "os_state o1 = os_state (os_chan s) \<or> os_state o1 = os_state (os_chan s) OR RX_WAITING"
    and wake: "rx_waits r' \<Longrightarrow> \<not> os_full (os_state o1) \<and> k \<le> length (os_wait o1) \<or>
      rx_waits r \<and> k = marked s \<and> os_wait o1 = os_wait (os_chan s) \<and> os_state o1 = os_state (os_chan s)"
  shows "os_inv (s\<lparr>os_chan := o1, os_got := os_got s @ [], marked := k, rxs := [r']\<rparr>)"
proof -
  from inv obtain phase: "phase_ok (os_chan s) (txs s) r" using os_invE [OF inv(1)] inv(2) by (metis list.inject)
  then have shut: "os_shut (os_state (os_chan s)) = os_shut (os_state o1)"
    using o1(3) waiting_phase(2) [OF phase_any] by fastforce
  have pending: "os_pending o1 r' = os_pending (os_chan s) r"
    using o1(2,3) r(4) r'(3) waiting_phase(1) [OF phase_any [OF phase]] by (auto simp: os_pending_def)
  show ?thesis
  proof (rule rx_stepI [OF inv o1(1) r'(2) r(2) shut _ _ r'(4) r(3) _ _ wake])
    show "phase_ok o1 (txs s) r'" using phase_ok_rx [OF phase r(1) r'(1) r(4) o1(2,3)] .
    show "tx_ok o1 p" if "tx_ok (os_chan s) p" for p using that tx_ok_shut_cong [OF o1(2) shut [symmetric]] by simp
  qed (simp_all add: pending)
qed

lemma os_inv_rx:
  assumes "os_inv s" and "rxs s = [r]"
  shows "phase_ok (os_chan s) (txs s) r" "\<And>p. p \<in> set (txs s) \<Longrightarrow> tx_ok (os_chan s) p"
    "rx_ok (closes s) (os_chan s) r" "refs_ok (os_chan s) (txs s) r" "log_ok s r" "wake_ok s r" "closes s \<le> 1"
    "closes s = 0 \<longrightarrow> \<not> os_shut (os_state (os_chan s))"
    "closes s = 1 \<longrightarrow> os_shut (os_state (os_chan s)) \<or> r = Rx_Swap"
  using os_invE [OF assms(1)] assms(2) by (metis list.inject)+

lemma rx_poll_step:
  assumes inv: "os_inv s" "rxs s = [Rx_Poll c]"
  shows "\<exists>s'. rx_tick 0 a s = Done s' \<and> os_inv s' \<and> closes s' = closes s"
proof -
  note parts = os_inv_rx [OF inv]
  let ?c = "os_chan s" let ?w = "os_state ?c"
  let ?o1 = "?c\<lparr>os_state := ?w OR RX_WAITING\<rparr>"
  define n where "n = (if ?w AND OS_CLOSED \<noteq> 0 then poll_ready c (Err RecvError_Closed) ?o1
                 else if ?w AND SENT \<noteq> 0 then (Rx_Copy c, ?o1)
                 else if ?w AND HAS_TX = 0 then poll_ready c (Err RecvError_NoSender) ?o1
                 else (Rx_Wait c, ?o1))"
  have o1: "os_refs (snd n) = os_refs ?c" "os_cell (snd n) = os_cell ?c" "os_state (snd n) = ?w OR RX_WAITING"
    "os_wait (snd n) = os_wait ?c" by (simp_all add: n_def poll_ready_quiet)
  have full: "rx_ok (closes s) (snd n) (fst n) \<and> \<not> (\<exists>c v. fst n = Rx_Store c v) \<and> fst n \<noteq> Rx_Clone \<and> fst n \<noteq> Rx_Gone \<and>
      (rx_waits (fst n) \<longrightarrow> \<not> os_full (os_state (snd n)))"
    using phase_any [OF parts(1)]
  proof (elim disjE)
    assume w: "os_idle ?w"
    then have "n = poll_ready c (Err RecvError_NoSender) ?o1" using poll_bits(3) [OF w] by (simp add: n_def)
    then show ?thesis by simp
  next
    assume w: "os_taken ?w"
    then have "n = (Rx_Wait c, ?o1)" using poll_bits(4) [OF w] by (simp add: n_def)
    then show ?thesis using poll_bits(4) [OF w] by simp
  next
    assume w: "os_full ?w"
    then have "n = (Rx_Copy c, ?o1)" using poll_bits(2) [OF w] by (simp add: n_def)
    moreover have "os_cell ?c \<noteq> None" using parts(1) phases_apart(3) [OF w] by (auto simp: phase_ok_def)
    ultimately show ?thesis using poll_bits(2) [OF w] by simp
  next
    assume w: "os_shut ?w"
    then have "n = poll_ready c (Err RecvError_Closed) ?o1" using poll_bits(1) [OF w] by (simp add: n_def)
    then show ?thesis by simp
  qed
  have step: "rx_step a (Rx_Poll c) ?c = Done (fst n, snd n)"
    by (simp add: refs_alive_rx [OF parts(4)] n_def Let_def)
  have "os_inv (s\<lparr>os_chan := snd n, os_got := os_got s @ [], marked := length (os_wait ?c), rxs := [fst n]\<rparr>)"
    by (rule quiet_rx_step [OF inv]) (use full o1 in auto)
  moreover have "(case fst n of Rx_Store c v \<Rightarrow> [v] | _ \<Rightarrow> []) = []" using full by (cases "fst n") auto
  ultimately show ?thesis using rx_tick_Done [OF inv(2) _ step] by simp
qed

lemma rx_wait_step:
  assumes inv: "os_inv s" "rxs s = [Rx_Wait c]"
  shows "\<exists>s'. rx_tick 0 a s = Done s' \<and> os_inv s' \<and> closes s' = closes s"
proof -
  note parts = os_inv_rx [OF inv]
  let ?c = "os_chan s"
  define n where "n = (case a of
                Pending \<Rightarrow> (Rx_Parked c, ?c)
              | Ready (Err _) \<Rightarrow> poll_ready c (Err RecvError_Closed) ?c
              | Ready (Ok _) \<Rightarrow> (Rx_Poll c, ?c))"
  have o1: "os_refs (snd n) = os_refs ?c" "os_cell (snd n) = os_cell ?c" "os_state (snd n) = os_state ?c"
    "os_wait (snd n) = os_wait ?c" by (simp_all add: n_def poll_ready_quiet split: poll.split sum.split)
  have full: "rx_ok (closes s) (snd n) (fst n) \<and> \<not> (\<exists>c v. fst n = Rx_Store c v) \<and> fst n \<noteq> Rx_Clone \<and> fst n \<noteq> Rx_Gone"
    using parts(3) by (auto simp: n_def split: poll.split sum.split)
  have step: "rx_step a (Rx_Wait c) ?c = Done (fst n, snd n)"
    by (simp add: refs_alive_rx [OF parts(4)] n_def)
  have "os_inv (s\<lparr>os_chan := snd n, os_got := os_got s @ [], marked := marked s, rxs := [fst n]\<rparr>)"
    by (rule quiet_rx_step [OF inv]) (use full o1 in auto)
  moreover have "(case fst n of Rx_Store c v \<Rightarrow> [v] | _ \<Rightarrow> []) = []" using full by (cases "fst n") auto
  ultimately show ?thesis using rx_tick_Done [OF inv(2) _ step] by simp
qed

lemma rx_copy_step:
  assumes inv: "os_inv s" "rxs s = [Rx_Copy c]"
  shows "\<exists>s'. rx_tick 0 a s = Done s' \<and> os_inv s' \<and> closes s' = closes s"
proof -
  note parts = os_inv_rx [OF inv]
  let ?c = "os_chan s"
  from parts(3) obtain v where v: "os_state ?c = 15" "os_cell ?c = Some v" by auto
  with parts(1) have tok: "os_tokens (txs s) (Rx_Copy c) = 0" by (simp add: phase_ok_def)
  then have tok': "os_tokens (txs s) (Rx_Store c v) = 0" by (simp add: os_tokens_def)
  then have "os_inv (s\<lparr>os_chan := ?c\<lparr>os_cell := None\<rparr>, os_got := os_got s @ [v], marked := marked s, rxs := [Rx_Store c v]\<rparr>)"
    using v tokens_zero [OF tok]
    by (intro rx_stepI [OF inv]) (auto simp: phase_ok_def os_pending_def intro: tx_ok_passive)
  moreover have "rx_step a (Rx_Copy c) ?c = Done (Rx_Store c v, ?c\<lparr>os_cell := None\<rparr>)"
    by (simp add: refs_alive_rx [OF parts(4)] v(2))
  from rx_tick_Done [OF inv(2) _ this] have "rx_tick 0 a s =
      Done (s\<lparr>os_chan := ?c\<lparr>os_cell := None\<rparr>, os_got := os_got s @ [v], marked := marked s, rxs := [Rx_Store c v]\<rparr>)" by simp
  ultimately show ?thesis by simp
qed

lemma idle_words: "os_idle HAS_RX" "os_taken (HAS_RX OR HAS_TX)" "os_shut OS_CLOSED" "\<not> os_full HAS_RX" "\<not> os_shut HAS_RX"
  "\<not> os_full (HAS_RX OR HAS_TX)" "\<not> os_shut (HAS_RX OR HAS_TX)"
  by (simp_all add: phase_defs flag_values)

lemma rx_store_step:
  assumes inv: "os_inv s" "rxs s = [Rx_Store c v]"
  shows "\<exists>s'. rx_tick 0 a s = Done s' \<and> os_inv s' \<and> closes s' = closes s"
proof -
  note parts = os_inv_rx [OF inv]
  let ?c = "os_chan s"
  define n where "n = poll_ready c (Ok v) (?c\<lparr>os_state := HAS_RX\<rparr>)"
  have q: "rx_quiet (fst n)" "os_state (snd n) = HAS_RX" "os_cell (snd n) = os_cell ?c" "os_refs (snd n) = os_refs ?c"
    "os_wait (snd n) = os_wait ?c" by (simp_all add: n_def poll_ready_quiet)
  have st: "os_state ?c = 15" using parts(3) by simp
  with parts(1) have tok: "os_tokens (txs s) (Rx_Store c v) = 0" by (simp add: phase_ok_def)
  from tok quietD [OF q(1)] have tok': "os_tokens (txs s) (fst n) = 0" by (simp add: os_tokens_def)
  have "os_inv (s\<lparr>os_chan := snd n, os_got := os_got s @ [], marked := marked s, rxs := [fst n]\<rparr>)"
  proof (rule rx_stepI [OF inv])
    show "phase_ok (snd n) (txs s) (fst n)" using tok' q(2) by (simp add: phase_ok_def idle_words)
    show "tx_ok (snd n) p" if "p \<in> set (txs s)" for p using tokens_zero [OF tok that] by (rule tx_ok_passive)
  qed (use q st quietD [OF q(1)] in \<open>simp_all add: os_pending_simps idle_words\<close>)
  moreover have "rx_step a (Rx_Store c v) ?c = Done (fst n, snd n)"
    by (simp add: refs_alive_rx [OF parts(4)] n_def)
  moreover have "(case fst n of Rx_Store c v \<Rightarrow> [v] | _ \<Rightarrow> []) = []" using quietD [OF q(1)] by (cases "fst n") auto
  ultimately show ?thesis using rx_tick_Done [OF inv(2), of a "fst n" "snd n"] by simp
qed

lemma take_sender_next_quiet: "rx_quiet (take_sender_next st)"
  by (simp add: take_sender_next_def rx_quiet_def)

text \<open>Steps that change nothing but the receiver's place in its call.\<close>

lemma rx_moves:
  assumes inv: "os_inv s" "rxs s = [r]" and r: "r \<noteq> Rx_Clone" "r \<noteq> Rx_Gone" "r \<noteq> Rx_Swap" "\<not> (\<exists>c v. r = Rx_Store c v)"
    and q: "rx_quiet r'"
  shows "os_inv (s\<lparr>rxs := [r']\<rparr>)"
proof -
  have "os_inv (s\<lparr>os_chan := os_chan s, os_got := os_got s @ [], marked := marked s, rxs := [r']\<rparr>)"
    by (rule quiet_rx_step [OF inv r]) (use quietD [OF q] in auto)
  then show ?thesis by simp
qed

lemma rx_cas_step:
  assumes inv: "os_inv s" "rxs s = [Rx_Cas]"
  shows "\<exists>s'. rx_tick 0 a s = Done s' \<and> os_inv s' \<and> closes s' = closes s"
proof -
  note parts = os_inv_rx [OF inv]
  let ?c = "os_chan s"
  show ?thesis
  proof (cases "os_state ?c = HAS_RX")
    case True
    with parts(1) phases_apart(1) [OF idle_words(1)] have tok: "os_tokens (txs s) Rx_Cas = 0" by (auto simp: phase_ok_def)
    then have tok': "os_tokens (txs s) Rx_Clone = 1" by (simp add: os_tokens_def)
    have "os_inv (s\<lparr>os_chan := ?c\<lparr>os_state := HAS_RX OR HAS_TX\<rparr>, os_got := os_got s @ [], marked := marked s, rxs := [Rx_Clone]\<rparr>)"
    proof (rule rx_stepI [OF inv])
      show "phase_ok (?c\<lparr>os_state := HAS_RX OR HAS_TX\<rparr>) (txs s) Rx_Clone" using tok' by (simp add: phase_ok_def idle_words)
      show "tx_ok (?c\<lparr>os_state := HAS_RX OR HAS_TX\<rparr>) p" if "p \<in> set (txs s)" for p
        using tokens_zero [OF tok that] by (rule tx_ok_passive)
    qed (use True in \<open>simp_all add: os_pending_simps idle_words\<close>)
    with True show ?thesis by (simp add: rx_tick_def inv(2) set_rx_def refs_alive_rx [OF parts(4)] Let_def)
  next
    case False
    let ?w = "os_state ?c"
    define r where "r = (if ?w AND SENT \<noteq> 0 then Rx_Poll (Call_Sender ?w) else take_sender_next ?w :: 'a rx_pc)"
    have quiet: "rx_quiet r" by (simp add: r_def take_sender_next_quiet) (simp add: rx_quiet_def)
    have "os_inv (s\<lparr>rxs := [r]\<rparr>)" by (rule rx_moves [OF inv _ _ _ _ quiet]) simp_all
    moreover have step: "rx_step a Rx_Cas ?c = Done (r, ?c)"
      using False by (simp add: refs_alive_rx [OF parts(4)] Let_def r_def)
    moreover have "(case r of Rx_Store c v \<Rightarrow> [v] | _ \<Rightarrow> []) = []" using quietD [OF quiet] by (cases r) auto
    ultimately show ?thesis using rx_tick_Done [OF inv(2) _ step] by simp
  qed
qed

lemma rx_clone_step:
  assumes inv: "os_inv s" "rxs s = [Rx_Clone]"
  shows "\<exists>s'. rx_tick 0 a s = Done s' \<and> os_inv s' \<and> closes s' = closes s"
proof -
  note parts = os_inv_rx [OF inv]
  let ?c = "os_chan s" and ?r = "Rx_Ret (Sender_Result (Ok ()))"
  obtain o2 where o2: "OneshotRef_clone ?c = Done o2" "os_state o2 = os_state ?c" "os_cell o2 = os_cell ?c"
    "os_wait o2 = os_wait ?c" "refs_ok o2 (txs s @ [Tx_Idle]) ?r"
    using parts(4) by (cases "os_refs ?c") (auto simp: OneshotRef_clone_def refs_ok_def)
  have taken: "os_taken (os_state ?c)" using parts(3) by simp
  note apart = phases_apart(2) [OF taken]
  let ?s = "s\<lparr>os_chan := o2, txs := txs s @ [Tx_Idle], rxs := [?r]\<rparr>"
  have "os_inv ?s"
  proof (rule os_invI [of _ ?r])
    show "phase_ok (os_chan ?s) (txs ?s) ?r" using parts(1) apart o2(2) by (simp add: phase_ok_def os_tokens_def)
    show "tx_ok (os_chan ?s) p" if "p \<in> set (txs ?s)" for p
      using that parts(2) tx_ok_cong [OF o2(3,2), of p] by auto
    show "log_ok ?s ?r" using parts(5) apart o2(2) by (simp add: log_ok_simps os_pending_simps)
  qed (use parts o2 apart in \<open>simp_all add: wake_ok_def\<close>)
  moreover have "rx_tick 0 a s = Done ?s" using inv(2) o2(1) by (simp add: rx_tick_def set_rx_def)
  ultimately show ?thesis by simp
qed

lemma rx_swap_step:
  assumes inv: "os_inv s" "rxs s = [Rx_Swap]"
  shows "\<exists>s'. rx_tick 0 a s = Done s' \<and> os_inv s' \<and> closes s' = closes s"
proof -
  note parts = os_inv_rx [OF inv]
  let ?c = "os_chan s"
  let ?o1 = "?c\<lparr>os_state := OS_CLOSED\<rparr>" and ?r = "Rx_Wait_Close (os_state ?c)"
  let ?s = "s\<lparr>os_chan := ?o1, rxs := [?r]\<rparr>"
  have open1: "closes s = 1" "\<not> os_shut (os_state ?c)" using parts(3) by simp_all
  have "os_inv ?s"
  proof (rule os_invI [of _ ?r])
    show "phase_ok (os_chan ?s) (txs ?s) ?r"
      using tokens_bound [OF parts(1)] by (simp add: phase_ok_def idle_words tokens_rx [of Rx_Swap ?r])
    show "tx_ok (os_chan ?s) p" if "p \<in> set (txs ?s)" for p
      using parts(2) [of p] that idle_words(3) by (cases "(?c, p)" rule: tx_ok.cases) auto
    show "rx_ok (closes ?s) (os_chan ?s) ?r" using phase_any [OF parts(1)] open1(2) by auto
    have "length (os_pending ?c Rx_Swap) \<le> 1" by (simp add: os_pending_def split: option.split)
    then show "log_ok ?s ?r" using parts(5) open1(2) by (auto simp: log_ok_simps idle_words)
  qed (use parts open1 in \<open>simp_all add: wake_ok_def refs_ok_def idle_words\<close>)
  moreover have "rx_tick 0 a s = Done ?s"
    using inv(2) by (simp add: rx_tick_def set_rx_def refs_alive_rx [OF parts(4)])
  ultimately show ?thesis by simp
qed

lemma rx_wait_close_step:
  assumes inv: "os_inv s" "rxs s = [Rx_Wait_Close w]"
  shows "\<exists>s'. rx_tick 0 a s = Done s' \<and> os_inv s' \<and> closes s' = closes s"
proof -
  note parts = os_inv_rx [OF inv]
  let ?c = "os_chan s"
  let ?o1 = "?c\<lparr>os_wait := os_wait ?c @ [Wake_Close]\<rparr>"
  have w: "(w AND SENT = 0 \<or> w AND HAS_TX \<noteq> 0) \<and> w AND OS_CLOSED = 0" using parts(3) poll_bits(5) by simp
  have "os_inv (s\<lparr>os_chan := ?o1, os_got := os_got s @ [], marked := marked s, rxs := [Rx_Ret Closed_It]\<rparr>)"
    by (rule quiet_rx_step [OF inv]) simp_all
  moreover have "rx_step a (Rx_Wait_Close w) ?c = Done (Rx_Ret Closed_It, ?o1)"
    using w by (auto simp: refs_alive_rx [OF parts(4)] Let_def)
  from rx_tick_Done [OF inv(2) _ this] have "rx_tick 0 a s =
      Done (s\<lparr>os_chan := ?o1, os_got := os_got s @ [], marked := marked s, rxs := [Rx_Ret Closed_It]\<rparr>)" by simp
  ultimately show ?thesis by simp
qed

lemma rx_release_step:
  assumes inv: "os_inv s" "rxs s = [Rx_Release]"
  shows "\<exists>s'. rx_tick 0 a s = Done s' \<and> os_inv s' \<and> closes s' = closes s"
proof -
  note parts = os_inv_rx [OF inv]
  let ?c = "os_chan s"
  obtain o2 where o2: "OneshotRef_drop ?c = Done o2" "os_state o2 = os_state ?c" "os_cell o2 = os_cell ?c"
    "os_wait o2 = os_wait ?c" "refs_ok o2 (txs s) Rx_Gone"
    using parts(4) by (cases "os_refs ?c") (auto simp: OneshotRef_drop_def refs_ok_def)
  let ?s = "s\<lparr>os_chan := o2, rxs := [Rx_Gone]\<rparr>"
  have "os_inv ?s"
  proof (rule os_invI [of _ Rx_Gone])
    show "phase_ok (os_chan ?s) (txs ?s) Rx_Gone" using parts(1) o2(2,3) by (simp add: phase_ok_def os_tokens_def)
    show "tx_ok (os_chan ?s) p" if "p \<in> set (txs ?s)" for p
      using that parts(2) tx_ok_cong [OF o2(3,2), of p] by simp
    have "os_pending o2 Rx_Gone = os_pending ?c Rx_Release" using o2(2,3) by (simp add: os_pending_def)
    then show "log_ok ?s Rx_Gone" using parts(5) o2(2) by (cases "os_shut (os_state ?c)") (simp_all add: log_ok_simps)
  qed (use parts o2 in \<open>simp_all add: wake_ok_def\<close>)
  moreover have "rx_tick 0 a s = Done ?s" using inv(2) o2(1) by (simp add: rx_tick_def set_rx_def)
  ultimately show ?thesis by simp
qed

lemma rx_tick_inv:
  assumes inv: "os_inv s" and t: "t < length (rxs s)"
  shows "\<exists>s'. rx_tick t a s = Done s' \<and> os_inv s' \<and> closes s' = closes s"
proof -
  from inv obtain r where r: "rxs s = [r]" by (rule os_invE)
  with t have t0: "t = 0" by simp
  have same: "\<exists>s'. rx_tick 0 a s = Done s' \<and> os_inv s' \<and> closes s' = closes s"
    if "rx_step a r (os_chan s) = Done (r, os_chan s)" "r \<noteq> Rx_Clone" "\<not> (\<exists>c v. r = Rx_Store c v)"
      "\<not> (\<exists>c. r = Rx_Poll c)"
  proof -
    have "s\<lparr>rxs := [r]\<rparr> = s" using r by simp
    moreover have "(case r of Rx_Store c v \<Rightarrow> [v] | _ \<Rightarrow> []) = []" using that(3) by (cases r) auto
    moreover have "(case r of Rx_Poll c \<Rightarrow> length (os_wait (os_chan s)) | _ \<Rightarrow> marked s) = marked s"
      using that(4) by (cases r) auto
    ultimately show ?thesis using rx_tick_Done [OF r that(2,1)] inv by simp
  qed
  let ?P = "\<exists>s'. rx_tick 0 a s = Done s' \<and> os_inv s' \<and> closes s' = closes s"
  have ?P
  proof (cases r)
    case Rx_Idle then show ?P using same by simp
  next
    case (Rx_Poll c) with r show ?P by (intro rx_poll_step [OF inv]) simp
  next
    case (Rx_Wait c) with r show ?P by (intro rx_wait_step [OF inv]) simp
  next
    case (Rx_Parked c) then show ?P using same by simp
  next
    case (Rx_Copy c) with r show ?P by (intro rx_copy_step [OF inv]) simp
  next
    case (Rx_Store c v) with r show ?P by (intro rx_store_step [OF inv]) simp
  next
    case Rx_Cas with r show ?P by (intro rx_cas_step [OF inv]) simp
  next
    case Rx_Clone with r show ?P by (intro rx_clone_step [OF inv]) simp
  next
    case Rx_Swap with r show ?P by (intro rx_swap_step [OF inv]) simp
  next
    case (Rx_Wait_Close w) with r show ?P by (intro rx_wait_close_step [OF inv]) simp
  next
    case Rx_Drop_Cell with os_inv_rx(3) [OF inv r] show ?P by simp
  next
    case Rx_Release with r show ?P by (intro rx_release_step [OF inv]) simp
  next
    case (Rx_Ret x) then show ?P using same by simp
  next
    case Rx_Gone then show ?P using same by simp
  qed
  with t0 show ?thesis by simp
qed

subsection \<open>Every interleaving\<close>

fun is_close :: "'m os_action \<Rightarrow> bool" where
  "is_close (Close t) = True"
| "is_close _ = False"

text \<open>The beginning of a call, and its end by cancellation.\<close>

lemma begin_tx_inv:
  assumes inv: "os_inv s" and t: "t < length (txs s)" "txs s ! t = Tx_Idle" and pc: "tx_active pc" "tx_ok (os_chan s) pc"
  shows "os_inv (set_tx t pc s)"
proof -
  have "os_inv (s\<lparr>os_chan := os_chan s, txs := (txs s)[t := pc]\<rparr>)"
    using inv t pc by (intro active_step) simp_all
  then show ?thesis by (simp add: set_tx_def)
qed

lemma rx_only:
  assumes "os_inv s" and "t < length (rxs s)"
  shows "t = 0 \<and> rxs s = [rxs s ! t]"
  using assms by (elim os_invE) auto

lemma begin_rx_inv:
  assumes inv: "os_inv s" and t: "t < length (rxs s)" and pc: "rx_free (rxs s ! t) \<or> rx_waits (rxs s ! t)" "rx_quiet r'"
  shows "os_inv (set_rx t r' s)"
proof -
  note r = conjunct1 [OF rx_only [OF inv t]] conjunct2 [OF rx_only [OF inv t]]
  have "rxs s ! t \<noteq> Rx_Clone" "rxs s ! t \<noteq> Rx_Gone" "rxs s ! t \<noteq> Rx_Swap" "\<not> (\<exists>c v. rxs s ! t = Rx_Store c v)"
    using pc(1) by (cases "rxs s ! t"; simp)+
  from rx_moves [OF inv r(2) this pc(2)] r show ?thesis by (metis list_update_code(2) set_rx_def)
qed

lemma close_inv:
  assumes inv: "os_inv s" and t: "t < length (rxs s)" and free: "rx_free (rxs s ! t)" and "closes s = 0"
  shows "os_inv ((set_rx t Rx_Swap s)\<lparr>closes := closes s + 1\<rparr>)"
proof -
  note r = conjunct1 [OF rx_only [OF inv t]] conjunct2 [OF rx_only [OF inv t]]
  note parts = os_inv_rx [OF inv r(2)]
  let ?s = "s\<lparr>rxs := [Rx_Swap], closes := 1\<rparr>"
  have other: "rxs s ! t \<noteq> Rx_Clone" "rxs s ! t \<noteq> Rx_Gone" "\<not> (\<exists>c v. rxs s ! t = Rx_Store c v)"
    using free by (cases "rxs s ! t"; simp)+
  have open1: "\<not> os_shut (os_state (os_chan s))" using parts(8) assms(4) by simp
  have "os_inv ?s"
  proof (rule os_invI [of _ Rx_Swap])
    show "phase_ok (os_chan ?s) (txs ?s) Rx_Swap"
      using phase_ok_rx [OF parts(1) other(1) _ other(3), of Rx_Swap "os_chan s"] by simp
    show "log_ok ?s Rx_Swap" using parts(5) open1 other(3) by (simp add: log_ok_simps os_pending_def)
  qed (use parts open1 other in \<open>simp_all add: wake_ok_def refs_ok_def\<close>)
  moreover have "(set_rx t Rx_Swap s)\<lparr>closes := closes s + 1\<rparr> = ?s"
    using r assms(4) by (metis One_nat_def add_0 list_update_code(2) set_rx_def)
  ultimately show ?thesis by simp
qed

lemma os_release_inv:
  assumes inv: "os_inv s" and t: "t < length (rxs s)" and free: "rx_free (rxs s ! t)"
  shows "os_inv (set_rx t Rx_Release s)"
proof -
  note r = conjunct1 [OF rx_only [OF inv t]] conjunct2 [OF rx_only [OF inv t]]
  have "rxs s ! t \<noteq> Rx_Clone" "rxs s ! t \<noteq> Rx_Gone" "rxs s ! t \<noteq> Rx_Swap" "\<not> (\<exists>c v. rxs s ! t = Rx_Store c v)"
    using free by (cases "rxs s ! t"; simp)+
  from quiet_rx_step [OF inv r(2) this, of Rx_Release "os_chan s" "marked s"]
  have "os_inv (s\<lparr>rxs := [Rx_Release]\<rparr>)" by simp
  with r show ?thesis by (metis list_update_code(2) set_rx_def)
qed

lemma os_act_inv:
  assumes "os_inv s" and "closes s + (if is_close x then 1 else 0) \<le> 1"
  shows "\<exists>s'. os_act x s = Done s' \<and> os_inv s' \<and> closes s' \<le> closes s + (if is_close x then 1 else 0)"
  using assms
proof (cases x)
  case (Tx_Tick t)
  with assms(1) tx_tick_inv [OF assms(1), of t] show ?thesis by (cases "t < length (txs s)") auto
next
  case (Rx_Tick t a)
  with assms(1) rx_tick_inv [OF assms(1), of t a] show ?thesis by (cases "t < length (rxs s)") auto
next
  case (Poll_Again t)
  with assms(1) begin_rx_inv [OF assms(1), of t] show ?thesis
    by (cases "t < length (rxs s)"; cases "rxs s ! t") (auto simp: rx_quiet_def set_rx_def)
next
  case (Cancel t)
  with assms(1) begin_rx_inv [OF assms(1), of t] show ?thesis
    by (cases "t < length (rxs s)"; cases "rxs s ! t") (auto simp: rx_quiet_def set_rx_def)
next
  case (Close t)
  with assms close_inv [OF assms(1), of t] show ?thesis
    by (cases "t < length (rxs s) \<and> rx_free (rxs s ! t)") (auto simp: set_rx_def)
next
  case (Drop_Receiver t)
  with assms(1) os_release_inv [OF assms(1), of t] show ?thesis
    by (cases "length (rxs s) = 1 \<and> t = 0 \<and> rx_free (rxs s ! t)") (auto simp: set_rx_def)
next
  case (Send t m)
  with assms(1) begin_tx_inv [OF assms(1), of t "Tx_Write m"] show ?thesis
    by (cases "t < length (txs s) \<and> txs s ! t = Tx_Idle") (auto simp: set_tx_def)
next
  case (Drop_Sender t)
  with assms(1) begin_tx_inv [OF assms(1), of t "Tx_Drop_Tx None"] show ?thesis
    by (cases "t < length (txs s) \<and> txs s ! t = Tx_Idle") (auto simp: set_tx_def)
next
  case (Recv t)
  with assms(1) begin_rx_inv [OF assms(1), of t "Rx_Poll Call_Recv"] show ?thesis
    by (cases "t < length (rxs s) \<and> rx_free (rxs s ! t)") (auto simp: rx_quiet_def set_rx_def)
next
  case (Ask_Sender t)
  with assms(1) begin_rx_inv [OF assms(1), of t Rx_Cas] show ?thesis
    by (cases "t < length (rxs s) \<and> rx_free (rxs s ! t)") (auto simp: rx_quiet_def set_rx_def)
qed

lemma os_acts_inv:
  assumes "os_inv s" and "closes s + length (filter is_close xs) \<le> 1"
  shows "\<exists>s'. os_acts xs s = Done s' \<and> os_inv s'"
  using assms
proof (induction xs arbitrary: s)
  case (Cons x xs)
  from os_act_inv [OF Cons.prems(1), of x] Cons.prems(2) obtain s1 where s1: "os_act x s = Done s1" "os_inv s1"
    "closes s1 \<le> closes s + (if is_close x then 1 else 0)" by (auto split: if_split_asm)
  have "closes s1 + length (filter is_close xs) \<le> 1" using s1(3) Cons.prems(2) by (auto split: if_split_asm)
  from Cons.IH [OF s1(2) this] s1(1) show ?case by simp
qed simp

lemma os_new_inv:
  assumes "os_state o1 = HAS_RX" and "os_refs o1 = Static \<or> os_refs o1 = Arc 1" and "os_wait o1 = []"
  shows "os_inv (os_system_new 1 o1)"
  using assms
  by (intro os_invI [of _ Rx_Idle])
    (auto simp: os_system_new_def phase_ok_def os_tokens_def refs_ok_def log_ok_simps os_pending_simps wake_ok_def idle_words)

end
