(* ===== verification/Oneshot_Atomic_Properties.thy ===== *)
theory Oneshot_Atomic_Properties
  imports Oneshot_Atomic_Inv
begin

section \<open>What holds of one-shot channels under every interleaving\<close>

subsection \<open>Safety\<close>

lemma case_Done:
  "(case x of Done s \<Rightarrow> P s | Panic \<Rightarrow> False | Running \<Rightarrow> False | UB \<Rightarrow> False) \<Longrightarrow> \<exists>s. x = Done s \<and> P s"
  by (cases x) simp_all

lemma os_new_acts:
  assumes "length (filter is_close xs) \<le> 1"
  shows "\<exists>s. os_acts xs (os_system_new 1 (OneshotReceiver_new t)) = Done s \<and> os_inv s"
proof -
  have "os_inv (os_system_new 1 (OneshotReceiver_new t))"
    by (intro os_new_inv) (simp_all add: OneshotReceiver_new_def)
  moreover have "closes (os_system_new 1 (OneshotReceiver_new t)) + length (filter is_close xs) \<le> 1"
    using assms by (simp add: os_system_new_def)
  ultimately show ?thesis by (rule os_acts_inv)
qed

text \<open>
  C11: However the accesses of one receiver and of all its senders to the shared memory interleave,
  with at most one call of \<open>close\<close>, no thread panics, reads a cell without a value or touches freed
  memory. The messages that the receiver has taken are those whose \<open>send\<close> has succeeded, in order,
  but for at most one, which is in the cell as long as the channel is not closed; and the reference
  count is the number of handles that still exist.
\<close>

theorem oneshot_interleavings_safe:
  assumes "length (filter is_close xs) \<le> 1"
  shows "\<exists>s r l. os_acts xs (os_system_new 1 (OneshotReceiver_new t)) = Done s \<and> rxs s = [r] \<and>
    os_sent s = os_got s @ l \<and> length l \<le> 1 \<and>
    (os_state (os_chan s) AND OS_CLOSED = 0 \<longrightarrow> l = os_pending (os_chan s) r) \<and>
    (\<forall>n. os_refs (os_chan s) = Arc n \<longrightarrow> n = length (filter tx_owns (txs s)) + (if r = Rx_Gone then 0 else 1))"
proof -
  from os_new_acts [OF assms, of t] obtain s where s: "os_acts xs (os_system_new 1 (OneshotReceiver_new t)) = Done s"
    "os_inv s" by blast
  from s(2) obtain r where r: "rxs s = [r]" by (rule os_invE)
  note parts = os_inv_rx [OF s(2) r]
  have refs: "\<forall>n. os_refs (os_chan s) = Arc n \<longrightarrow> n = length (filter tx_owns (txs s)) + (if r = Rx_Gone then 0 else 1)"
    using parts(4) by (simp add: refs_ok_def how_many_def)
  show ?thesis
  proof (cases "os_shut (os_state (os_chan s))")
    case True
    with parts(5) obtain l where "length l \<le> 1" "os_sent s = os_got s @ l" by (auto simp: log_ok_simps)
    with s r refs closed_bit(1) [OF True] show ?thesis by (intro exI [of _ s] exI [of _ r] exI [of _ l]) simp
  next
    case False
    have "length (os_pending (os_chan s) r) \<le> 1" by (simp add: os_pending_def split: option.split)
    with s r refs parts(5) False show ?thesis
      by (intro exI [of _ s] exI [of _ r] exI [of _ "os_pending (os_chan s) r"]) (simp add: log_ok_simps)
  qed
qed

text \<open>A sender that is interrupted between its two steps by a receiver that begins to wait.\<close>

definition meeting :: "nat os_action list" where
  "meeting = [Ask_Sender 0, Rx_Tick 0 Pending, Rx_Tick 0 Pending, Send 0 7, Recv 0, Rx_Tick 0 Pending, Tx_Tick 0,
     Rx_Tick 0 Pending, Tx_Tick 0]"

definition meeting_end :: "nat os_action list" where
  "meeting_end = meeting @ [Tx_Tick 0, Tx_Tick 0, Poll_Again 0, Rx_Tick 0 Pending, Rx_Tick 0 Pending, Rx_Tick 0 Pending,
     Close 0, Rx_Tick 0 Pending, Rx_Tick 0 Pending, Drop_Receiver 0, Rx_Tick 0 Pending]"

theorem oneshot_interleavings_safe_witness:
  "\<exists>s. os_acts meeting_end (os_system_new 1 (OneshotReceiver_new 3)) = Done s \<and> os_got s = [7] \<and> os_sent s = [7] \<and>
    os_refs (os_chan s) = Arc 0"
proof -
  have "length (filter is_close meeting_end) \<le> 1" by (simp add: meeting_end_def meeting_def)
  from oneshot_interleavings_safe [OF this, of 3] obtain s where
    s: "os_acts meeting_end (os_system_new 1 (OneshotReceiver_new 3)) = Done s" by blast
  have "case os_acts meeting_end (os_system_new 1 (OneshotReceiver_new 3)) of
      Done s \<Rightarrow> os_got s = [7] \<and> os_sent s = [7] \<and> os_refs (os_chan s) = Arc 0 | _ \<Rightarrow> False" by code_simp
  with s show ?thesis by simp
qed

subsection \<open>Wake-ups\<close>

lemma full_bits:
  assumes "os_idle w \<or> os_taken w \<or> os_full w \<or> os_shut w" and "w AND SENT \<noteq> 0" and "w AND OS_CLOSED = 0"
  shows "os_full w"
  using assms by (auto simp: phase_defs flag_values)

text \<open>
  C12: No wake-up is lost: whenever the receiver is suspended, a message has been sent, the channel is
  not closed and no sender is still inside \<open>send\<close> about to wake the receiver, the wait cell has been
  told to wake it since the receiver announced that it waits.
\<close>

theorem oneshot_no_lost_wakeup:
  assumes "length (filter is_close xs) \<le> 1" and "os_acts xs (os_system_new 1 (OneshotReceiver_new t)) = Done s"
    and "rxs s = [Rx_Parked c]" and "os_state (os_chan s) AND SENT \<noteq> 0" and "os_state (os_chan s) AND OS_CLOSED = 0"
    and "Tx_Wake \<notin> set (txs s)"
  shows "Wake \<in> set (drop (marked s) (os_wait (os_chan s)))"
proof -
  from os_new_acts [OF assms(1), of t] assms(2) have inv: "os_inv s" by simp
  note parts = os_inv_rx [OF inv assms(3)]
  from full_bits [OF phase_any [OF parts(1)] assms(4,5)] parts(6) assms(6) show ?thesis by (simp add: wake_ok_def)
qed

theorem oneshot_no_lost_wakeup_witness:
  "\<exists>s. os_acts (meeting @ [Tx_Tick 0]) (os_system_new 1 (OneshotReceiver_new 3)) = Done s \<and>
    rxs s = [Rx_Parked Call_Recv] \<and> Wake \<in> set (drop (marked s) (os_wait (os_chan s)))"
proof -
  let ?xs = "meeting @ [Tx_Tick 0]"
  have close: "length (filter is_close ?xs) \<le> 1" by (simp add: meeting_def)
  have "case os_acts ?xs (os_system_new 1 (OneshotReceiver_new 3)) of
      Done s \<Rightarrow> rxs s = [Rx_Parked Call_Recv] \<and> os_state (os_chan s) AND SENT \<noteq> 0 \<and>
        os_state (os_chan s) AND OS_CLOSED = 0 \<and> Tx_Wake \<notin> set (txs s) | _ \<Rightarrow> False" by code_simp
  then obtain s where s: "os_acts ?xs (os_system_new 1 (OneshotReceiver_new 3)) = Done s"
    "rxs s = [Rx_Parked Call_Recv]" "os_state (os_chan s) AND SENT \<noteq> 0"
    "os_state (os_chan s) AND OS_CLOSED = 0" "Tx_Wake \<notin> set (txs s)" by (auto split: outcome.split_asm)
  from oneshot_no_lost_wakeup [OF close s] s(1,2) show ?thesis by blast
qed

subsection \<open>Calls that run alone\<close>

fun tx_alone :: "nat \<Rightarrow> 'm tx_pc \<Rightarrow> 'm oneshot \<Rightarrow> ('m tx_pc \<times> 'm oneshot) outcome" where
  "tx_alone 0 pc o1 = Done (pc, o1)"
| "tx_alone (Suc n) pc o1 = outcome_bind (tx_step pc o1) (\<lambda>(pc', o2). tx_alone n pc' o2)"

fun rx_alone :: "(unit + unit) poll \<Rightarrow> nat \<Rightarrow> 'm rx_pc \<Rightarrow> 'm oneshot \<Rightarrow> ('m rx_pc \<times> 'm oneshot) outcome" where
  "rx_alone a 0 pc o1 = Done (pc, o1)"
| "rx_alone a (Suc n) pc o1 = outcome_bind (rx_step a pc o1) (\<lambda>(pc', o2). rx_alone a n pc' o2)"

fun recv_return :: "(OneshotRecvError + 'm) poll \<Rightarrow> 'm rx_pc" where
  "recv_return Pending = Rx_Parked Call_Recv"
| "recv_return (Ready (Ok v)) = Rx_Ret (Got v)"
| "recv_return (Ready (Err e)) = Rx_Ret (No_Message e)"

text \<open>
  A thread that runs alone through the steps of a call has the result of the sequential definition
  in \<open>Oneshot\<close>: the two models agree.
\<close>

lemma tx_alone_done: "tx_alone n (Tx_Done r) o1 = Done (Tx_Done r, o1)"
  by (induction n) simp_all

lemma oneshot_send_alone:
  assumes "os_refs o1 \<noteq> Arc 0"
  shows "tx_alone 5 (Tx_Write m) o1 = outcome_map (\<lambda>(o2, r). (Tx_Done (Some r), o2)) (OneshotSender_send o1 m)"
  using assms
  by (cases "os_refs o1")
    (auto simp: numeral_eq_Suc os_deref_def OneshotSender_send_def OneshotHeader_finish_write_def
      OneshotSender_drop_def OneshotHeader_drop_tx_def OneshotRef_drop_def Let_def tx_alone_done)

lemma oneshot_drop_alone:
  assumes "os_refs o1 \<noteq> Arc 0"
  shows "tx_alone 2 (Tx_Drop_Tx None) o1 = outcome_map (\<lambda>o2. (Tx_Done None, o2)) (OneshotSender_drop False o1)"
  using assms
  by (cases "os_refs o1")
    (auto simp: numeral_eq_Suc os_deref_def OneshotSender_drop_def OneshotHeader_drop_tx_def OneshotRef_drop_def)

lemma oneshot_recv_alone:
  assumes "os_refs o1 \<noteq> Arc 0"
  shows "rx_alone Pending 3 (Rx_Poll Call_Recv) o1 =
    outcome_map (\<lambda>(o2, r). (recv_return r, o2)) (OneshotReceiver_poll_recv [Pending] o1)"
  using assms
  by (cases "os_cell o1")
    (auto simp: numeral_eq_Suc os_deref_def OneshotReceiver_poll_recv_def Oneshot_take_value_def Let_def)

lemma os_deref_live: "os_refs o1 \<noteq> Arc 0 \<Longrightarrow> os_deref o1 x = x"
  by (simp add: os_deref_def)

lemma oneshot_close_alone:
  assumes "os_refs o1 \<noteq> Arc 0"
  shows "rx_alone a 3 Rx_Swap o1 = outcome_map (\<lambda>o2. (Rx_Ret Closed_It, o2)) (OneshotReceiver_close o1)"
proof -
  let ?st = "os_state o1" let ?o = "o1\<lparr>os_state := OS_CLOSED, os_wait := os_wait o1 @ [Wake_Close]\<rparr>"
  have swap: "rx_alone a 3 Rx_Swap o1 = rx_alone a 2 (Rx_Wait_Close ?st) (o1\<lparr>os_state := OS_CLOSED\<rparr>)"
    using assms by (simp add: numeral_eq_Suc os_deref_live Let_def)
  consider (drop) "?st AND SENT \<noteq> 0 \<and> ?st AND HAS_TX = 0"
    | (none) "\<not> (?st AND SENT \<noteq> 0 \<and> ?st AND HAS_TX = 0)" "?st AND OS_CLOSED = 0"
    | (twice) "\<not> (?st AND SENT \<noteq> 0 \<and> ?st AND HAS_TX = 0)" "?st AND OS_CLOSED \<noteq> 0" by blast
  then show ?thesis
  proof cases
    case drop
    then have code: "OneshotReceiver_close o1 = oneshot_drop_cell ?o"
      by (simp add: OneshotReceiver_close_def OneshotHeader_close_def Let_def)
    have "rx_alone a 2 (Rx_Wait_Close ?st) (o1\<lparr>os_state := OS_CLOSED\<rparr>) = rx_alone a 1 Rx_Drop_Cell ?o"
      using assms drop by (simp add: numeral_eq_Suc os_deref_live Let_def)
    also have "\<dots> = outcome_map (Pair (Rx_Ret Closed_It)) (oneshot_drop_cell ?o)"
      using assms by (cases "oneshot_drop_cell ?o") (simp_all add: os_deref_live)
    finally show ?thesis unfolding swap code .
  next
    case none
    then have code: "OneshotReceiver_close o1 = Done ?o"
      by (simp only: OneshotReceiver_close_def OneshotHeader_close_def Let_def simp_thms if_True if_False
        outcome_bind.simps prod.case)
    from none show ?thesis unfolding swap code using assms
      by (simp only: numeral_eq_Suc rx_alone.simps rx_step.simps close_wait_step_def os_deref_live Let_def if_True if_False)
        (simp add: os_deref_live)
  next
    case twice
    then have code: "OneshotReceiver_close o1 = Panic"
      by (simp only: OneshotReceiver_close_def OneshotHeader_close_def Let_def if_True if_False outcome_bind.simps)
    show ?thesis unfolding swap code using assms twice
      by (simp only: numeral_eq_Suc rx_alone.simps rx_step.simps close_wait_step_def os_deref_live Let_def if_True if_False)
        (simp add: os_deref_live)
  qed
qed

subsection \<open>Beyond the hypotheses\<close>

text \<open>
  \<open>Receiver\<close> is \<open>Sync\<close> and its methods take a shared reference. Two tasks that receive through one
  receiver can both find the message: the second reads the cell that the first has moved it out of.
\<close>

lemma oneshot_shared_receiver_reads_twice:
  "os_acts [Ask_Sender 0, Rx_Tick 0 Pending, Rx_Tick 0 Pending, Send 0 7, Tx_Tick 0, Tx_Tick 0, Recv 0, Recv 1,
      Rx_Tick 0 Pending, Rx_Tick 1 Pending, Rx_Tick 0 Pending, Rx_Tick 1 Pending]
     (os_system_new 2 (OneshotReceiver_new 3) :: nat os_system) = UB"
  by code_simp

text \<open>
  A message that was sent and not received is not dropped by \<open>close\<close>, which looks for the flags
  \<open>SENT\<close> without \<open>HAS_TX\<close>: a sender that has sent leaves \<open>HAS_TX\<close> set. The memory is freed with the
  message still in the cell.
\<close>

lemma oneshot_close_leaks_message:
  "\<exists>s. os_acts [Ask_Sender 0, Rx_Tick 0 Pending, Rx_Tick 0 Pending, Send 0 7, Tx_Tick 0, Tx_Tick 0, Tx_Tick 0,
      Close 0, Rx_Tick 0 Pending, Rx_Tick 0 Pending, Drop_Receiver 0, Rx_Tick 0 Pending]
     (os_system_new 1 (OneshotReceiver_new 3) :: nat os_system) = Done s \<and>
    os_sent s = [7] \<and> os_got s = [] \<and> os_refs (os_chan s) = Arc 0 \<and> os_cell (os_chan s) = Some 7 \<and>
    os_dropped (os_chan s) = []" (is "\<exists>s. os_acts ?xs ?s = Done s \<and> _")
proof -
  have "case os_acts ?xs ?s of Done s \<Rightarrow> os_sent s = [7] \<and> os_got s = [] \<and> os_refs (os_chan s) = Arc 0 \<and>
      os_cell (os_chan s) = Some 7 \<and> os_dropped (os_chan s) = [] | Panic \<Rightarrow> False | Running \<Rightarrow> False | UB \<Rightarrow> False" by code_simp
  from case_Done [OF this] show ?thesis .
qed

end
