(* ===== verification/Identifiers.thy ===== *)
theory Identifiers
  imports Wire_Message
begin

section \<open>Identifiers in text (\<open>conn_table.rs\<close>)\<close>

text \<open>
  The hexadecimal output of numbers of sockets and links, as it appears in the logs of both nodes,
  and the conversion of an index to a number in a build without debug assertions.
\<close>

subsection \<open>Hexadecimal numbers\<close>

definition hex_digit :: "bool \<Rightarrow> nat \<Rightarrow> char" where
  "hex_digit upper d = (if upper then ''0123456789ABCDEF'' else ''0123456789abcdef'') ! d"

fun hex_digits :: "bool \<Rightarrow> nat \<Rightarrow> string" where
  "hex_digits upper n =
     (if n < 16 then [hex_digit upper n] else hex_digits upper (n div 16) @ [hex_digit upper (n mod 16)])"

declare hex_digits.simps [simp del]

text \<open>The output of the standard library with the flag \<open>0\<close> and the given width.\<close>

definition hex_padded :: "bool \<Rightarrow> nat \<Rightarrow> u16 \<Rightarrow> string" where
  "hex_padded upper width x =
     (let s = hex_digits upper (unat x) in replicate (width - length s) (CHR ''0'') @ s)"

subsection \<open>Output of identifiers\<close>

text \<open>\<open>Id\<close> passes the width of the formatter on; \<open>LinkId\<close> has its own.\<close>

definition Id_upper_hex :: "nat \<Rightarrow> Id \<Rightarrow> string" where
  "Id_upper_hex width i = hex_padded True width i"

definition Id_lower_hex :: "nat \<Rightarrow> Id \<Rightarrow> string" where
  "Id_lower_hex width i = hex_padded False width i"

definition Id_display :: "Id \<Rightarrow> string" where
  "Id_display i = Id_lower_hex 4 i"

definition Id_debug :: "Id \<Rightarrow> string" where
  "Id_debug i = ''Id('' @ Id_lower_hex 4 i @ '')''"

definition link_number :: "Id option \<Rightarrow> u16" where
  "link_number i = (case i of None \<Rightarrow> 0 | Some n \<Rightarrow> n)"

definition LinkId_upper_hex :: "LinkId \<Rightarrow> string" where
  "LinkId_upper_hex l =
     hex_padded True 4 (link_number (link_remote l)) @ '':'' @ hex_padded True 4 (link_number (link_local l))"

definition LinkId_lower_hex :: "LinkId \<Rightarrow> string" where
  "LinkId_lower_hex l =
     hex_padded False 4 (link_number (link_remote l)) @ '':'' @ hex_padded False 4 (link_number (link_local l))"

definition LinkId_display :: "LinkId \<Rightarrow> string" where
  "LinkId_display l = LinkId_lower_hex l"

subsection \<open>Numbers from indices, without debug assertions\<close>

definition Id_from_index_release :: "nat \<Rightarrow> Id" where
  "Id_from_index_release idx =
     (let i = of_nat idx :: u16 in if i = 65535 then 65535 else i + 1)"

subsection \<open>Reading the output back\<close>

definition hex_value :: "char \<Rightarrow> nat" where
  "hex_value c =
     (let k = of_char c :: nat in if k < 58 then k - 48 else if k < 71 then k - 55 else k - 87)"

definition parse_hex :: "string \<Rightarrow> nat" where
  "parse_hex s = foldl (\<lambda>a c. 16 * a + hex_value c) 0 s"

definition parse_link_number :: "string \<Rightarrow> Id option" where
  "parse_link_number s = (let n = of_nat (parse_hex s) in if n = 0 then None else Some n)"

definition parse_link :: "string \<Rightarrow> LinkId" where
  "parse_link s = \<lparr>link_local = parse_link_number (drop 5 s), link_remote = parse_link_number (take 4 s)\<rparr>"

lemma hex_value_digit: "d < 16 \<Longrightarrow> hex_value (hex_digit upper d) = d"
proof -
  assume "d < 16"
  then have "d \<in> {0, 1, 2, 3, 4, 5, 6, 7, 8, 9, 10, 11, 12, 13, 14, 15}"
    by (simp only: insert_iff empty_iff) presburger
  then show ?thesis by (cases upper) (auto simp: hex_digit_def hex_value_def Let_def)
qed

lemma parse_hex_snoc: "parse_hex (s @ [c]) = 16 * parse_hex s + hex_value c"
  by (simp add: parse_hex_def)

lemma parse_hex_zeros: "parse_hex (replicate k (CHR ''0'') @ s) = parse_hex s"
proof (induction k)
  case (Suc k)
  have "hex_value (CHR ''0'') = 0" by code_simp
  then have "parse_hex (CHR ''0'' # t) = parse_hex t" for t by (simp add: parse_hex_def)
  with Suc show ?case by simp
qed simp

lemma parse_hex_digits: "parse_hex (hex_digits upper n) = n"
proof (induction n rule: less_induct)
  case (less n)
  show ?case
  proof (cases "n < 16")
    case True
    then show ?thesis by (simp add: hex_digits.simps [of upper n] parse_hex_def hex_value_digit)
  next
    case False
    with less [of "n div 16"] show ?thesis
      by (simp add: hex_digits.simps [of upper n] parse_hex_snoc hex_value_digit)
  qed
qed

lemma hex_digits_length: "0 < k \<Longrightarrow> n < 16 ^ k \<Longrightarrow> length (hex_digits upper n) \<le> k"
proof (induction k arbitrary: n)
  case (Suc k)
  show ?case
  proof (cases "n < 16")
    case False
    with Suc.prems have "0 < k" by (cases k) simp_all
    moreover from Suc.prems have "n div 16 < 16 ^ k" by (simp add: less_mult_imp_div_less mult.commute)
    ultimately have "length (hex_digits upper (n div 16)) \<le> k" by (rule Suc.IH)
    with False show ?thesis by (simp add: hex_digits.simps [of upper n])
  qed (simp add: hex_digits.simps [of upper n])
qed simp

lemma parse_hex_padded: "parse_hex (hex_padded upper w x) = unat x"
  by (simp add: hex_padded_def Let_def parse_hex_zeros parse_hex_digits)

lemma hex_padded_length: "length (hex_padded upper 4 x) = 4"
proof -
  have "unat x < 16 ^ 4" using unsigned_less [where w = x and 'a = nat] by simp
  from hex_digits_length [OF _ this, of upper] have "length (hex_digits upper (unat x)) \<le> 4" by simp
  then show ?thesis by (simp add: hex_padded_def Let_def)
qed

text \<open>The output of an identifier says which one it is, in upper and in lower case.\<close>

lemma Id_display_roundtrip: "of_nat (parse_hex (Id_display i)) = i"
  by (simp add: Id_display_def Id_lower_hex_def parse_hex_padded)

lemma parse_link_padded:
  assumes "link_local l \<noteq> Some 0" and "link_remote l \<noteq> Some 0"
  shows "parse_link (hex_padded upper 4 (link_number (link_remote l)) @ '':'' @
    hex_padded upper 4 (link_number (link_local l))) = l"
  using assms
  by (cases l) (auto simp: parse_link_def parse_link_number_def hex_padded_length parse_hex_padded link_number_def
    Let_def split: option.splits)

lemma LinkId_display_roundtrip:
  assumes "link_local l \<noteq> Some 0" and "link_remote l \<noteq> Some 0"
  shows "parse_link (LinkId_display l) = l" and "parse_link (LinkId_upper_hex l) = l"
  using parse_link_padded [OF assms, of False] parse_link_padded [OF assms, of True]
  by (simp_all only: LinkId_display_def LinkId_lower_hex_def LinkId_upper_hex_def)

lemma LinkId_display_link:
  "LinkId_display \<lparr>link_local = Some 0x1f, link_remote = None\<rparr> = ''0000:001f''"
  by code_simp

subsection \<open>The two builds\<close>

text \<open>
  The builds agree on the indices of tables with at most 65534 slots. The saturating addition gives
  the index 65535 the number of the index before it, and beyond that one build panics and the other
  starts again.
\<close>

lemma Id_from_index_builds_agree:
  assumes "idx \<le> 65535"
  shows "Id_from_index idx = Done (Id_from_index_release idx)"
proof (cases "idx = 65535")
  case False
  with assms have "idx + 1 < 2 ^ 16" and "idx < 2 ^ 16" by simp_all
  then have succ: "unat (of_nat (idx + 1) :: u16) = idx + 1" and this_idx: "unat (of_nat idx :: u16) = idx"
    by (simp_all add: unat_of_nat del: of_nat_add of_nat_Suc)
  have "(of_nat (idx + 1) :: u16) \<noteq> 0"
  proof
    assume "(of_nat (idx + 1) :: u16) = 0"
    with succ show False by simp
  qed
  moreover have "(of_nat idx :: u16) \<noteq> 65535"
  proof
    assume "(of_nat idx :: u16) = 65535"
    with this_idx False show False by simp
  qed
  ultimately show ?thesis using assms False
    by (simp add: Id_from_index_def Id_from_index_release_def Let_def add.commute)
qed (simp add: Id_from_index_def Id_from_index_release_def)

lemma Id_from_index_saturates: "Id_from_index 65535 = Id_from_index 65534"
  by (simp add: Id_from_index_def)

lemma Id_from_index_release_wraps: "Id_from_index_release 65536 = Id_from_index_release 0" "Id_from_index 65536 = Panic"
  by (simp_all add: Id_from_index_release_def Id_from_index_def)

end
