(* ===== verification/Type_Info.thy ===== *)
theory Type_Info
  imports Oneshot
begin

section \<open>Run-time types (\<open>typeinfo.rs\<close>)\<close>

text \<open>
  A type of the program is the answer of \<open>TypeId::of\<close> and of \<open>type_name\<close>. \<open>TypeInfo\<close> keeps both, and
  the functions that erased senders call check it before they touch the cell.
\<close>

record rust_type =
  type_id :: nat
  type_name :: string

record TypeInfo =
  ti_id :: nat
  ti_name :: string

definition TypeInfo_of :: "rust_type \<Rightarrow> TypeInfo" where
  "TypeInfo_of t = \<lparr>ti_id = type_id t, ti_name = type_name t\<rparr>"

definition TypeInfo_assert_matches :: "TypeInfo \<Rightarrow> rust_type \<Rightarrow> string \<Rightarrow> unit outcome" where
  "TypeInfo_assert_matches info t what = (if ti_id info = type_id t then Done () else Panic)"

definition TypeInfo_name :: "TypeInfo \<Rightarrow> string" where
  "TypeInfo_name info = ti_name info"

definition TypeInfo_display :: "TypeInfo \<Rightarrow> string" where
  "TypeInfo_display info = TypeInfo_name info"

definition TypeInfo_debug :: "TypeInfo \<Rightarrow> string" where
  "TypeInfo_debug info = TypeInfo_name info"

subsection \<open>The vtable of a deserialising one-shot sender\<close>

text \<open>
  \<open>DeserVtable\<close>: the type the functions were instantiated at, and the type information that a sender
  carries beside them. Each function asserts that the two match.
\<close>

record oneshot_deser_vtable =
  dv_type :: rust_type
  dv_info :: TypeInfo

definition Oneshot_DESER_VTABLE :: "rust_type \<Rightarrow> oneshot_deser_vtable" where
  "Oneshot_DESER_VTABLE t = \<lparr>dv_type = t, dv_info = TypeInfo_of t\<rparr>"

definition deser_vtable_check :: "oneshot_deser_vtable \<Rightarrow> 'b outcome \<Rightarrow> 'b outcome" where
  "deser_vtable_check dv x =
     outcome_bind (TypeInfo_assert_matches (dv_info dv) (dv_type dv) ''oneshot::DeserSender'') (\<lambda>_. x)"

definition deser_vtable_from_bytes ::
  "oneshot_deser_vtable \<Rightarrow> ('m, 'x) postcard \<Rightarrow> 'm oneshot \<Rightarrow> bytes \<Rightarrow> ('m oneshot \<times> ('x + unit)) outcome" where
  "deser_vtable_from_bytes dv pc o1 bs = deser_vtable_check dv (Done (OneshotDeserSender_from_bytes pc o1 bs))"

definition deser_vtable_from_bytes_framed ::
  "oneshot_deser_vtable \<Rightarrow> ('m, 'x) postcard \<Rightarrow> 'm oneshot \<Rightarrow> bytes \<Rightarrow> ('m oneshot \<times> ('x + unit)) outcome" where
  "deser_vtable_from_bytes_framed dv pc o1 bs =
     deser_vtable_check dv (Done (OneshotDeserSender_from_bytes_framed pc o1 bs))"

definition deser_vtable_drop_data :: "oneshot_deser_vtable \<Rightarrow> 'm oneshot \<Rightarrow> 'm oneshot outcome" where
  "deser_vtable_drop_data dv o1 = deser_vtable_check dv (oneshot_drop_cell o1)"

text \<open>
  The assertion never fails on the vtable that \<open>deser_sender\<close> takes: \<open>Oneshot\<close>, which leaves it out,
  describes what the calls do.
\<close>

lemma deser_vtable_check_ok [simp]: "deser_vtable_check (Oneshot_DESER_VTABLE t) x = x"
  by (simp add: deser_vtable_check_def Oneshot_DESER_VTABLE_def TypeInfo_assert_matches_def TypeInfo_of_def)

lemma deser_vtable_calls:
  "deser_vtable_from_bytes (Oneshot_DESER_VTABLE t) pc o1 bs = Done (OneshotDeserSender_from_bytes pc o1 bs)"
  "deser_vtable_from_bytes_framed (Oneshot_DESER_VTABLE t) pc o1 bs =
     Done (OneshotDeserSender_from_bytes_framed pc o1 bs)"
  "deser_vtable_drop_data (Oneshot_DESER_VTABLE t) o1 = oneshot_drop_cell o1"
  by (simp_all add: deser_vtable_from_bytes_def deser_vtable_from_bytes_framed_def deser_vtable_drop_data_def)

lemma TypeInfo_assert_matches_iff:
  "TypeInfo_assert_matches info t what = Done () \<longleftrightarrow> ti_id info = type_id t"
  by (simp add: TypeInfo_assert_matches_def)

end
